(* ===== verification/Prelude.thy ===== *)
theory Prelude
  imports Main "HOL-Library.Word" "HOL-Library.Multiset"
begin

text \<open>
  Shared vocabulary of the development: the machine integers and byte strings of the Rust
  sources, the outcome of a call that may panic, little- and big-endian byte codecs
  (\<open>to_le_bytes\<close>, \<open>from_be_bytes\<close> and their kin) with the interface locale their clients use,
  \<open>Vec::swap_remove\<close>, and the generic contract of a component whose operations keep an invariant.
\<close>

unbundle bit_operations_syntax

section \<open>Machine integers, byte strings, panics\<close>

type_synonym u8 = "8 word"
type_synonym u16 = "16 word"
type_synonym u32 = "32 word"
type_synonym u64 = "64 word"
type_synonym bytes = "u8 list"

text \<open>
  Rust's \<open>Result\<close> is the sum type with \<open>Inl\<close> the error. A panic is not an error value: with
  \<open>panic = "abort"\<close> it ends the process. Calls that can panic return an \<open>outcome\<close>.
\<close>

datatype 'a outcome = Returns 'a | Panics

primrec obind :: "'a outcome \<Rightarrow> ('a \<Rightarrow> 'b outcome) \<Rightarrow> 'b outcome" where
  "obind (Returns x) f = f x"
| "obind Panics f = Panics"

named_theorems layout_simps \<open>lengths and slices of byte layouts\<close>
named_theorems inv_rules \<open>preservation of component invariants\<close>

lemma obind_Returns [consumes 1]:
  assumes "obind x f = Returns y"
  obtains z where "x = Returns z" "f z = Returns y"
  using assms by (cases x) auto

section \<open>Byte codecs\<close>

definition le_bytes :: "nat \<Rightarrow> 'a::len word \<Rightarrow> bytes" where
  "le_bytes n w = map (\<lambda>i. ucast (drop_bit (8 * i) w)) [0..<n]"

primrec of_le_bytes :: "bytes \<Rightarrow> 'a::len word" where
  "of_le_bytes [] = 0"
| "of_le_bytes (b # bs) = ucast b OR push_bit 8 (of_le_bytes bs)"

definition be_bytes :: "nat \<Rightarrow> 'a::len word \<Rightarrow> bytes" where
  "be_bytes n w = rev (le_bytes n w)"

definition of_be_bytes :: "bytes \<Rightarrow> 'a::len word" where
  "of_be_bytes bs = of_le_bytes (rev bs)"

abbreviation le32 :: "u32 \<Rightarrow> bytes" where "le32 \<equiv> le_bytes 4"
abbreviation le64 :: "u64 \<Rightarrow> bytes" where "le64 \<equiv> le_bytes 8"
abbreviation be16 :: "u16 \<Rightarrow> bytes" where "be16 \<equiv> be_bytes 2"
abbreviation be32 :: "u32 \<Rightarrow> bytes" where "be32 \<equiv> be_bytes 4"
abbreviation be64 :: "u64 \<Rightarrow> bytes" where "be64 \<equiv> be_bytes 8"

text \<open>The sub-slice \<open>&src[a..b]\<close>; every use has the bounds checked before.\<close>

definition slice :: "nat \<Rightarrow> nat \<Rightarrow> 'a list \<Rightarrow> 'a list" where
  "slice a b xs = take (b - a) (drop a xs)"

text \<open>\<open>Vec::swap_remove\<close>: the last element takes the place of the removed one.\<close>

definition swap_remove :: "'a list \<Rightarrow> nat \<Rightarrow> 'a list" where
  "swap_remove xs i = (if i = length xs - 1 then butlast xs else (butlast xs)[i := last xs])"

section \<open>The codecs are exact\<close>

lemma length_le_bytes [simp, layout_simps]: "length (le_bytes n w) = n"
  by (simp add: le_bytes_def)

lemma length_be_bytes [simp, layout_simps]: "length (be_bytes n w) = n"
  by (simp add: be_bytes_def)

lemma bit_of_le_bytes:
  "bit (of_le_bytes bs :: 'a::len word) i \<longleftrightarrow>
     i < LENGTH('a) \<and> i div 8 < length bs \<and> bit (bs ! (i div 8)) (i mod 8)"
proof (induction bs arbitrary: i)
  case Nil
  then show ?case by simp
next
  case (Cons b bs)
  show ?case
  proof (cases "i < 8")
    case True
    then show ?thesis by (auto simp: bit_simps)
  next
    case False
    then have "\<exists>j. i = j + 8" by presburger
    then obtain j where j: "i = j + 8" ..
    have d: "(j + 8) div 8 = Suc (j div 8)" by simp
    have "\<not> bit b i" using False by (auto dest: bit_imp_le_length)
    then show ?thesis using Cons [of j] False j by (auto simp: bit_simps d)
  qed
qed

lemma bit_le_bytes_nth:
  "k < n \<Longrightarrow> j < 8 \<Longrightarrow> bit (le_bytes n w ! k) j \<longleftrightarrow> bit w (8 * k + j)"
  by (auto simp: le_bytes_def bit_simps)

lemma of_le_bytes_le_bytes [simp]:
  fixes w :: "'a::len word"
  assumes "LENGTH('a) \<le> 8 * n"
  shows "of_le_bytes (le_bytes n w) = w"
proof (rule bit_word_eqI)
  fix i assume i: "i < LENGTH('a)"
  then have "i div 8 < n" using assms by linarith
  then show "bit (of_le_bytes (le_bytes n w) :: 'a word) i = bit w i"
    using i by (simp add: bit_of_le_bytes bit_le_bytes_nth)
qed

lemma of_be_bytes_be_bytes [simp]:
  fixes w :: "'a::len word"
  shows "LENGTH('a) \<le> 8 * n \<Longrightarrow> of_be_bytes (be_bytes n w) = w"
  by (simp add: be_bytes_def of_be_bytes_def)

lemma le_bytes_of_le_bytes:
  assumes "8 * length bs \<le> LENGTH('a)"
  shows "le_bytes (length bs) (of_le_bytes bs :: 'a::len word) = bs"
proof (rule nth_equalityI)
  fix k assume "k < length (le_bytes (length bs) (of_le_bytes bs :: 'a word))"
  then have k: "k < length bs" by simp
  show "le_bytes (length bs) (of_le_bytes bs :: 'a word) ! k = bs ! k"
  proof (rule bit_word_eqI)
    fix j assume "j < LENGTH(8)"
    then have j: "j < 8" by simp
    then have "8 * k + j < LENGTH('a)" using k assms by linarith
    then show "bit (le_bytes (length bs) (of_le_bytes bs :: 'a word) ! k) j = bit (bs ! k) j"
      using j k by (simp add: bit_le_bytes_nth bit_of_le_bytes)
  qed
qed simp

lemma be_bytes_of_be_bytes:
  assumes "8 * length bs \<le> LENGTH('a)"
  shows "be_bytes (length bs) (of_be_bytes bs :: 'a::len word) = bs"
  using le_bytes_of_le_bytes [of "rev bs", where 'a = 'a] assms
  by (simp add: be_bytes_def of_be_bytes_def)

section \<open>The codec interface\<close>

text \<open>
  What a message layout relies on: a field of fixed width that decodes to what was encoded.
  The lemmas let a parser peel such a field off the front of a message.
\<close>

locale fixed_codec =
  fixes enc :: "'v \<Rightarrow> bytes" and dec :: "bytes \<Rightarrow> 'v" and width :: nat
  assumes enc_length: "length (enc v) = width"
    and dec_enc: "dec (enc v) = v"
begin

lemma enc_inject: "enc v = enc v' \<longleftrightarrow> v = v'"
  using dec_enc by metis

lemma take_enc: "take width (enc v @ rest) = enc v"
  by (simp add: enc_length)

lemma dec_field: "dec (slice (length pre) (length pre + width) (pre @ enc v @ rest)) = v"
  by (simp add: slice_def enc_length dec_enc)

lemma enc_prefix_inject: "enc v @ xs = enc v' @ ys \<longleftrightarrow> v = v' \<and> xs = ys"
  by (simp add: append_eq_append_conv enc_length enc_inject)

end

interpretation le32: fixed_codec le32 of_le_bytes 4
  by unfold_locales simp_all

interpretation le64: fixed_codec le64 of_le_bytes 8
  by unfold_locales simp_all

interpretation be16: fixed_codec be16 of_be_bytes 2
  by unfold_locales simp_all

interpretation be32: fixed_codec be32 of_be_bytes 4
  by unfold_locales simp_all

interpretation be64: fixed_codec be64 of_be_bytes 8
  by unfold_locales simp_all

lemma unat_of_nat_small: "n < 2 ^ LENGTH('a) \<Longrightarrow> unat (of_nat n :: 'a::len word) = n"
  by (simp add: unsigned_of_nat take_bit_nat_eq_self)

section \<open>Slices and swap_remove\<close>

lemma length_slice [simp, layout_simps]: "length (slice a b xs) = min (b - a) (length xs - a)"
  by (simp add: slice_def)

lemma slice_append_left: "b \<le> length xs \<Longrightarrow> slice a b (xs @ ys) = slice a b xs"
  by (simp add: slice_def)

lemma slice_append_right:
  "length xs \<le> a \<Longrightarrow> slice a b (xs @ ys) = slice (a - length xs) (b - length xs) ys"
  by (simp add: slice_def)

lemma slice_full: "length xs \<le> b \<Longrightarrow> slice 0 b xs = xs"
  by (simp add: slice_def)

lemma length_swap_remove: "i < length xs \<Longrightarrow> length (swap_remove xs i) = length xs - 1"
  by (simp add: swap_remove_def)

lemma mset_swap_remove:
  assumes "i < length xs"
  shows "mset (swap_remove xs i) = mset xs - {#xs ! i#}"
proof -
  obtain ys y where xs: "xs = ys @ [y]"
    using assms by (metis length_0_conv not_less0 rev_exhaust)
  show ?thesis
  proof (cases "i = length ys")
    case True
    then show ?thesis by (simp add: swap_remove_def xs)
  next
    case False
    with assms xs have "i < length ys" by simp
    then show ?thesis by (simp add: swap_remove_def xs mset_update nth_append)
  qed
qed

lemma set_swap_remove_subset: "i < length xs \<Longrightarrow> set (swap_remove xs i) \<subseteq> set xs"
  by (metis mset_swap_remove in_diffD set_mset_mset subsetI)

lemma swap_remove_nth_below:
  "j < i \<Longrightarrow> i < length xs \<Longrightarrow> swap_remove xs i ! j = xs ! j"
  by (auto simp: swap_remove_def nth_butlast)

section \<open>Components whose operations keep an invariant\<close>

text \<open>
  A component is driven by a sequence of operations. If one operation keeps its invariant, every
  sequence does; the theories of the components instantiate this with their own step functions.
\<close>

locale invariant_system =
  fixes step :: "'e \<Rightarrow> 's \<Rightarrow> 's" and inv :: "'s \<Rightarrow> bool"
  assumes step_inv: "inv s \<Longrightarrow> inv (step e s)"
begin

lemma run_inv: "inv s \<Longrightarrow> inv (fold step es s)"
  by (induction es arbitrary: s) (auto intro: step_inv)

end

section \<open>Lists searched by a key\<close>

text \<open>\<open>iter_mut().find(...)\<close> and an update of the element found; \<open>iter().position(...)\<close>.\<close>

fun update_first :: "('a \<Rightarrow> bool) \<Rightarrow> ('a \<Rightarrow> 'a) \<Rightarrow> 'a list \<Rightarrow> 'a list" where
  "update_first P f [] = []"
| "update_first P f (x # xs) = (if P x then f x # xs else x # update_first P f xs)"

fun find_index :: "('a \<Rightarrow> bool) \<Rightarrow> 'a list \<Rightarrow> nat option" where
  "find_index P [] = None"
| "find_index P (x # xs) = (if P x then Some 0 else map_option Suc (find_index P xs))"

definition lookup_by :: "('a \<Rightarrow> 'k) \<Rightarrow> 'a list \<Rightarrow> 'k \<Rightarrow> 'a option" where
  "lookup_by key xs k = find (\<lambda>x. key x = k) xs"

lemma lookup_by_remove: "lookup_by key (filter (\<lambda>x. key x \<noteq> k) xs) = (lookup_by key xs)(k := None)"
  by (rule ext, induction xs) (auto simp: lookup_by_def)

lemma lookup_by_snoc: "key x \<notin> key ` set xs \<Longrightarrow> lookup_by key (xs @ [x]) = (lookup_by key xs)(key x \<mapsto> x)"
  by (rule ext, induction xs) (auto simp: lookup_by_def)

lemma lookup_by_update:
  assumes "\<And>x. key (f x) = key x"
  shows "lookup_by key (update_first (\<lambda>x. key x = k) f xs) =
    (lookup_by key xs)(k := map_option f (lookup_by key xs k))"
  using assms by (intro ext, induction xs) (auto simp: lookup_by_def)

lemma map_update_first: "(\<And>x. g (f x) = g x) \<Longrightarrow> map g (update_first P f xs) = map g xs"
  by (induction xs) auto

lemma set_update_first: "x \<in> set (update_first P f xs) \<Longrightarrow> x \<in> set xs \<or> (\<exists>y \<in> set xs. x = f y)"
  by (induction xs) (auto split: if_splits)

lemma find_index_Some: "find_index P xs = Some i \<Longrightarrow> i < length xs \<and> P (xs ! i)"
  by (induction xs arbitrary: i) (auto split: if_splits)

lemma find_index_distinct:
  "distinct (map key xs) \<Longrightarrow> i < length xs \<Longrightarrow> find_index (\<lambda>x. key x = key (xs ! i)) xs = Some i"
proof (induction xs arbitrary: i)
  case (Cons x xs)
  then show ?case by (cases i) auto
qed simp

lemma map_list_update_same: "i < length xs \<Longrightarrow> g y = g (xs ! i) \<Longrightarrow> map g (xs[i := y]) = map g xs"
  by (simp add: map_update list_update_same_conv)

end
