(* ===== verification/Target.thy ===== *)
theory Target
  imports Rust_Strings
begin

text \<open>
  \<open>newt-core/src/target.rs\<close>: a proxy target \<open>listenPort:host:targetPort\<close> and its parser, and the
  dial string \<open>host:targetPort\<close> that the data plane stores (\<open>newt/src/tunnel.rs\<close>). The lemmas
  characterise the accepted strings and show that parsing inverts both ways of writing a target.
\<close>

record target =
  listen_port :: u16
  host :: string
  target_port :: u16

text \<open>The host and port part: a bracketed IPv6 literal, or everything up to the last colon.\<close>

definition split_host_port :: "string \<Rightarrow> (string \<times> string) option" where
  "split_host_port rest =
     (case strip_prefix_chr (CHR ''['') rest of
        Some after \<Rightarrow>
          (case find_char (CHR '']'') after of
             None \<Rightarrow> None
           | Some close \<Rightarrow>
               (case strip_prefix_chr (CHR '':'') (drop (close + 1) after) of
                  None \<Rightarrow> None
                | Some port \<Rightarrow> Some (take close after, port)))
      | None \<Rightarrow> rsplit_once (CHR '':'') rest)"

definition parse_target :: "string \<Rightarrow> target option" where
  "parse_target s =
     (case split_once (CHR '':'') s of
        None \<Rightarrow> None
      | Some (listen, rest) \<Rightarrow>
          (case parse_u16 listen of
             None \<Rightarrow> None
           | Some lp \<Rightarrow>
               (case split_host_port rest of
                  None \<Rightarrow> None
                | Some (h, port) \<Rightarrow>
                    (case parse_u16 port of
                       None \<Rightarrow> None
                     | Some tp \<Rightarrow> Some \<lparr>listen_port = lp, host = h, target_port = tp\<rparr>))))"

text \<open>\<open>format!("{}:{}", t.host, t.target_port)\<close>\<close>

definition dial_string :: "target \<Rightarrow> string" where
  "dial_string t = host t @ CHR '':'' # show_u16 (target_port t)"

text \<open>The two ways a server writes a target.\<close>

definition plain_spec :: "target \<Rightarrow> string" where
  "plain_spec t = show_u16 (listen_port t) @ CHR '':'' # host t @ CHR '':'' # show_u16 (target_port t)"

definition bracket_spec :: "target \<Rightarrow> string" where
  "bracket_spec t = show_u16 (listen_port t) @ CHR '':'' # CHR ''['' # host t @ CHR '']'' # CHR '':'' #
     show_u16 (target_port t)"

section \<open>The accepted language\<close>

lemma split_host_port_bracket:
  "split_host_port (CHR ''['' # after) = Some (h, p) \<longleftrightarrow>
     after = h @ CHR '']'' # CHR '':'' # p \<and> CHR '']'' \<notin> set h"
proof (cases "split_once (CHR '']'') after")
  case None
  then have "CHR '']'' \<notin> set after" and "find_char (CHR '']'') after = None"
    by (simp_all add: split_once_None_iff find_char_None_iff)
  then show ?thesis by (auto simp: split_host_port_def)
next
  case (Some ab)
  then obtain a b where ab: "after = a @ CHR '']'' # b" "CHR '']'' \<notin> set a"
    by (cases ab) (auto simp: split_once_Some_iff)
  then have "split_host_port (CHR ''['' # after) = Some (h, p) \<longleftrightarrow> a = h \<and> b = CHR '':'' # p"
    by (auto simp: split_host_port_def split: option.splits)
  also have "\<dots> \<longleftrightarrow> split_once (CHR '']'') after = Some (h, CHR '':'' # p)"
    using ab by simp
  also have "\<dots> \<longleftrightarrow> after = h @ CHR '']'' # CHR '':'' # p \<and> CHR '']'' \<notin> set h"
    by (rule split_once_Some_iff)
  finally show ?thesis .
qed

lemma split_host_port_plain:
  "\<forall>u. rest \<noteq> CHR ''['' # u \<Longrightarrow>
     split_host_port rest = Some (h, p) \<longleftrightarrow> rest = h @ CHR '':'' # p \<and> CHR '':'' \<notin> set p"
  by (simp add: split_host_port_def strip_prefix_chr_None_iff [THEN iffD2] rsplit_once_Some_iff)

lemma parse_target_Some_iff:
  "parse_target s = Some t \<longleftrightarrow>
     (\<exists>l rest p. s = l @ CHR '':'' # rest \<and> parse_u16 l = Some (listen_port t) \<and>
        split_host_port rest = Some (host t, p) \<and> parse_u16 p = Some (target_port t))"
proof
  assume "parse_target s = Some t"
  then show "\<exists>l rest p. s = l @ CHR '':'' # rest \<and> parse_u16 l = Some (listen_port t) \<and>
      split_host_port rest = Some (host t, p) \<and> parse_u16 p = Some (target_port t)"
    by (fastforce simp: parse_target_def split_once_Some_iff split: option.splits prod.splits)
next
  assume "\<exists>l rest p. s = l @ CHR '':'' # rest \<and> parse_u16 l = Some (listen_port t) \<and>
      split_host_port rest = Some (host t, p) \<and> parse_u16 p = Some (target_port t)"
  then show "parse_target s = Some t"
    by (auto simp: parse_target_def parse_u16_no_colon)
qed

text \<open>
  C31: the target parser accepts exactly the strings made of a \<open>u16\<close> listen port, a colon, and
  either a bracketed host followed by a colon and a \<open>u16\<close> port, or (when what follows the first
  colon does not start with a bracket) a host and a port separated by the last colon; it returns
  the listen port, the bare host and the target port.
\<close>

theorem parse_target_iff:
  "parse_target s = Some t \<longleftrightarrow>
     (\<exists>l p. parse_u16 l = Some (listen_port t) \<and> parse_u16 p = Some (target_port t) \<and>
        ((s = l @ CHR '':'' # CHR ''['' # host t @ CHR '']'' # CHR '':'' # p \<and> CHR '']'' \<notin> set (host t)) \<or>
         (s = l @ CHR '':'' # host t @ CHR '':'' # p \<and>
            (\<nexists>u. host t @ CHR '':'' # p = CHR ''['' # u))))"
  (is "?L \<longleftrightarrow> ?R")
proof
  assume ?L
  then obtain l rest p where *: "s = l @ CHR '':'' # rest" "parse_u16 l = Some (listen_port t)"
    "split_host_port rest = Some (host t, p)" "parse_u16 p = Some (target_port t)"
    by (auto simp: parse_target_Some_iff)
  show ?R
  proof (cases "\<exists>u. rest = CHR ''['' # u")
    case True
    then have "rest = CHR ''['' # host t @ CHR '']'' # CHR '':'' # p \<and> CHR '']'' \<notin> set (host t)"
      using * by (auto simp: split_host_port_bracket)
    then show ?thesis using * by blast
  next
    case False
    then show ?thesis using * split_host_port_plain [of rest] by auto
  qed
next
  assume ?R
  then obtain l p where lp: "parse_u16 l = Some (listen_port t)" "parse_u16 p = Some (target_port t)"
    and "(s = l @ CHR '':'' # CHR ''['' # host t @ CHR '']'' # CHR '':'' # p \<and> CHR '']'' \<notin> set (host t)) \<or>
      (s = l @ CHR '':'' # host t @ CHR '':'' # p \<and> (\<nexists>u. host t @ CHR '':'' # p = CHR ''['' # u))"
    by blast
  then show ?L
  proof (elim disjE conjE)
    assume "s = l @ CHR '':'' # CHR ''['' # host t @ CHR '']'' # CHR '':'' # p" "CHR '']'' \<notin> set (host t)"
    then show ?L unfolding parse_target_Some_iff using lp split_host_port_bracket by blast
  next
    assume "s = l @ CHR '':'' # host t @ CHR '':'' # p" "\<nexists>u. host t @ CHR '':'' # p = CHR ''['' # u"
    moreover from this have "split_host_port (host t @ CHR '':'' # p) = Some (host t, p)"
      using split_host_port_plain [of "host t @ CHR '':'' # p"] parse_u16_no_colon lp by auto
    ultimately show ?L unfolding parse_target_Some_iff using lp by blast
  qed
qed

text \<open>
  C32: printing a target and parsing it gives the target back: in the plain form for every host
  that does not start with a bracket, in the bracketed form for every host without a closing
  bracket; and the dial string splits at its last colon into exactly the host and the port, so
  an IPv6 host is never confused with its port.
\<close>

theorem target_roundtrip:
  "(\<nexists>u. host t = CHR ''['' # u) \<Longrightarrow> CHR '']'' \<notin> set (host t') \<Longrightarrow>
     parse_target (plain_spec t) = Some t \<and> parse_target (bracket_spec t') = Some t' \<and>
     rsplit_once (CHR '':'') (dial_string t) = Some (host t, show_u16 (target_port t)) \<and>
     parse_u16 (show_u16 (target_port t)) = Some (target_port t)"
proof -
  assume h: "\<nexists>u. host t = CHR ''['' # u" and h': "CHR '']'' \<notin> set (host t')"
  have ne: "\<forall>u. host t @ CHR '':'' # show_u16 (target_port t) \<noteq> CHR ''['' # u"
    using h by (cases "host t") auto
  have "parse_target (plain_spec t) = Some t"
    unfolding parse_target_Some_iff plain_spec_def
    using split_host_port_plain [OF ne] parse_u16_show_u16 show_u16_no_colon by blast
  moreover have "parse_target (bracket_spec t') = Some t'"
    unfolding parse_target_Some_iff bracket_spec_def
    using split_host_port_bracket h' parse_u16_show_u16 by blast
  ultimately show ?thesis by (simp add: dial_string_def)
qed

theorem target_roundtrip_witness:
  "(\<nexists>u. ''10.0.0.7'' = CHR ''['' # u) \<and> CHR '']'' \<notin> set ''fd00::1'' \<and>
   parse_target ''3001:10.0.0.7:80'' = Some \<lparr>listen_port = 3001, host = ''10.0.0.7'', target_port = 80\<rparr> \<and>
   parse_target ''3001:[fd00::1]:443'' = Some \<lparr>listen_port = 3001, host = ''fd00::1'', target_port = 443\<rparr>"
proof -
  let ?t = "\<lparr>listen_port = 3001, host = ''10.0.0.7'', target_port = 80\<rparr>"
  let ?t' = "\<lparr>listen_port = 3001, host = ''fd00::1'', target_port = 443\<rparr>"
  have "plain_spec ?t = ''3001:10.0.0.7:80''"
    by (simp add: plain_spec_def show_u16_def show_nat_eval)
  moreover have "bracket_spec ?t' = ''3001:[fd00::1]:443''"
    by (simp add: bracket_spec_def show_u16_def show_nat_eval)
  moreover have h: "(\<nexists>u. host ?t = CHR ''['' # u)" "CHR '']'' \<notin> set (host ?t')" by simp_all
  ultimately show ?thesis using target_roundtrip [OF h] by (simp only: target.select_convs) blast
qed

end
