(* ===== verification/Crypto.thy ===== *)
theory Crypto
  imports Prelude
begin

text \<open>
  The cryptographic crates the tunnel calls (\<open>blake2\<close>, \<open>hmac\<close>, \<open>chacha20poly1305\<close>, \<open>x25519-dalek\<close>)
  are not part of the sources: their operations are the fields of a record that the definitions
  take as an argument, and what the code relies on is the hypothesis \<open>crypto_ok\<close>: output lengths,
  opening inverts sealing, and Diffie-Hellman commutes. No secrecy or unforgeability is assumed.
  The wrappers of \<open>noise/handshake.rs\<close> around them are definitions here.
\<close>

record crypto =
  blake2s :: "bytes \<Rightarrow> bytes"
  hmac_blake2s :: "bytes \<Rightarrow> bytes \<Rightarrow> bytes"
  blake2s_mac16 :: "bytes \<Rightarrow> bytes \<Rightarrow> bytes"
  blake2s_mac24 :: "bytes \<Rightarrow> bytes \<Rightarrow> bytes"
  chacha_encrypt :: "bytes \<Rightarrow> bytes \<Rightarrow> bytes \<Rightarrow> bytes \<Rightarrow> bytes \<times> bytes"
  chacha_decrypt :: "bytes \<Rightarrow> bytes \<Rightarrow> bytes \<Rightarrow> bytes \<Rightarrow> bytes \<Rightarrow> bytes option"
  xchacha_encrypt :: "bytes \<Rightarrow> bytes \<Rightarrow> bytes \<Rightarrow> bytes \<Rightarrow> bytes \<times> bytes"
  xchacha_decrypt :: "bytes \<Rightarrow> bytes \<Rightarrow> bytes \<Rightarrow> bytes \<Rightarrow> bytes \<Rightarrow> bytes option"
  x25519_public :: "bytes \<Rightarrow> bytes"
  x25519_dh :: "bytes \<Rightarrow> bytes \<Rightarrow> bytes"

text \<open>
  The arguments of the ciphers are key, nonce, associated data and message; encryption in place
  gives the ciphertext and its detached tag, decryption takes both.
\<close>

definition crypto_ok :: "crypto \<Rightarrow> bool" where
  "crypto_ok c \<longleftrightarrow>
     (\<forall>x. length (blake2s c x) = 32) \<and>
     (\<forall>k x. length (hmac_blake2s c k x) = 32) \<and>
     (\<forall>k x. length (blake2s_mac16 c k x) = 16) \<and>
     (\<forall>k x. length (blake2s_mac24 c k x) = 24) \<and>
     (\<forall>k n a m. length (fst (chacha_encrypt c k n a m)) = length m \<and>
        length (snd (chacha_encrypt c k n a m)) = 16 \<and>
        chacha_decrypt c k n a (fst (chacha_encrypt c k n a m)) (snd (chacha_encrypt c k n a m)) = Some m) \<and>
     (\<forall>k n a x t m. chacha_decrypt c k n a x t = Some m \<longrightarrow> length m = length x) \<and>
     (\<forall>k n a m. length (fst (xchacha_encrypt c k n a m)) = length m \<and>
        length (snd (xchacha_encrypt c k n a m)) = 16 \<and>
        xchacha_decrypt c k n a (fst (xchacha_encrypt c k n a m)) (snd (xchacha_encrypt c k n a m)) = Some m) \<and>
     (\<forall>k n a x t m. xchacha_decrypt c k n a x t = Some m \<longrightarrow> length m = length x) \<and>
     (\<forall>s. length (x25519_public c s) = 32) \<and>
     (\<forall>s p. length (x25519_dh c s p) = 32) \<and>
     (\<forall>a b. x25519_dh c a (x25519_public c b) = x25519_dh c b (x25519_public c a))"

section \<open>The wrappers of the handshake module\<close>

definition b2s_hash :: "crypto \<Rightarrow> bytes \<Rightarrow> bytes \<Rightarrow> bytes" where
  "b2s_hash c data1 data2 = blake2s c (data1 @ data2)"

definition b2s_hmac :: "crypto \<Rightarrow> bytes \<Rightarrow> bytes \<Rightarrow> bytes" where
  "b2s_hmac c key data1 = hmac_blake2s c key data1"

definition b2s_hmac2 :: "crypto \<Rightarrow> bytes \<Rightarrow> bytes \<Rightarrow> bytes \<Rightarrow> bytes" where
  "b2s_hmac2 c key data1 data2 = hmac_blake2s c key (data1 @ data2)"

definition b2s_keyed_mac_16 :: "crypto \<Rightarrow> bytes \<Rightarrow> bytes \<Rightarrow> bytes" where
  "b2s_keyed_mac_16 c key data1 = blake2s_mac16 c key data1"

definition b2s_keyed_mac_16_2 :: "crypto \<Rightarrow> bytes \<Rightarrow> bytes \<Rightarrow> bytes \<Rightarrow> bytes" where
  "b2s_keyed_mac_16_2 c key data1 data2 = blake2s_mac16 c key (data1 @ data2)"

definition b2s_mac_24 :: "crypto \<Rightarrow> bytes \<Rightarrow> bytes \<Rightarrow> bytes" where
  "b2s_mac_24 c key data1 = blake2s_mac24 c key data1"

text \<open>The 12-byte nonce of a counter: four zero bytes, then the counter in little endian.\<close>

definition counter_nonce :: "u64 \<Rightarrow> bytes" where
  "counter_nonce n = replicate 4 0 @ le64 n"

definition aead_chacha20_seal :: "crypto \<Rightarrow> bytes \<Rightarrow> u64 \<Rightarrow> bytes \<Rightarrow> bytes \<Rightarrow> bytes" where
  "aead_chacha20_seal c key counter msg aad =
     (case chacha_encrypt c key (counter_nonce counter) aad msg of (ct, tag) \<Rightarrow> ct @ tag)"

text \<open>\<open>None\<close> is the AEAD failure; every caller passes at least the 16 bytes of a tag.\<close>

definition aead_chacha20_open :: "crypto \<Rightarrow> bytes \<Rightarrow> u64 \<Rightarrow> bytes \<Rightarrow> bytes \<Rightarrow> bytes option" where
  "aead_chacha20_open c key counter ct aad =
     (let split = length ct - 16
      in chacha_decrypt c key (counter_nonce counter) aad (take split ct) (drop split ct))"

section \<open>Laws\<close>

lemma crypto_ok_lengths:
  assumes "crypto_ok c"
  shows "length (b2s_hash c x y) = 32" "length (b2s_hmac c k x) = 32" "length (b2s_hmac2 c k x y) = 32"
    "length (b2s_keyed_mac_16 c k x) = 16" "length (b2s_keyed_mac_16_2 c k x y) = 16"
    "length (b2s_mac_24 c k x) = 24" "length (x25519_public c s) = 32" "length (x25519_dh c s p) = 32"
  using assms
  by (simp_all add: crypto_ok_def b2s_hash_def b2s_hmac_def b2s_hmac2_def b2s_keyed_mac_16_def
      b2s_keyed_mac_16_2_def b2s_mac_24_def)

lemma dh_commutes: "crypto_ok c \<Longrightarrow> x25519_dh c a (x25519_public c b) = x25519_dh c b (x25519_public c a)"
  by (simp add: crypto_ok_def)

lemma length_seal: "crypto_ok c \<Longrightarrow> length (aead_chacha20_seal c k n m a) = length m + 16"
  by (simp add: crypto_ok_def aead_chacha20_seal_def case_prod_beta)

lemma open_seal: "crypto_ok c \<Longrightarrow> aead_chacha20_open c k n (aead_chacha20_seal c k n m a) a = Some m"
  by (simp add: crypto_ok_def aead_chacha20_seal_def aead_chacha20_open_def case_prod_beta Let_def)

lemma decrypt_length:
  "crypto_ok c \<Longrightarrow> chacha_decrypt c k n a x t = Some m \<Longrightarrow> length m = length x"
  "crypto_ok c \<Longrightarrow> xchacha_decrypt c k n a x t = Some m \<Longrightarrow> length m = length x"
  by (simp_all add: crypto_ok_def)

lemma open_length:
  assumes "crypto_ok c" "aead_chacha20_open c k n ct a = Some m"
  shows "length m = length ct - 16"
  using decrypt_length(1) [OF assms(1)] assms(2) by (fastforce simp: aead_chacha20_open_def Let_def)

lemma xchacha_laws:
  assumes "crypto_ok c"
  shows "length (fst (xchacha_encrypt c k n a m)) = length m" "length (snd (xchacha_encrypt c k n a m)) = 16"
    "xchacha_decrypt c k n a (fst (xchacha_encrypt c k n a m)) (snd (xchacha_encrypt c k n a m)) = Some m"
  using assms by (simp_all add: crypto_ok_def)

text \<open>Two cipher keys agree on the nonce of a counter only for that counter.\<close>

lemma counter_nonce_inject [simp]: "counter_nonce a = counter_nonce b \<longleftrightarrow> a = b"
  by (simp add: counter_nonce_def le64.enc_inject)

lemma length_counter_nonce [simp]: "length (counter_nonce n) = 12"
  by (simp add: counter_nonce_def)

section \<open>A concrete instance\<close>

text \<open>
  An instance of the laws, for closed examples: byte-wise exclusive or as key agreement, padding as
  hash, and a tag that depends on the key. It has no cryptographic strength.
\<close>

definition pad :: "nat \<Rightarrow> bytes \<Rightarrow> bytes" where
  "pad n xs = take n (xs @ replicate n 0)"

definition demo_crypto :: crypto where
  "demo_crypto = \<lparr>
     blake2s = pad 32,
     hmac_blake2s = (\<lambda>k x. pad 32 (x @ k)),
     blake2s_mac16 = (\<lambda>k x. pad 16 k),
     blake2s_mac24 = (\<lambda>k x. pad 24 x),
     chacha_encrypt = (\<lambda>k n a m. (m, pad 16 k)),
     chacha_decrypt = (\<lambda>k n a x t. if t = pad 16 k then Some x else None),
     xchacha_encrypt = (\<lambda>k n a m. (m, pad 16 k)),
     xchacha_decrypt = (\<lambda>k n a x t. if t = pad 16 k then Some x else None),
     x25519_public = pad 32,
     x25519_dh = (\<lambda>s p. map2 (XOR) (pad 32 s) (pad 32 p))\<rparr>"

lemma length_pad [simp]: "length (pad n xs) = n"
  by (simp add: pad_def)

lemma pad_pad [simp]: "pad n (pad n xs) = pad n xs"
  by (simp add: pad_def)

lemma map2_xor_commute: "map2 (XOR) xs ys = map2 (XOR) ys (xs :: bytes)"
  by (induction xs ys rule: list_induct2') (auto simp: xor.commute)

lemma demo_crypto_ok: "crypto_ok demo_crypto"
proof -
  have "map2 (XOR) (pad 32 a) (pad 32 b) = map2 (XOR) (pad 32 b) (pad 32 a)" for a b
    by (rule map2_xor_commute)
  then show ?thesis by (auto simp: crypto_ok_def demo_crypto_def split: if_splits)
qed

end
