(* ===== verification/Packets.thy ===== *)
theory Packets
  imports Prelude
begin

text \<open>
  The wire format of the WireGuard messages (\<open>boringtun/src/noise/mod.rs\<close>) and the error values
  (\<open>noise/errors.rs\<close>): message and packet types, \<open>Tunn::parse_incoming_packet\<close>,
  \<open>Tunn::dst_address\<close>. The lemmas show that the parser accepts exactly the well-formed messages
  and recovers every field.
\<close>

datatype wire_guard_error =
    DestinationBufferTooSmall
  | IncorrectPacketLength
  | UnexpectedPacket
  | WrongPacketType
  | WrongIndex
  | WrongKey
  | InvalidTai64nTimestamp
  | WrongTai64nTimestamp
  | InvalidMac
  | InvalidAeadTag
  | InvalidCounter
  | DuplicateCounter
  | InvalidPacket
  | NoCurrentSession
  | LockFailed
  | ConnectionExpired
  | UnderLoad

text \<open>An \<open>IpAddr\<close>; \<open>octets\<close> are its bytes in network order.\<close>

datatype ip_addr = V4 u32 | V6 "128 word"

primrec octets :: "ip_addr \<Rightarrow> bytes" where
  "octets (V4 a) = be_bytes 4 a"
| "octets (V6 a) = be_bytes 16 a"

primrec is_ipv4 :: "ip_addr \<Rightarrow> bool" where
  "is_ipv4 (V4 a) = True"
| "is_ipv4 (V6 a) = False"

definition HANDSHAKE_INIT :: u32 where "HANDSHAKE_INIT = 1"
definition HANDSHAKE_RESP :: u32 where "HANDSHAKE_RESP = 2"
definition COOKIE_REPLY :: u32 where "COOKIE_REPLY = 3"
definition DATA :: u32 where "DATA = 4"

definition HANDSHAKE_INIT_SZ :: nat where "HANDSHAKE_INIT_SZ = 148"
definition HANDSHAKE_RESP_SZ :: nat where "HANDSHAKE_RESP_SZ = 92"
definition COOKIE_REPLY_SZ :: nat where "COOKIE_REPLY_SZ = 64"
definition DATA_OVERHEAD_SZ :: nat where "DATA_OVERHEAD_SZ = 32"

lemmas message_consts [simp] =
  HANDSHAKE_INIT_def HANDSHAKE_RESP_def COOKIE_REPLY_def DATA_def
  HANDSHAKE_INIT_SZ_def HANDSHAKE_RESP_SZ_def COOKIE_REPLY_SZ_def DATA_OVERHEAD_SZ_def

record handshake_init =
  hi_sender_idx :: u32
  hi_unencrypted_ephemeral :: bytes
  hi_encrypted_static :: bytes
  hi_encrypted_timestamp :: bytes

record handshake_response =
  hr_sender_idx :: u32
  hr_receiver_idx :: u32
  hr_unencrypted_ephemeral :: bytes
  hr_encrypted_nothing :: bytes

record packet_cookie_reply =
  cr_receiver_idx :: u32
  cr_nonce :: bytes
  cr_encrypted_cookie :: bytes

record packet_data =
  pd_receiver_idx :: u32
  pd_counter :: u64
  pd_encrypted_encapsulated_packet :: bytes

datatype packet =
    HandshakeInit handshake_init
  | HandshakeResponse handshake_response
  | PacketCookieReply packet_cookie_reply
  | PacketData packet_data

definition parse_incoming_packet :: "bytes \<Rightarrow> wire_guard_error + packet" where
  "parse_incoming_packet src =
     (if length src < 4 then Inl InvalidPacket
      else
        let packet_type = (of_le_bytes (slice 0 4 src) :: u32) in
        if packet_type = HANDSHAKE_INIT \<and> length src = HANDSHAKE_INIT_SZ then
          Inr (HandshakeInit \<lparr>
            hi_sender_idx = of_le_bytes (slice 4 8 src),
            hi_unencrypted_ephemeral = slice 8 40 src,
            hi_encrypted_static = slice 40 88 src,
            hi_encrypted_timestamp = slice 88 116 src\<rparr>)
        else if packet_type = HANDSHAKE_RESP \<and> length src = HANDSHAKE_RESP_SZ then
          Inr (HandshakeResponse \<lparr>
            hr_sender_idx = of_le_bytes (slice 4 8 src),
            hr_receiver_idx = of_le_bytes (slice 8 12 src),
            hr_unencrypted_ephemeral = slice 12 44 src,
            hr_encrypted_nothing = slice 44 60 src\<rparr>)
        else if packet_type = COOKIE_REPLY \<and> length src = COOKIE_REPLY_SZ then
          Inr (PacketCookieReply \<lparr>
            cr_receiver_idx = of_le_bytes (slice 4 8 src),
            cr_nonce = slice 8 32 src,
            cr_encrypted_cookie = slice 32 64 src\<rparr>)
        else if packet_type = DATA \<and> DATA_OVERHEAD_SZ \<le> length src then
          Inr (PacketData \<lparr>
            pd_receiver_idx = of_le_bytes (slice 4 8 src),
            pd_counter = of_le_bytes (slice 8 16 src),
            pd_encrypted_encapsulated_packet = drop 16 src\<rparr>)
        else Inl InvalidPacket)"

definition dst_address :: "bytes \<Rightarrow> ip_addr option" where
  "dst_address p =
     (case p of
        [] \<Rightarrow> None
      | b # _ \<Rightarrow>
          if drop_bit 4 b = 4 \<and> 20 \<le> length p then Some (V4 (of_be_bytes (slice 16 20 p)))
          else if drop_bit 4 b = 6 \<and> 40 \<le> length p then Some (V6 (of_be_bytes (slice 24 40 p)))
          else None)"

section \<open>What a well-formed message is\<close>

text \<open>
  The layout as the protocol describes it: the fields one after the other, then the trailing
  bytes the parser ignores (the two MACs of a handshake message).
\<close>

primrec packet_bytes :: "packet \<Rightarrow> bytes" where
  "packet_bytes (HandshakeInit p) =
     le32 HANDSHAKE_INIT @ le32 (hi_sender_idx p) @ hi_unencrypted_ephemeral p @
     hi_encrypted_static p @ hi_encrypted_timestamp p"
| "packet_bytes (HandshakeResponse p) =
     le32 HANDSHAKE_RESP @ le32 (hr_sender_idx p) @ le32 (hr_receiver_idx p) @
     hr_unencrypted_ephemeral p @ hr_encrypted_nothing p"
| "packet_bytes (PacketCookieReply p) =
     le32 COOKIE_REPLY @ le32 (cr_receiver_idx p) @ cr_nonce p @ cr_encrypted_cookie p"
| "packet_bytes (PacketData p) =
     le32 DATA @ le32 (pd_receiver_idx p) @ le64 (pd_counter p) @ pd_encrypted_encapsulated_packet p"

primrec mac_len :: "packet \<Rightarrow> nat" where
  "mac_len (HandshakeInit p) = 32"
| "mac_len (HandshakeResponse p) = 32"
| "mac_len (PacketCookieReply p) = 0"
| "mac_len (PacketData p) = 0"

primrec wf_packet :: "packet \<Rightarrow> bool" where
  "wf_packet (HandshakeInit p) \<longleftrightarrow> length (hi_unencrypted_ephemeral p) = 32 \<and>
     length (hi_encrypted_static p) = 48 \<and> length (hi_encrypted_timestamp p) = 28"
| "wf_packet (HandshakeResponse p) \<longleftrightarrow> length (hr_unencrypted_ephemeral p) = 32 \<and>
     length (hr_encrypted_nothing p) = 16"
| "wf_packet (PacketCookieReply p) \<longleftrightarrow> length (cr_nonce p) = 24 \<and> length (cr_encrypted_cookie p) = 32"
| "wf_packet (PacketData p) \<longleftrightarrow> 16 \<le> length (pd_encrypted_encapsulated_packet p)"

section \<open>The parser accepts exactly the well-formed messages\<close>

lemma slice_join: "a \<le> b \<Longrightarrow> b \<le> c \<Longrightarrow> slice a b xs @ slice b c xs = slice a c xs"
proof -
  assume "a \<le> b" "b \<le> c"
  then obtain d e where "b = a + d" "c = a + d + e" by (metis le_iff_add)
  then show ?thesis by (simp add: slice_def take_add add.commute)
qed

lemma slice_join_assoc:
  "a \<le> b \<Longrightarrow> b \<le> c \<Longrightarrow> slice a b xs @ slice b c xs @ ys = slice a c xs @ ys"
  using slice_join [of a b c xs] by (metis append_assoc)

lemma slice_drop_join: "a \<le> b \<Longrightarrow> slice a b xs @ drop b xs = drop a xs"
proof -
  assume "a \<le> b"
  then obtain d where "b = a + d" by (metis le_iff_add)
  then show ?thesis using append_take_drop_id [of d "drop a xs"] by (simp add: slice_def add.commute)
qed

lemmas slice_joins = slice_join slice_join_assoc slice_drop_join

lemma le32_of_slice: "a + 4 \<le> length xs \<Longrightarrow> le32 (of_le_bytes (slice a (a + 4) xs)) = slice a (a + 4) xs"
  using le_bytes_of_le_bytes [of "slice a (a + 4) xs", where 'a = 32] by simp

lemma le64_of_slice: "a + 8 \<le> length xs \<Longrightarrow> le64 (of_le_bytes (slice a (a + 8) xs)) = slice a (a + 8) xs"
  using le_bytes_of_le_bytes [of "slice a (a + 8) xs", where 'a = 64] by simp

lemma parse_packet_bytes:
  "wf_packet p \<Longrightarrow> length m = mac_len p \<Longrightarrow> parse_incoming_packet (packet_bytes p @ m) = Inr p"
  by (cases p) (simp_all add: parse_incoming_packet_def slice_def)

lemma le32_type_field:
  assumes "of_le_bytes (slice 0 4 src) = (w :: u32)" "4 \<le> length src"
  shows "le32 w = slice 0 4 src"
  using le32_of_slice [of 0 src] assms by simp

lemma parse_incoming_packet_sound:
  assumes "parse_incoming_packet src = Inr p"
  shows "wf_packet p \<and> (\<exists>m. length m = mac_len p \<and> src = packet_bytes p @ m)"
proof (cases p)
  case (HandshakeInit hi)
  with assms have ty: "of_le_bytes (slice 0 4 src) = (1 :: u32)" and n: "length src = 148"
    and hi: "hi = \<lparr>hi_sender_idx = of_le_bytes (slice 4 8 src), hi_unencrypted_ephemeral = slice 8 40 src,
      hi_encrypted_static = slice 40 88 src, hi_encrypted_timestamp = slice 88 116 src\<rparr>"
    by (auto simp: parse_incoming_packet_def Let_def split: if_splits)
  have "src = packet_bytes p @ drop 116 src"
    using le32_type_field [OF ty] le32_of_slice [of 4 src] n
    by (simp add: HandshakeInit hi slice_joins slice_full)
  then show ?thesis using n by (auto simp: HandshakeInit hi intro!: exI [of _ "drop 116 src"])
next
  case (HandshakeResponse hr)
  with assms have ty: "of_le_bytes (slice 0 4 src) = (2 :: u32)" and n: "length src = 92"
    and hr: "hr = \<lparr>hr_sender_idx = of_le_bytes (slice 4 8 src), hr_receiver_idx = of_le_bytes (slice 8 12 src),
      hr_unencrypted_ephemeral = slice 12 44 src, hr_encrypted_nothing = slice 44 60 src\<rparr>"
    by (auto simp: parse_incoming_packet_def Let_def split: if_splits)
  have "src = packet_bytes p @ drop 60 src"
    using le32_type_field [OF ty] le32_of_slice [of 4 src] le32_of_slice [of 8 src] n
    by (simp add: HandshakeResponse hr slice_joins slice_full)
  then show ?thesis using n by (auto simp: HandshakeResponse hr intro!: exI [of _ "drop 60 src"])
next
  case (PacketCookieReply cr)
  with assms have ty: "of_le_bytes (slice 0 4 src) = (3 :: u32)" and n: "length src = 64"
    and cr: "cr = \<lparr>cr_receiver_idx = of_le_bytes (slice 4 8 src), cr_nonce = slice 8 32 src,
      cr_encrypted_cookie = slice 32 64 src\<rparr>"
    by (auto simp: parse_incoming_packet_def Let_def split: if_splits)
  have "src = packet_bytes p"
    using le32_type_field [OF ty] le32_of_slice [of 4 src] n
    by (simp add: PacketCookieReply cr slice_joins slice_full)
  then show ?thesis using n by (auto simp: PacketCookieReply cr)
next
  case (PacketData pd)
  with assms have ty: "of_le_bytes (slice 0 4 src) = (4 :: u32)" and n: "32 \<le> length src"
    and pd: "pd = \<lparr>pd_receiver_idx = of_le_bytes (slice 4 8 src), pd_counter = of_le_bytes (slice 8 16 src),
      pd_encrypted_encapsulated_packet = drop 16 src\<rparr>"
    by (auto simp: parse_incoming_packet_def Let_def split: if_splits)
  have "src = packet_bytes p"
    using le32_type_field [OF ty] le32_of_slice [of 4 src] le64_of_slice [of 8 src] n
    by (simp add: PacketData pd slice_joins)
  then show ?thesis using n by (auto simp: PacketData pd)
qed

text \<open>
  C21: \<open>parse_incoming_packet\<close> succeeds with a packet exactly when the datagram is that packet's
  layout (type, indices, counter and fields in order, with the field lengths of the protocol)
  followed by the 32 MAC bytes of a handshake message or by nothing; every other datagram is
  rejected with \<open>InvalidPacket\<close>.
\<close>

theorem parse_incoming_packet_iff:
  "(parse_incoming_packet src = Inr p \<longleftrightarrow>
      wf_packet p \<and> (\<exists>m. length m = mac_len p \<and> src = packet_bytes p @ m)) \<and>
   (parse_incoming_packet src = Inl e \<longleftrightarrow>
      e = InvalidPacket \<and> (\<nexists>p m. wf_packet p \<and> length m = mac_len p \<and> src = packet_bytes p @ m))"
proof -
  have err: "parse_incoming_packet src = Inl e' \<Longrightarrow> e' = InvalidPacket" for e'
    by (auto simp: parse_incoming_packet_def Let_def split: if_splits)
  show ?thesis
  proof (cases "parse_incoming_packet src")
    case (Inl e')
    then have "\<nexists>p m. wf_packet p \<and> length m = mac_len p \<and> src = packet_bytes p @ m"
      by (metis parse_packet_bytes sum.distinct(1))
    then show ?thesis using Inl err by auto
  next
    case (Inr q)
    then show ?thesis
      using parse_incoming_packet_sound [OF Inr] parse_packet_bytes by fastforce
  qed
qed

end
