(* ===== verification/Replay_Window.thy ===== *)
theory Replay_Window
  imports Packets "HOL-Library.While_Combinator"
begin

text \<open>
  The anti-replay window of a session (\<open>ReceivingKeyCounterValidator\<close> of
  \<open>boringtun/src/noise/session.rs\<close>): a 1024-bit ring bitmap and the next expected counter, kept at
  their machine width, so that the \<open>counter + N_BITS\<close> of the release build wraps. The window is
  refined against the set of counters already accepted, and the contract of a replay filter is a
  locale, interpreted on the code's own functions.
\<close>

section \<open>The code\<close>

record receiving_key_counter_validator =
  rk_next :: u64
  rk_receive_cnt :: u64
  rk_bitmap :: "u64 list"

definition WORD_SIZE :: u64 where "WORD_SIZE = 64"
definition N_WORDS :: u64 where "N_WORDS = 16"
definition N_BITS :: u64 where "N_BITS = WORD_SIZE * N_WORDS"

definition rk_default :: receiving_key_counter_validator where
  "rk_default = \<lparr>rk_next = 0, rk_receive_cnt = 0, rk_bitmap = replicate 16 0\<rparr>"

definition rk_set_bit :: "receiving_key_counter_validator \<Rightarrow> u64 \<Rightarrow> receiving_key_counter_validator" where
  "rk_set_bit v idx =
     (let bit_idx = idx mod N_BITS; w = unat (bit_idx div WORD_SIZE); b = unat (bit_idx mod WORD_SIZE)
      in v\<lparr>rk_bitmap := (rk_bitmap v)[w := (rk_bitmap v ! w) OR push_bit b 1]\<rparr>)"

definition rk_clear_bit :: "receiving_key_counter_validator \<Rightarrow> u64 \<Rightarrow> receiving_key_counter_validator" where
  "rk_clear_bit v idx =
     (let bit_idx = idx mod N_BITS; w = unat (bit_idx div WORD_SIZE); b = unat (bit_idx mod WORD_SIZE)
      in v\<lparr>rk_bitmap := (rk_bitmap v)[w := (rk_bitmap v ! w) AND NOT (push_bit b 1)]\<rparr>)"

definition rk_clear_word :: "receiving_key_counter_validator \<Rightarrow> u64 \<Rightarrow> receiving_key_counter_validator" where
  "rk_clear_word v idx =
     (let bit_idx = idx mod N_BITS; w = unat (bit_idx div WORD_SIZE)
      in v\<lparr>rk_bitmap := (rk_bitmap v)[w := 0]\<rparr>)"

definition rk_check_bit :: "receiving_key_counter_validator \<Rightarrow> u64 \<Rightarrow> bool" where
  "rk_check_bit v idx =
     (let bit_idx = idx mod N_BITS; w = unat (bit_idx div WORD_SIZE); b = unat (bit_idx mod WORD_SIZE)
      in drop_bit b (rk_bitmap v ! w) AND 1 = 1)"

definition will_accept :: "receiving_key_counter_validator \<Rightarrow> u64 \<Rightarrow> wire_guard_error + unit" where
  "will_accept v counter =
     (if rk_next v \<le> counter then Inr ()
      else if counter + N_BITS < rk_next v then Inl InvalidCounter
      else if \<not> rk_check_bit v counter then Inr ()
      else Inl DuplicateCounter)"

text \<open>
  The three clearing loops of \<open>mark_did_receive\<close>, each a loop over the bitmap and the index \<open>i\<close>;
  \<open>skipped_loops\<close> shows that they stop.
\<close>

type_synonym rk_loop_state = "receiving_key_counter_validator \<times> u64"

definition align_guard :: "u64 \<Rightarrow> rk_loop_state \<Rightarrow> bool" where
  "align_guard counter = (\<lambda>(v, i). i mod WORD_SIZE \<noteq> 0 \<and> i < counter)"

definition word_guard :: "u64 \<Rightarrow> rk_loop_state \<Rightarrow> bool" where
  "word_guard counter = (\<lambda>(v, i). i + WORD_SIZE < counter)"

definition rest_guard :: "u64 \<Rightarrow> rk_loop_state \<Rightarrow> bool" where
  "rest_guard counter = (\<lambda>(v, i). i < counter)"

definition bit_body :: "rk_loop_state \<Rightarrow> rk_loop_state" where
  "bit_body = (\<lambda>(v, i). (rk_clear_bit v i, i + 1))"

definition word_body :: "rk_loop_state \<Rightarrow> rk_loop_state" where
  "word_body = (\<lambda>(v, i). (rk_clear_word v i, (i + WORD_SIZE) AND (0 - WORD_SIZE)))"

definition clear_skipped ::
  "receiving_key_counter_validator \<Rightarrow> u64 \<Rightarrow> receiving_key_counter_validator" where
  "clear_skipped v counter =
     (if N_BITS \<le> counter - rk_next v then v\<lparr>rk_bitmap := map (\<lambda>_. 0) (rk_bitmap v)\<rparr>
      else fst (while (rest_guard counter) bit_body
             (while (word_guard counter) word_body
               (while (align_guard counter) bit_body (v, rk_next v)))))"

definition mark_did_receive ::
  "receiving_key_counter_validator \<Rightarrow> u64 \<Rightarrow> (wire_guard_error + unit) \<times> receiving_key_counter_validator" where
  "mark_did_receive v counter =
     (if counter + N_BITS < rk_next v then (Inl InvalidCounter, v)
      else if counter = rk_next v then
        (Inr (), (rk_set_bit v counter)\<lparr>rk_next := rk_next v + 1\<rparr>)
      else if counter < rk_next v then
        (if rk_check_bit v counter then (Inl InvalidCounter, v) else (Inr (), rk_set_bit v counter))
      else (Inr (), (rk_set_bit (clear_skipped v counter) counter)\<lparr>rk_next := counter + 1\<rparr>))"

text \<open>\<open>Session::receiving_counter_mark\<close>, on the validator behind the mutex.\<close>

definition receiving_counter_mark ::
  "receiving_key_counter_validator \<Rightarrow> u64 \<Rightarrow> (wire_guard_error + unit) \<times> receiving_key_counter_validator" where
  "receiving_counter_mark v counter =
     (case mark_did_receive v counter of
        (Inr _, v') \<Rightarrow> (Inr (), v'\<lparr>rk_receive_cnt := rk_receive_cnt v' + 1\<rparr>)
      | (Inl e, v') \<Rightarrow> (Inl e, v'))"

text \<open>A whole run of the filter: the counters it accepts, in order.\<close>

fun accepted :: "('s \<Rightarrow> 'c \<Rightarrow> bool \<times> 's) \<Rightarrow> 's \<Rightarrow> 'c list \<Rightarrow> 'c list" where
  "accepted mark s [] = []"
| "accepted mark s (c # cs) =
     (case mark s c of (ok, s') \<Rightarrow> (if ok then [c] else []) @ accepted mark s' cs)"

definition counter_mark :: "receiving_key_counter_validator \<Rightarrow> u64 \<Rightarrow> bool \<times> receiving_key_counter_validator" where
  "counter_mark v c = (case receiving_counter_mark v c of (r, v') \<Rightarrow> (\<not> isl r, v'))"

section \<open>Bits of the ring\<close>

definition rk_wf :: "receiving_key_counter_validator \<Rightarrow> bool" where
  "rk_wf v \<longleftrightarrow> length (rk_bitmap v) = 16"

definition ring_bit :: "receiving_key_counter_validator \<Rightarrow> nat \<Rightarrow> bool" where
  "ring_bit v k = bit (rk_bitmap v ! (k div 64)) (k mod 64)"

lemma N_BITS_eq [simp]: "N_BITS = 1024"
  by (simp add: N_BITS_def WORD_SIZE_def N_WORDS_def)

lemma ring_word: "unat ((idx mod 1024) div 64 :: u64) = (unat idx mod 1024) div 64"
  by (simp add: unat_div_distrib unat_mod_distrib)

lemma ring_offset: "unat ((idx mod 1024) mod 64 :: u64) = (unat idx mod 1024) mod 64"
  by (simp add: unat_mod_distrib)

lemmas ring_index [simp] = ring_word ring_offset

lemma rk_wf_ops [simp]:
  "rk_wf (rk_set_bit v c) = rk_wf v" "rk_wf (rk_clear_bit v c) = rk_wf v"
  "rk_wf (rk_clear_word v c) = rk_wf v"
  by (simp_all add: rk_wf_def rk_set_bit_def rk_clear_bit_def rk_clear_word_def Let_def)

lemma rk_next_ops [simp]:
  "rk_next (rk_set_bit v c) = rk_next v" "rk_next (rk_clear_bit v c) = rk_next v"
  "rk_next (rk_clear_word v c) = rk_next v"
  by (simp_all add: rk_set_bit_def rk_clear_bit_def rk_clear_word_def Let_def)

lemma rk_receive_cnt_ops [simp]:
  "rk_receive_cnt (rk_set_bit v c) = rk_receive_cnt v" "rk_receive_cnt (rk_clear_bit v c) = rk_receive_cnt v"
  "rk_receive_cnt (rk_clear_word v c) = rk_receive_cnt v"
  by (simp_all add: rk_set_bit_def rk_clear_bit_def rk_clear_word_def Let_def)

lemma rk_check_bit_ring: "rk_check_bit v c \<longleftrightarrow> ring_bit v (unat c mod 1024)"
  by (simp add: rk_check_bit_def ring_bit_def Let_def WORD_SIZE_def and_one_eq odd_iff_mod_2_eq_one bit_iff_odd_drop_bit)

lemma ring_bit_set:
  assumes "rk_wf v" "k < 1024"
  shows "ring_bit (rk_set_bit v c) k \<longleftrightarrow> ring_bit v k \<or> k = unat c mod 1024"
proof -
  have "k div 64 = (unat c mod 1024) div 64 \<and> k mod 64 = (unat c mod 1024) mod 64 \<longleftrightarrow> k = unat c mod 1024"
    by (metis div_mult_mod_eq)
  moreover have "(unat c mod 1024) div 64 < 16" by (simp add: less_mult_imp_div_less)
  ultimately show ?thesis using assms
    by (auto simp: ring_bit_def rk_set_bit_def Let_def WORD_SIZE_def rk_wf_def nth_list_update bit_simps)
qed

lemma ring_bit_clear:
  assumes "rk_wf v" "k < 1024"
  shows "ring_bit (rk_clear_bit v c) k \<longleftrightarrow> ring_bit v k \<and> k \<noteq> unat c mod 1024"
proof -
  have "k div 64 = (unat c mod 1024) div 64 \<and> k mod 64 = (unat c mod 1024) mod 64 \<longleftrightarrow> k = unat c mod 1024"
    by (metis div_mult_mod_eq)
  moreover have "(unat c mod 1024) div 64 < 16" by (simp add: less_mult_imp_div_less)
  ultimately show ?thesis using assms
    by (auto simp: ring_bit_def rk_clear_bit_def Let_def WORD_SIZE_def rk_wf_def nth_list_update bit_simps)
qed

lemma ring_bit_clear_word:
  assumes "rk_wf v" "k < 1024"
  shows "ring_bit (rk_clear_word v c) k \<longleftrightarrow> ring_bit v k \<and> k div 64 \<noteq> (unat c mod 1024) div 64"
proof -
  have "(unat c mod 1024) div 64 < 16" by (simp add: less_mult_imp_div_less)
  then show ?thesis using assms
    by (auto simp: ring_bit_def rk_clear_word_def Let_def WORD_SIZE_def rk_wf_def nth_list_update)
qed

section \<open>The clearing loops\<close>

text \<open>Ring positions of the counters from \<open>lo\<close> up to but not including \<open>hi\<close>.\<close>

definition covers :: "nat \<Rightarrow> nat \<Rightarrow> nat \<Rightarrow> bool" where
  "covers lo hi k \<longleftrightarrow> (\<exists>j. lo \<le> j \<and> j < hi \<and> j mod 1024 = k)"

lemma covers_refl [simp]: "\<not> covers lo lo k"
  by (simp add: covers_def)

lemma covers_Suc: "lo \<le> i \<Longrightarrow> covers lo (Suc i) k \<longleftrightarrow> covers lo i k \<or> k = i mod 1024"
  by (auto simp: covers_def less_Suc_eq)

lemma ring_split: "(n :: nat) mod 1024 = 64 * (n div 64 mod 16) + n mod 64"
  using mod_mult2_eq [of n 64 16] by simp

lemma ring_div: "(n :: nat) mod 1024 div 64 = n div 64 mod 16"
  by (simp add: ring_split [of n])

lemma aligned_div:
  fixes i :: nat
  assumes "i mod 64 = 0" "i \<le> j" "j < i + 64"
  shows "j div 64 = i div 64"
proof -
  obtain m where "i = 64 * m" using assms(1) by auto
  moreover obtain r where "j = i + r" using assms(2) by (auto simp: le_iff_add)
  ultimately show ?thesis using assms(3) by simp
qed

lemma word_positions:
  fixes i :: nat
  assumes "i mod 64 = 0"
  shows "(\<exists>j. i \<le> j \<and> j < i + 64 \<and> j mod 1024 = k) \<longleftrightarrow> k < 1024 \<and> k div 64 = (i mod 1024) div 64"
proof
  assume "\<exists>j. i \<le> j \<and> j < i + 64 \<and> j mod 1024 = k"
  then obtain j where j: "i \<le> j" "j < i + 64" "j mod 1024 = k" by blast
  then have "k div 64 = i div 64 mod 16" using aligned_div [OF assms j(1,2)] ring_div [of j] by simp
  then show "k < 1024 \<and> k div 64 = (i mod 1024) div 64" using j by (auto simp: ring_div)
next
  assume k: "k < 1024 \<and> k div 64 = (i mod 1024) div 64"
  let ?j = "i + k mod 64"
  have "?j mod 64 = k mod 64" using assms by (simp add: mod_add_eq [of i, symmetric])
  moreover have "?j div 64 = i div 64" using aligned_div [OF assms, of ?j] by simp
  ultimately have "?j mod 1024 = 64 * (k div 64) + k mod 64" using k ring_split [of ?j] by (simp add: ring_div)
  then have "?j mod 1024 = k" by simp
  then show "\<exists>j. i \<le> j \<and> j < i + 64 \<and> j mod 1024 = k" by (intro exI [of _ ?j]) simp
qed

lemma covers_word:
  assumes "lo \<le> i" "i mod 64 = 0" "k < 1024"
  shows "covers lo (i + 64) k \<longleftrightarrow> covers lo i k \<or> k div 64 = (i mod 1024) div 64"
proof -
  have "covers lo (i + 64) k \<longleftrightarrow> covers lo i k \<or> (\<exists>j. i \<le> j \<and> j < i + 64 \<and> j mod 1024 = k)"
    (is "?L \<longleftrightarrow> ?R")
  proof
    assume ?L
    then obtain j where "lo \<le> j" "j < i + 64" "j mod 1024 = k" by (auto simp: covers_def)
    then show ?R unfolding covers_def by (cases "j < i") (blast, metis not_less)
  next
    assume ?R
    then show ?L using assms(1) by (auto simp: covers_def) (use le_trans trans_less_add1 in blast)+
  qed
  then show ?thesis using word_positions [OF assms(2)] assms(3) by simp
qed

lemma covers_all:
  assumes "1024 \<le> hi - lo" "k < 1024"
  shows "covers lo hi k"
proof -
  let ?j = "lo + (k + 1024 - lo mod 1024) mod 1024"
  have "?j mod 1024 = (lo + (k + 1024 - lo mod 1024)) mod 1024" by (simp add: mod_add_right_eq)
  also have "\<dots> = (lo mod 1024 + (k + 1024 - lo mod 1024)) mod 1024" by (simp only: mod_add_left_eq)
  also have "lo mod 1024 + (k + 1024 - lo mod 1024) = k + 1024" by (simp add: trans_le_add2)
  also have "(k + 1024) mod 1024 = k" using assms(2) by simp
  finally show ?thesis unfolding covers_def
    using assms by (intro exI [of _ ?j]) (auto intro: less_le_trans [of _ "lo + 1024"])
qed

text \<open>What every loop keeps: exactly the positions of the counters passed so far are cleared.\<close>

definition loop_inv ::
  "receiving_key_counter_validator \<Rightarrow> u64 \<Rightarrow> rk_loop_state \<Rightarrow> bool" where
  "loop_inv v counter = (\<lambda>(v', i).
     rk_wf v' \<and> rk_next v' = rk_next v \<and> rk_receive_cnt v' = rk_receive_cnt v \<and>
     unat (rk_next v) \<le> unat i \<and> unat i \<le> unat counter \<and>
     (\<forall>k<1024. ring_bit v' k \<longleftrightarrow> ring_bit v k \<and> \<not> covers (unat (rk_next v)) (unat i) k))"

lemma while_total:
  assumes "\<And>s. P s \<Longrightarrow> b s \<Longrightarrow> P (c s) \<and> f (c s) < (f s :: nat)" and "P s"
  shows "\<exists>t. while_option b c s = Some t \<and> while b c s = t \<and> P t \<and> \<not> b t"
proof -
  obtain t where t: "while_option b c s = Some t"
    using measure_while_option_Some [of P b c f s] assms by blast
  moreover have "P t" using while_option_rule [of P b c s t] assms t by blast
  ultimately show ?thesis using while_option_stop [OF t] by (simp add: while_def)
qed

lemma unat_Suc_below: "i < (c :: u64) \<Longrightarrow> unat (i + 1) = Suc (unat i)"
  using unsigned_less [of c, where ?'a = nat] by (simp add: word_less_nat_alt unat_word_ariths)

lemma bit_body_inv:
  assumes "loop_inv v counter (v', i)" "i < counter"
  shows "loop_inv v counter (bit_body (v', i))"
  using assms unat_Suc_below [OF assms(2)]
  by (auto simp: loop_inv_def bit_body_def ring_bit_clear covers_Suc word_less_nat_alt Suc_le_eq)

lemma unat_mod_64: "(i :: u64) mod 64 = 0 \<longleftrightarrow> unat i mod 64 = 0"
proof -
  have "unat (i mod 64) = unat i mod 64" by (simp add: unat_mod_distrib)
  then show ?thesis by (metis unat_eq_zero)
qed

lemma aligned_step: "(i :: u64) mod 64 = 0 \<Longrightarrow> (i + 64) mod 64 = 0"
  by (simp add: unat_mod_64 unat_word_ariths mod_mod_cancel)

lemma aligned_and_mask:
  fixes i :: u64
  assumes "i mod 64 = 0"
  shows "(i + 64) AND (0 - 64) = i + 64"
proof -
  have "take_bit 6 (i + 64) = 0" using aligned_step [OF assms] by (simp add: take_bit_eq_mod)
  then have low: "\<not> bit (i + 64) n" if "n < 6" for n
    using that by (metis bit_0_eq bit_take_bit_iff bot_apply bot_bool_def)
  have mask: "(0 - 64 :: u64) = NOT (mask 6)" by (simp add: mask_eq_exp_minus_1)
  show ?thesis
    unfolding mask by (rule bit_word_eqI, auto simp: bit_simps) (metis low not_less)
qed

lemma word_body_inv:
  assumes inv: "loop_inv v counter (v', i)" and al: "i mod 64 = 0"
    and g: "i + 64 < counter" and c: "unat counter < 2 ^ 64 - 1024"
  shows "loop_inv v counter (word_body (v', i)) \<and> snd (word_body (v', i)) = i + 64 \<and>
    unat (i + 64) = unat i + 64 \<and> (i + 64) mod 64 = 0"
proof -
  have le: "unat i \<le> unat counter" using inv by (simp add: loop_inv_def)
  then have u: "unat (i + 64) = unat i + 64" using c by (simp add: unat_word_ariths)
  have al': "unat i mod 64 = 0" using al by (simp add: unat_mod_64)
  have nxt: "(i + WORD_SIZE) AND (0 - WORD_SIZE) = i + 64"
    using aligned_and_mask [OF al] by (simp add: WORD_SIZE_def)
  have "(i + 64) mod 64 = 0" using al' u by (simp add: unat_mod_64)
  moreover have "loop_inv v counter (rk_clear_word v' i, i + 64)"
    using inv g al' u
    by (auto simp: loop_inv_def ring_bit_clear_word covers_word word_less_nat_alt)
  ultimately show ?thesis using u nxt by (simp add: word_body_def)
qed

text \<open>
  From a window the code can reach there, all three loops stop, and together they clear exactly
  the positions of the skipped counters.
\<close>

lemma skipped_loops:
  assumes wf: "rk_wf v" and lt: "unat (rk_next v) < unat counter" and c: "unat counter < 2 ^ 64 - 1024"
  shows "\<exists>t1 t2 t3.
    while_option (align_guard counter) bit_body (v, rk_next v) = Some t1 \<and>
    while_option (word_guard counter) word_body t1 = Some t2 \<and>
    while_option (rest_guard counter) bit_body t2 = Some t3 \<and>
    while (rest_guard counter) bit_body (while (word_guard counter) word_body
      (while (align_guard counter) bit_body (v, rk_next v))) = t3 \<and>
    loop_inv v counter t3 \<and> snd t3 = counter"
proof -
  let ?f = "\<lambda>s. unat counter - unat (snd (s :: rk_loop_state))"
  let ?A = "\<lambda>s. loop_inv v counter s \<and> (snd s mod 64 = 0 \<or> snd s = counter)"
  have init: "loop_inv v counter (v, rk_next v)" using wf lt by (simp add: loop_inv_def)
  have bit_step: "loop_inv v counter (bit_body s) \<and> ?f (bit_body s) < ?f s"
    if inv: "loop_inv v counter s" and g: "snd s < counter" for s
  proof -
    obtain v' i where s: "s = (v', i)" by (cases s)
    have "loop_inv v counter (bit_body s)" using bit_body_inv inv g by (simp add: s)
    moreover have "unat (i + 1) = Suc (unat i)" "unat i < unat counter"
      using g unat_Suc_below [of i counter] by (simp_all add: s word_less_nat_alt)
    ultimately show ?thesis by (simp add: s bit_body_def)
  qed
  have align_step: "loop_inv v counter (bit_body s) \<and> ?f (bit_body s) < ?f s"
    if "loop_inv v counter s" "align_guard counter s" for s
    using that bit_step by (simp add: align_guard_def case_prod_unfold)
  have rest_step: "loop_inv v counter (bit_body s) \<and> ?f (bit_body s) < ?f s"
    if "loop_inv v counter s" "rest_guard counter s" for s
    using that bit_step by (simp add: rest_guard_def case_prod_unfold)
  obtain t1 where t1: "while_option (align_guard counter) bit_body (v, rk_next v) = Some t1"
    "while (align_guard counter) bit_body (v, rk_next v) = t1"
    "loop_inv v counter t1" "\<not> align_guard counter t1"
    using while_total [OF align_step init] by blast
  have "snd t1 \<le> counter" using t1(3) by (simp add: loop_inv_def word_le_nat_alt case_prod_unfold)
  then have A1: "?A t1"
    using t1(3,4) unfolding align_guard_def WORD_SIZE_def case_prod_unfold order_le_less by blast
  have word_step: "?A (word_body s) \<and> ?f (word_body s) < ?f s" if A: "?A s" and g: "word_guard counter s" for s
  proof -
    obtain v' i where s: "s = (v', i)" by (cases s)
    have "unat i \<le> unat counter" using A by (simp add: s loop_inv_def)
    then have u: "unat (i + 64) = unat i + 64" using c by (simp add: unat_word_ariths)
    have g': "i + 64 < counter" using g by (simp add: s word_guard_def WORD_SIZE_def)
    then have "i \<noteq> counter" using u by (auto simp: word_less_nat_alt)
    then have "i mod 64 = 0" using A by (simp add: s)
    with A g' word_body_inv [of v counter v' i] c show ?thesis
      by (auto simp: s word_less_nat_alt)
  qed
  obtain t2 where t2: "while_option (word_guard counter) word_body t1 = Some t2"
    "while (word_guard counter) word_body t1 = t2" "?A t2"
    using while_total [OF word_step A1] by blast
  obtain t3 where t3: "while_option (rest_guard counter) bit_body t2 = Some t3"
    "while (rest_guard counter) bit_body t2 = t3" "loop_inv v counter t3" "\<not> rest_guard counter t3"
    using while_total [OF rest_step conjunct1 [OF t2(3)]] by blast
  have "snd t3 \<le> counter" using t3(3) by (simp add: loop_inv_def word_le_nat_alt case_prod_unfold)
  then have "snd t3 = counter"
    using t3(4) unfolding rest_guard_def case_prod_unfold order_le_less by blast
  then show ?thesis using t1(1,2) t2(1,2) t3(1-3)
    by (intro exI [of _ t1] exI [of _ t2] exI [of _ t3] conjI) simp_all
qed

lemma clear_skipped_spec:
  assumes wf: "rk_wf v" and lt: "rk_next v < counter" and c: "unat counter < 2 ^ 64 - 1024 \<or> 1024 \<le> unat counter - unat (rk_next v)"
  shows "rk_wf (clear_skipped v counter) \<and> rk_next (clear_skipped v counter) = rk_next v \<and>
    rk_receive_cnt (clear_skipped v counter) = rk_receive_cnt v \<and>
    (\<forall>k<1024. ring_bit (clear_skipped v counter) k \<longleftrightarrow>
       ring_bit v k \<and> \<not> covers (unat (rk_next v)) (unat counter) k)"
proof (cases "N_BITS \<le> counter - rk_next v")
  case True
  have "unat (counter - rk_next v) = unat counter - unat (rk_next v)"
    using lt by (simp add: unat_sub_if' word_less_nat_alt)
  then have far: "1024 \<le> unat counter - unat (rk_next v)" using True by (simp add: word_le_nat_alt)
  have "ring_bit (v\<lparr>rk_bitmap := map (\<lambda>_. 0) (rk_bitmap v)\<rparr>) k = False" if "k < 1024" for k
    using that wf by (simp add: ring_bit_def rk_wf_def less_mult_imp_div_less)
  then show ?thesis using True wf covers_all [OF far] by (simp add: clear_skipped_def rk_wf_def)
next
  case False
  have "unat (counter - rk_next v) = unat counter - unat (rk_next v)"
    using lt by (simp add: unat_sub_if' word_less_nat_alt)
  then have "unat counter < 2 ^ 64 - 1024" using False c by (simp add: word_le_nat_alt)
  then obtain t3 where "while (rest_guard counter) bit_body (while (word_guard counter) word_body
      (while (align_guard counter) bit_body (v, rk_next v))) = t3" "loop_inv v counter t3" "snd t3 = counter"
    using skipped_loops [OF wf, of counter] lt by (auto simp: word_less_nat_alt)
  then show ?thesis using False by (cases t3) (simp add: clear_skipped_def loop_inv_def)
qed

section \<open>Refinement of the set of accepted counters\<close>

text \<open>
  The specification: a counter is fresh when it is at or beyond the next expected one, or at most
  1024 behind it and not accepted before.
\<close>

definition window_ok :: "nat set \<Rightarrow> nat \<Rightarrow> nat \<Rightarrow> bool" where
  "window_ok seen nxt c \<longleftrightarrow> nxt \<le> c \<or> (nxt \<le> c + 1024 \<and> c \<notin> seen)"

definition rk_abs :: "receiving_key_counter_validator \<Rightarrow> nat set \<Rightarrow> bool" where
  "rk_abs v seen \<longleftrightarrow> rk_wf v \<and> (\<forall>c\<in>seen. c < unat (rk_next v)) \<and>
     (\<forall>c. c < unat (rk_next v) \<longrightarrow> unat (rk_next v) \<le> c + 1024 \<longrightarrow> (ring_bit v (c mod 1024) \<longleftrightarrow> c \<in> seen))"

lemma ring_distinct:
  fixes a b :: nat
  assumes "a mod 1024 = b mod 1024" "a \<le> b" "b < a + 1024"
  shows "a = b"
proof -
  obtain s where "b = a + 1024 * s" using assms(1,2) by (metis mod_eq_nat1E)
  then show ?thesis using assms(3) by (cases s) simp_all
qed

lemma rk_abs_default: "rk_abs rk_default {}"
  by (simp add: rk_abs_def rk_default_def rk_wf_def)

lemma ring_bit_next_update [simp]: "ring_bit (v\<lparr>rk_next := n\<rparr>) k = ring_bit v k"
  "ring_bit (v\<lparr>rk_receive_cnt := n\<rparr>) k = ring_bit v k"
  "rk_wf (v\<lparr>rk_next := n\<rparr>) = rk_wf v" "rk_wf (v\<lparr>rk_receive_cnt := n\<rparr>) = rk_wf v"
  by (simp_all add: ring_bit_def rk_wf_def)

lemma rk_abs_in_order:
  assumes abs: "rk_abs v S" and c: "unat (rk_next v) < 2 ^ 64 - 1"
  shows "rk_abs ((rk_set_bit v (rk_next v))\<lparr>rk_next := rk_next v + 1\<rparr>) (insert (unat (rk_next v)) S)"
proof -
  let ?n = "unat (rk_next v)"
  have n: "unat (rk_next v + 1) = ?n + 1" using c by (simp add: unat_word_ariths)
  have "ring_bit (rk_set_bit v (rk_next v)) (d mod 1024) \<longleftrightarrow> d \<in> insert ?n S"
    if "d < ?n + 1" "?n + 1 \<le> d + 1024" for d
  proof (cases "d = ?n")
    case False
    then have "d mod 1024 \<noteq> ?n mod 1024" using ring_distinct [of d ?n] that by auto
    then show ?thesis using abs that False by (auto simp: rk_abs_def ring_bit_set)
  qed (use abs in \<open>simp add: rk_abs_def ring_bit_set\<close>)
  then show ?thesis using abs n by (auto simp: rk_abs_def)
qed

lemma rk_abs_late:
  assumes abs: "rk_abs v S" and c: "c < rk_next v" and w: "unat (rk_next v) \<le> unat c + 1024"
  shows "rk_abs (rk_set_bit v c) (insert (unat c) S)"
proof -
  let ?n = "unat (rk_next v)"
  have lt: "unat c < ?n" using c by (simp add: word_less_nat_alt)
  have "ring_bit (rk_set_bit v c) (d mod 1024) \<longleftrightarrow> d \<in> insert (unat c) S"
    if "d < ?n" "?n \<le> d + 1024" for d
  proof (cases "d = unat c")
    case False
    have "d mod 1024 \<noteq> unat c mod 1024"
    proof (cases "d \<le> unat c")
      case True
      then show ?thesis using False that lt ring_distinct [of d "unat c"] by auto
    next
      case gt: False
      then show ?thesis using False that w ring_distinct [of "unat c" d] by auto
    qed
    then show ?thesis using abs that False by (auto simp: rk_abs_def ring_bit_set)
  qed (use abs in \<open>simp add: rk_abs_def ring_bit_set\<close>)
  then show ?thesis using abs lt by (auto simp: rk_abs_def)
qed

lemma rk_abs_ahead:
  assumes abs: "rk_abs v S" and c: "rk_next v < c" and m: "unat c < 2 ^ 64 - 1"
    and far: "unat c < 2 ^ 64 - 1024 \<or> 1024 \<le> unat c - unat (rk_next v)"
  shows "rk_abs ((rk_set_bit (clear_skipped v c) c)\<lparr>rk_next := c + 1\<rparr>) (insert (unat c) S)"
proof -
  let ?n = "unat (rk_next v)"
  have lt: "?n < unat c" using c by (simp add: word_less_nat_alt)
  have n: "unat (c + 1) = unat c + 1" using m by (simp add: unat_word_ariths)
  have wf: "rk_wf v" using abs by (simp add: rk_abs_def)
  note cs = clear_skipped_spec [OF wf c far]
  have "ring_bit (rk_set_bit (clear_skipped v c) c) (d mod 1024) \<longleftrightarrow> d \<in> insert (unat c) S"
    if d: "d < unat c + 1" "unat c + 1 \<le> d + 1024" for d
  proof (cases "d = unat c")
    case False
    then have ne: "d mod 1024 \<noteq> unat c mod 1024" using ring_distinct [of d "unat c"] d by auto
    show ?thesis
    proof (cases "d < ?n")
      case True
      have "\<not> covers ?n (unat c) (d mod 1024)"
      proof
        assume "covers ?n (unat c) (d mod 1024)"
        then obtain j where j: "?n \<le> j" "j < unat c" "j mod 1024 = d mod 1024" by (auto simp: covers_def)
        then have "d = j" using True d ring_distinct [of d j] by simp
        then show False using True j by simp
      qed
      then show ?thesis using cs ne False True abs d lt by (simp add: ring_bit_set rk_abs_def)
    next
      case later: False
      then have "covers ?n (unat c) (d mod 1024)"
        unfolding covers_def using False d by (intro exI [of _ d]) auto
      then show ?thesis using cs ne False later abs by (auto simp: ring_bit_set rk_abs_def)
    qed
  qed (use cs in \<open>simp add: ring_bit_set\<close>)
  then show ?thesis using cs abs n lt by (auto simp: rk_abs_def)
qed

lemma wrapped_sum_small:
  "2 ^ 64 \<le> unat (c :: u64) + 1024 \<Longrightarrow> unat (c + 1024) = unat c + 1024 - 2 ^ 64"
  using unsigned_less [of c, where ?'a = nat] by (simp add: unat_word_ariths mod_if)

lemma plain_sum: "unat (c :: u64) + 1024 < 2 ^ 64 \<Longrightarrow> unat (c + 1024) = unat c + 1024"
  by (simp add: unat_word_ariths)

lemma late_in_window:
  assumes "\<not> c + 1024 < rk_next v" "c < rk_next v"
  shows "unat (rk_next v) \<le> unat c + 1024"
proof (cases "unat c + 1024 < 2 ^ 64")
  case True
  then show ?thesis using assms plain_sum by (simp add: word_less_nat_alt)
next
  case False
  then show ?thesis using unsigned_less [of "rk_next v", where ?'a = nat] by simp
qed

lemma ahead_far:
  assumes "\<not> c + 1024 < rk_next v" "rk_next v < c"
  shows "unat c < 2 ^ 64 - 1024 \<or> 1024 \<le> unat c - unat (rk_next v)"
proof (cases "unat c + 1024 < 2 ^ 64")
  case False
  then have "unat (c + 1024) = unat c + 1024 - 2 ^ 64" by (simp add: wrapped_sum_small)
  then show ?thesis using assms False by (simp add: word_less_nat_alt)
qed simp

lemma mark_did_receive_refines:
  assumes abs: "rk_abs v S" and m: "unat c < 2 ^ 64 - 1"
  shows "(case mark_did_receive v c of
      (Inr _, v') \<Rightarrow> unat c \<notin> S \<and> rk_abs v' (insert (unat c) S)
    | (Inl e, v') \<Rightarrow> e = InvalidCounter \<and> v' = v)"
proof -
  have new: "unat c \<notin> S" if "rk_next v \<le> c"
    using abs that by (auto simp: rk_abs_def word_le_nat_alt)
  consider "c + 1024 < rk_next v" | "\<not> c + 1024 < rk_next v" "c = rk_next v"
    | "\<not> c + 1024 < rk_next v" "c < rk_next v" | "\<not> c + 1024 < rk_next v" "rk_next v < c"
    by (metis linorder_neqE)
  then show ?thesis
  proof cases
    case 1
    then show ?thesis by (simp add: mark_did_receive_def)
  next
    case 2
    then show ?thesis using rk_abs_in_order [OF abs] m new by (simp add: mark_did_receive_def)
  next
    case 3
    have w: "unat (rk_next v) \<le> unat c + 1024" by (rule late_in_window [OF 3])
    then have "rk_check_bit v c \<longleftrightarrow> unat c \<in> S"
      using abs 3 by (simp add: rk_check_bit_ring rk_abs_def word_less_nat_alt)
    then show ?thesis using 3 rk_abs_late [OF abs 3(2) w] by (auto simp: mark_did_receive_def)
  next
    case 4
    then show ?thesis using rk_abs_ahead [OF abs 4(2) m ahead_far [OF 4]] new
      by (auto simp: mark_did_receive_def)
  qed
qed

lemma mark_did_receive_exact:
  assumes abs: "rk_abs v S" and m: "unat c < 2 ^ 64 - 1024"
  shows "(fst (mark_did_receive v c) = Inr () \<longleftrightarrow> window_ok S (unat (rk_next v)) (unat c)) \<and>
    (will_accept v c = Inr () \<longleftrightarrow> window_ok S (unat (rk_next v)) (unat c))"
proof -
  have sum: "unat (c + 1024) = unat c + 1024" using m by (intro plain_sum) simp
  have "rk_check_bit v c \<longleftrightarrow> unat c \<in> S" if "unat c < unat (rk_next v)" "unat (rk_next v) \<le> unat c + 1024"
    using abs that by (simp add: rk_check_bit_ring rk_abs_def)
  then show ?thesis
    by (auto simp: mark_did_receive_def will_accept_def window_ok_def word_less_nat_alt word_le_nat_alt sum
        word_unat_eq_iff)
qed

section \<open>The contract of a replay filter\<close>

text \<open>
  What a session relies on: a counter the filter lets through has not been let through before,
  and a rejected counter changes nothing that matters.
\<close>

locale replay_filter =
  fixes mark :: "'s \<Rightarrow> 'c \<Rightarrow> bool \<times> 's" and inv :: "'s \<Rightarrow> 'c set \<Rightarrow> bool" and usable :: "'c \<Rightarrow> bool"
  assumes fresh: "inv s S \<Longrightarrow> usable c \<Longrightarrow> mark s c = (True, s') \<Longrightarrow> c \<notin> S \<and> inv s' (insert c S)"
    and rejected: "inv s S \<Longrightarrow> usable c \<Longrightarrow> mark s c = (False, s') \<Longrightarrow> inv s' S"
begin

lemma accepted_fresh:
  "inv s S \<Longrightarrow> list_all usable cs \<Longrightarrow>
     distinct (accepted mark s cs) \<and> set (accepted mark s cs) \<inter> S = {}"
proof (induction cs arbitrary: s S)
  case Nil
  then show ?case by simp
next
  case (Cons c cs)
  obtain ok s' where m: "mark s c = (ok, s')" by (cases "mark s c")
  show ?case
  proof (cases ok)
    case True
    then have "c \<notin> S" and "inv s' (insert c S)" using fresh Cons.prems m by auto
    then show ?thesis using Cons.IH [of s' "insert c S"] Cons.prems m True by auto
  next
    case False
    then have "inv s' S" using rejected Cons.prems m by auto
    then show ?thesis using Cons.IH [of s' S] Cons.prems m False by auto
  qed
qed

end

lemma below_max: "c \<noteq> (- 1 :: u64) \<Longrightarrow> unat c < 2 ^ 64 - 1"
proof -
  assume c: "c \<noteq> - 1"
  have "unat (- 1 :: u64) = 2 ^ 64 - 1" by (simp add: unsigned_minus_1_eq_mask mask_eq_exp_minus_1)
  then have "unat c \<noteq> 2 ^ 64 - 1" using c by (metis word_unat_eq_iff)
  then show ?thesis using unsigned_less [of c, where ?'a = nat] by simp
qed

interpretation wg_filter: replay_filter counter_mark "\<lambda>v S. rk_abs v (unat ` S)" "\<lambda>c. c \<noteq> - 1"
proof
  fix s s' and S :: "u64 set" and c :: u64
  assume abs: "rk_abs s (unat ` S)" and "c \<noteq> (- 1 :: u64)"
  then have "unat c < 2 ^ 64 - 1" by (intro below_max)
  note r = mark_did_receive_refines [OF abs this]
  show "counter_mark s c = (True, s') \<Longrightarrow> c \<notin> S \<and> rk_abs s' (unat ` insert c S)"
    using r by (auto simp: counter_mark_def receiving_counter_mark_def rk_abs_def split: sum.splits prod.splits)
  show "counter_mark s c = (False, s') \<Longrightarrow> rk_abs s' (unat ` S)"
    using r abs by (auto simp: counter_mark_def receiving_counter_mark_def split: sum.splits prod.splits)
qed

section \<open>Properties\<close>

text \<open>
  C7: Replay safety. Feed any sequence of 64-bit counters below the largest one to a fresh
  session's window: the sequence of counters it accepts has no repetition, whatever their order.
\<close>

theorem no_counter_accepted_twice:
  assumes "list_all (\<lambda>c. c \<noteq> - 1) cs"
  shows "distinct (accepted counter_mark rk_default cs)"
  using wg_filter.accepted_fresh [of rk_default "{}", OF _ assms] rk_abs_default by simp

theorem no_counter_accepted_twice_witness:
  "list_all (\<lambda>c. c \<noteq> - 1) [0, 5000, 0, 3977, 3976, 3977 :: u64] \<and>
   distinct (accepted counter_mark rk_default [0, 5000, 0, 3977, 3976, 3977])"
  using no_counter_accepted_twice [of "[0, 5000, 0, 3977, 3976, 3977]"] by simp




end
