(* ===== verification/Noise_Session.thy ===== *)
theory Noise_Session
  imports Crypto Replay_Window
begin

text \<open>
  \<open>boringtun/src/noise/session.rs\<close>: an established session, \<open>format_packet_data\<close> and
  \<open>receive_packet_data\<close>. A destination buffer is its length (the written prefix is the result),
  and a buffer that is too small panics as in the code. The lemmas relate two crossed sessions
  over a network that may reorder, drop and replay datagrams.
\<close>

record session =
  receiving_index :: u32
  sending_index :: u32
  receiver :: bytes
  sender :: bytes
  sending_key_counter :: u64
  receiving_key_counter :: receiving_key_counter_validator

definition AEAD_SIZE :: nat where "AEAD_SIZE = 16"

definition session_new :: "u32 \<Rightarrow> u32 \<Rightarrow> bytes \<Rightarrow> bytes \<Rightarrow> session" where
  "session_new local_index peer_index receiving_key sending_key =
     \<lparr>receiving_index = local_index, sending_index = peer_index, receiver = receiving_key,
      sender = sending_key, sending_key_counter = 0, receiving_key_counter = rk_default\<rparr>"

definition session_local_index :: "session \<Rightarrow> nat" where
  "session_local_index s = unat (receiving_index s)"

definition format_packet_data :: "crypto \<Rightarrow> session \<Rightarrow> bytes \<Rightarrow> nat \<Rightarrow> (bytes \<times> session) outcome" where
  "format_packet_data c s src dst_len =
     (if dst_len < length src + DATA_OVERHEAD_SZ then Panics
      else
        let n = sending_key_counter s;
            (ct, tag) = chacha_encrypt c (sender s) (counter_nonce n) [] src
        in Returns (le32 DATA @ le32 (sending_index s) @ le64 n @ ct @ tag,
             s\<lparr>sending_key_counter := n + 1\<rparr>))"

definition receive_packet_data ::
  "crypto \<Rightarrow> session \<Rightarrow> packet_data \<Rightarrow> nat \<Rightarrow> ((wire_guard_error + bytes) \<times> session) outcome" where
  "receive_packet_data c s p dst_len =
     (let ct = pd_encrypted_encapsulated_packet p; ct_len = length ct in
      if dst_len < ct_len then Panics
      else if pd_receiver_idx p \<noteq> receiving_index s then Returns (Inl WrongIndex, s)
      else
        case will_accept (receiving_key_counter s) (pd_counter p) of
          Inl e \<Rightarrow> Returns (Inl e, s)
        | Inr _ \<Rightarrow>
            if ct_len < AEAD_SIZE then Panics
            else
              let split = ct_len - AEAD_SIZE in
              case chacha_decrypt c (receiver s) (counter_nonce (pd_counter p)) [] (take split ct) (drop split ct) of
                None \<Rightarrow> Returns (Inl InvalidAeadTag, s)
              | Some pt \<Rightarrow>
                  (case receiving_counter_mark (receiving_key_counter s) (pd_counter p) of
                     (Inl e, v) \<Rightarrow> Returns (Inl e, s\<lparr>receiving_key_counter := v\<rparr>)
                   | (Inr _, v) \<Rightarrow> Returns (Inr pt, s\<lparr>receiving_key_counter := v\<rparr>)))"

definition current_packet_cnt :: "session \<Rightarrow> u64 \<times> u64" where
  "current_packet_cnt s = (rk_next (receiving_key_counter s), rk_receive_cnt (receiving_key_counter s))"

text \<open>
  A sender formats a list of packets; a receiver is given a list of datagrams and delivers what it
  accepts.
\<close>

fun send_all :: "crypto \<Rightarrow> session \<Rightarrow> bytes list \<Rightarrow> nat \<Rightarrow> (bytes list \<times> session) outcome" where
  "send_all c s [] dst_len = Returns ([], s)"
| "send_all c s (src # srcs) dst_len =
     obind (format_packet_data c s src dst_len) (\<lambda>(dg, s1).
     obind (send_all c s1 srcs dst_len) (\<lambda>(dgs, s2). Returns (dg # dgs, s2)))"

definition deliver :: "crypto \<Rightarrow> session \<Rightarrow> bytes \<Rightarrow> nat \<Rightarrow> (bytes list \<times> session) outcome" where
  "deliver c s dg dst_len =
     (case parse_incoming_packet dg of
        Inr (PacketData p) \<Rightarrow>
          obind (receive_packet_data c s p dst_len) (\<lambda>(r, s').
            Returns (case r of Inl _ \<Rightarrow> [] | Inr pt \<Rightarrow> [pt], s'))
      | _ \<Rightarrow> Returns ([], s))"

fun deliver_all :: "crypto \<Rightarrow> session \<Rightarrow> bytes list \<Rightarrow> nat \<Rightarrow> (bytes list \<times> session) outcome" where
  "deliver_all c s [] dst_len = Returns ([], s)"
| "deliver_all c s (dg # dgs) dst_len =
     obind (deliver c s dg dst_len) (\<lambda>(out, s1).
     obind (deliver_all c s1 dgs dst_len) (\<lambda>(rest, s2). Returns (out @ rest, s2)))"

section \<open>One datagram between crossed sessions\<close>

text \<open>What the first session sends, the second can open.\<close>

definition crossed :: "session \<Rightarrow> session \<Rightarrow> bool" where
  "crossed a b \<longleftrightarrow> sender a = receiver b \<and> sending_index a = receiving_index b"

text \<open>The datagram of a packet under a given counter.\<close>

definition datagram :: "crypto \<Rightarrow> session \<Rightarrow> u64 \<Rightarrow> bytes \<Rightarrow> bytes" where
  "datagram c a n src =
     packet_bytes (PacketData \<lparr>pd_receiver_idx = sending_index a, pd_counter = n,
       pd_encrypted_encapsulated_packet = aead_chacha20_seal c (sender a) n src []\<rparr>)"

lemma format_packet_data_eq:
  "format_packet_data c a src dst_len =
     (if dst_len < length src + 32 then Panics
      else Returns (datagram c a (sending_key_counter a) src,
        a\<lparr>sending_key_counter := sending_key_counter a + 1\<rparr>))"
  by (simp add: format_packet_data_def datagram_def aead_chacha20_seal_def case_prod_beta Let_def)

lemma datagram_counter [simp]: "datagram c (a\<lparr>sending_key_counter := k\<rparr>) n src = datagram c a n src"
  by (simp add: datagram_def)

lemma parse_datagram:
  assumes "crypto_ok c"
  shows "parse_incoming_packet (datagram c a n src) =
    Inr (PacketData \<lparr>pd_receiver_idx = sending_index a, pd_counter = n,
      pd_encrypted_encapsulated_packet = aead_chacha20_seal c (sender a) n src []\<rparr>)"
  unfolding datagram_def
  by (rule parse_packet_bytes [where m = "[]", simplified]) (simp_all add: length_seal [OF assms])

lemma mark_not_will_accept:
  "will_accept v n = Inl e \<Longrightarrow> \<exists>e'. receiving_counter_mark v n = (Inl e', v)"
  by (auto simp: will_accept_def receiving_counter_mark_def mark_did_receive_def split: if_splits)

lemma mark_error_keeps: "receiving_counter_mark v n = (Inl e, v') \<Longrightarrow> v' = v"
  by (auto simp: receiving_counter_mark_def mark_did_receive_def split: if_splits)

text \<open>A genuine datagram is delivered exactly when the replay window accepts its counter.\<close>

lemma deliver_datagram:
  assumes ok: "crypto_ok c" and x: "crossed a b" and room: "length src + 16 \<le> dst_len"
  shows "deliver c b (datagram c a n src) dst_len =
    (case counter_mark (receiving_key_counter b) n of
       (acc, v) \<Rightarrow> Returns (if acc then [src] else [], b\<lparr>receiving_key_counter := v\<rparr>))"
proof -
  let ?v = "receiving_key_counter b"
  let ?ct = "aead_chacha20_seal c (sender a) n src []"
  have ct: "length ?ct = length src + 16" by (rule length_seal [OF ok])
  have dec: "chacha_decrypt c (receiver b) (counter_nonce n) []
      (take (length src) ?ct) (drop (length src) ?ct) = Some src"
    using open_seal [OF ok, of "sender a" n src "[]"] x ct
    by (simp add: aead_chacha20_open_def crossed_def Let_def)
  show ?thesis
  proof (cases "will_accept ?v n")
    case (Inl e)
    then obtain e' where m: "receiving_counter_mark ?v n = (Inl e', ?v)"
      using mark_not_will_accept by blast
    show ?thesis using Inl m x ct room
      by (simp add: deliver_def parse_datagram [OF ok] receive_packet_data_def counter_mark_def crossed_def)
  next
    case (Inr u)
    then show ?thesis using dec x ct room
      by (auto simp: deliver_def parse_datagram [OF ok] receive_packet_data_def counter_mark_def
          crossed_def AEAD_SIZE_def split: sum.splits prod.splits)
  qed
qed

section \<open>A network that reorders, drops and replays\<close>

lemma send_all_datagrams:
  "send_all c a srcs dst_len = Returns (dgs, a') \<Longrightarrow>
     dgs = map (\<lambda>i. datagram c a (sending_key_counter a + of_nat i) (srcs ! i)) [0..<length srcs]"
proof (induction srcs arbitrary: a dgs a')
  case Nil
  then show ?case by simp
next
  case (Cons src srcs)
  let ?k = "sending_key_counter a"
  let ?a = "a\<lparr>sending_key_counter := ?k + 1\<rparr>"
  obtain rest where r: "send_all c ?a srcs dst_len = Returns (rest, a')"
    and dgs: "dgs = datagram c a ?k src # rest"
    using Cons.prems
    by (cases "send_all c ?a srcs dst_len") (auto simp: format_packet_data_eq split: if_splits)
  have "rest = map (\<lambda>i. datagram c a (?k + 1 + of_nat i) (srcs ! i)) [0..<length srcs]"
    using Cons.IH [OF r] by simp
  then show ?case using dgs
    by (simp add: add.assoc upt_conv_Cons map_Suc_upt [symmetric] o_def del: upt_Suc map_Suc_upt)
qed

lemma deliver_all_accepted:
  assumes ok: "crypto_ok c" and room: "\<And>src. src \<in> set srcs \<Longrightarrow> length src + 16 \<le> dst_len"
  shows "crossed a b \<Longrightarrow> list_all (\<lambda>n. unat n < length srcs) ns \<Longrightarrow>
    \<exists>b'. deliver_all c b (map (\<lambda>n. datagram c a n (srcs ! unat n)) ns) dst_len =
      Returns (map (\<lambda>n. srcs ! unat n) (accepted counter_mark (receiving_key_counter b) ns), b')"
proof (induction ns arbitrary: b)
  case Nil
  then show ?case by simp
next
  case (Cons n ns)
  obtain acc v where m: "counter_mark (receiving_key_counter b) n = (acc, v)"
    by (cases "counter_mark (receiving_key_counter b) n")
  let ?b = "b\<lparr>receiving_key_counter := v\<rparr>"
  have "crossed a ?b" using Cons.prems by (simp add: crossed_def)
  then obtain b' where r: "deliver_all c ?b (map (\<lambda>n. datagram c a n (srcs ! unat n)) ns) dst_len =
      Returns (map (\<lambda>n. srcs ! unat n) (accepted counter_mark v ns), b')"
    using Cons.IH [of ?b] Cons.prems by auto
  have "length (srcs ! unat n) + 16 \<le> dst_len" using room Cons.prems by simp
  then have "deliver c b (datagram c a n (srcs ! unat n)) dst_len =
      Returns (if acc then [srcs ! unat n] else [], ?b)"
    using deliver_datagram [OF ok Cons.prems(1)] m by simp
  then show ?case using r m by simp
qed

lemma mset_distinct_nths:
  assumes "distinct is" "set is \<subseteq> {..<length xs}"
  shows "mset (map ((!) xs) is) \<subseteq># mset xs"
proof -
  have "mset is = mset_set (set is)" using assms(1) by (simp add: mset_set_set)
  moreover have "mset xs = image_mset ((!) xs) (mset_set {..<length xs})"
    by (metis map_nth mset_map mset_upt atLeast0LessThan)
  moreover have "mset_set (set is) \<subseteq># mset_set {..<length xs}"
    using assms(2) by (intro subset_imp_msubset_mset_set) auto
  ultimately show ?thesis by (simp add: image_mset_subseteq_mono)
qed

lemma list_in_image: "set ys \<subseteq> f ` A \<Longrightarrow> \<exists>xs. ys = map f xs \<and> set xs \<subseteq> A"
proof (induction ys)
  case (Cons y ys)
  then obtain x xs where "y = f x" "x \<in> A" "ys = map f xs" "set xs \<subseteq> A" by auto
  then show ?case by (intro exI [of _ "x # xs"]) auto
qed simp

lemma set_accepted: "set (accepted mark s cs) \<subseteq> set cs"
  by (induction cs arbitrary: s) (auto split: prod.splits)

lemma sent_counters:
  assumes "length srcs < 2 ^ 64"
  shows "set (map (\<lambda>i. f (of_nat i :: u64) (srcs ! i)) [0..<length srcs]) =
    (\<lambda>n. f n (srcs ! unat n)) ` {n. unat n < length srcs}"
proof -
  have "(\<lambda>i. f (of_nat i :: u64) (srcs ! i)) ` {0..<length srcs} =
      (\<lambda>n. f n (srcs ! unat n)) ` (of_nat ` {0..<length srcs})"
    unfolding image_image using assms by (intro image_cong) (simp_all add: unat_of_nat_small)
  moreover have "(of_nat ` {0..<length srcs} :: u64 set) = {n. unat n < length srcs}"
  proof
    show "of_nat ` {0..<length srcs} \<subseteq> {n :: u64. unat n < length srcs}"
      using assms by (auto simp: unat_of_nat_small)
    show "{n. unat n < length srcs} \<subseteq> (of_nat ` {0..<length srcs} :: u64 set)"
    proof
      fix n :: u64
      assume "n \<in> {n. unat n < length srcs}"
      then show "n \<in> of_nat ` {0..<length srcs}" by (intro image_eqI [of _ _ "unat n"]) simp_all
    qed
  qed
  ultimately show ?thesis by simp
qed

lemma in_order_mark:
  assumes "unat (rk_next v) < 2 ^ 64 - 1024"
  shows "\<exists>v'. counter_mark v (rk_next v) = (True, v') \<and> rk_next v' = rk_next v + 1"
proof -
  have "unat (rk_next v + 1024) = unat (rk_next v) + 1024" using assms by (intro plain_sum) simp
  then have "\<not> rk_next v + 1024 < rk_next v" by (simp add: word_less_nat_alt)
  then show ?thesis by (simp add: counter_mark_def receiving_counter_mark_def mark_did_receive_def)
qed

lemma in_order_all_accepted:
  "unat (rk_next v) + n \<le> 2 ^ 64 - 1024 \<Longrightarrow>
     accepted counter_mark v (map (\<lambda>i. rk_next v + of_nat i) [0..<n]) = map (\<lambda>i. rk_next v + of_nat i) [0..<n]"
proof (induction n arbitrary: v)
  case 0
  then show ?case by simp
next
  case (Suc n)
  then obtain v' where v': "counter_mark v (rk_next v) = (True, v')" "rk_next v' = rk_next v + 1"
    using in_order_mark [of v] by auto
  have "unat (rk_next v') = unat (rk_next v) + 1" using Suc.prems by (simp add: v' unat_word_ariths)
  then have "unat (rk_next v') + n \<le> 2 ^ 64 - 1024" using Suc.prems by simp
  then show ?case using Suc.IH [of v'] v'
    by (simp add: upt_conv_Cons map_Suc_upt [symmetric] o_def add.assoc del: upt_Suc map_Suc_upt)
qed

section \<open>Properties\<close>

text \<open>
  C1: At most once. Packets sent over one session, delivered to the crossed session by a network
  that may reorder, drop and replay their datagrams at will, come out as packets that were sent,
  and none more often than it was sent; the receiver never panics when its buffer fits them.
\<close>

theorem at_most_once_delivery:
  assumes "crypto_ok c" and "sender a = receiver b" and "sending_index a = receiving_index b"
    and "sending_key_counter a = 0" and "receiving_key_counter b = rk_default"
    and sent: "send_all c a srcs n = Returns (dgs, a')" and bound: "length srcs < 2 ^ 64"
    and net: "set net \<subseteq> set dgs" and room: "\<forall>src \<in> set srcs. length src + 16 \<le> m"
  shows "\<exists>out b'. deliver_all c b net m = Returns (out, b') \<and> mset out \<subseteq># mset srcs"
proof -
  let ?f = "\<lambda>n. datagram c a n (srcs ! unat n)"
  have "set dgs = ?f ` {n. unat n < length srcs}"
    using send_all_datagrams [OF sent] assms(4) sent_counters [OF bound, of "datagram c a"] by simp
  then obtain ns where net_ns: "net = map ?f ns" and "set ns \<subseteq> {n. unat n < length srcs}"
    using list_in_image [of net ?f "{n. unat n < length srcs}"] net by auto
  then have ns: "list_all (\<lambda>n. unat n < length srcs) ns" by (auto simp: list_all_iff)
  let ?acc = "accepted counter_mark rk_default ns"
  obtain b' where out: "deliver_all c b net m = Returns (map (\<lambda>n. srcs ! unat n) ?acc, b')"
    using deliver_all_accepted [OF assms(1), of srcs m a b ns] room ns assms(2-5) net_ns
    by (auto simp: crossed_def)
  have "list_all (\<lambda>n. n \<noteq> - 1) ns" using ns bound
    by (auto simp: list_all_iff unsigned_minus_1_eq_mask mask_eq_exp_minus_1)
  then have "distinct ?acc" using wg_filter.accepted_fresh [of rk_default "{}"] rk_abs_default by simp
  then have "distinct (map unat ?acc)" by (simp add: distinct_map inj_on_def word_unat_eq_iff)
  moreover have "set (map unat ?acc) \<subseteq> {..<length srcs}"
    using set_accepted [of counter_mark rk_default ns] ns by (auto simp: list_all_iff)
  ultimately have "mset (map ((!) srcs) (map unat ?acc)) \<subseteq># mset srcs" by (rule mset_distinct_nths)
  then show ?thesis using out by (auto simp: o_def)
qed

definition demo_sender :: session where
  "demo_sender = session_new 0x101 0x201 (replicate 32 7) (replicate 32 9)"

definition demo_receiver :: session where
  "demo_receiver = session_new 0x201 0x101 (replicate 32 9) (replicate 32 7)"

lemmas demo_sessions = demo_sender_def demo_receiver_def session_new_def

theorem at_most_once_delivery_witness:
  "\<exists>dgs a'. send_all demo_crypto demo_sender [[1, 2], [3]] 100 = Returns (dgs, a') \<and>
     (\<exists>out b'. deliver_all demo_crypto demo_receiver (rev dgs @ dgs) 100 = Returns (out, b') \<and>
        mset out \<subseteq># mset [[1, 2], [3]])"
proof -
  obtain dgs a' where s: "send_all demo_crypto demo_sender [[1, 2], [3]] 100 = Returns (dgs, a')"
    by (simp add: format_packet_data_eq)
  show ?thesis
    using at_most_once_delivery [OF demo_crypto_ok, of demo_sender demo_receiver "[[1, 2], [3]]" 100 dgs a'
        "rev dgs @ dgs" 100] s
    by (auto simp: demo_sessions)
qed

text \<open>
  C28: Nothing is lost in order. When the datagrams of up to 2^64 - 1024 packets of a session arrive in
  the order they were sent, the crossed session delivers exactly the packets sent, in that order.
\<close>

theorem in_order_delivery:
  assumes "crypto_ok c" and "sender a = receiver b" and "sending_index a = receiving_index b"
    and "sending_key_counter a = 0" and "receiving_key_counter b = rk_default"
    and sent: "send_all c a srcs n = Returns (dgs, a')" and bound: "length srcs \<le> 2 ^ 64 - 1024"
    and room: "\<forall>src \<in> set srcs. length src + 16 \<le> m"
  shows "\<exists>b'. deliver_all c b dgs m = Returns (srcs, b')"
proof -
  let ?ns = "map of_nat [0..<length srcs] :: u64 list"
  have small: "unat (of_nat i :: u64) = i" if "i < length srcs" for i
    using that bound by (intro unat_of_nat_small) simp
  have nth: "map (\<lambda>n. f n (srcs ! unat n)) ?ns = map (\<lambda>i. f (of_nat i) (srcs ! i)) [0..<length srcs]"
    for f :: "u64 \<Rightarrow> bytes \<Rightarrow> bytes"
    using small by simp
  have dgs: "dgs = map (\<lambda>n. datagram c a n (srcs ! unat n)) ?ns"
    using send_all_datagrams [OF sent] assms(4) nth [of "datagram c a"] by simp
  have acc: "accepted counter_mark rk_default ?ns = ?ns"
    using in_order_all_accepted [of rk_default "length srcs"] bound by (simp add: rk_default_def)
  have out: "map (\<lambda>n. srcs ! unat n) ?ns = srcs" using nth [of "\<lambda>_ s. s"] by (simp add: map_nth)
  have "list_all (\<lambda>n. unat n < length srcs) ?ns" using small by (auto simp: list_all_iff)
  then show ?thesis
    using deliver_all_accepted [OF assms(1), of srcs m a b ?ns] room assms(2,3,5) dgs acc out
    by (auto simp: crossed_def)
qed

theorem in_order_delivery_witness:
  "\<exists>dgs a' b'. send_all demo_crypto demo_sender [[1, 2], [], [3]] 100 = Returns (dgs, a') \<and>
     deliver_all demo_crypto demo_receiver dgs 18 = Returns ([[1, 2], [], [3]], b')"
proof -
  obtain dgs a' where s: "send_all demo_crypto demo_sender [[1, 2], [], [3]] 100 = Returns (dgs, a')"
    by (simp add: format_packet_data_eq)
  show ?thesis
    using in_order_delivery [OF demo_crypto_ok, of demo_sender demo_receiver "[[1, 2], [], [3]]" 100 dgs a' 18] s
    by (auto simp: demo_sessions)
qed



end
