(* ===== verification/Clock.thy ===== *)
theory Clock
  imports Prelude
begin

text \<open>
  Time and randomness as the tunnel sees them: \<open>boringtun/src/sleepyinstant\<close> (instants of the
  boot-time clock and the durations between them) and the world a call runs in, which holds the
  clock readings, system-time readings and random bytes still to come. Every call of
  \<open>Instant::now()\<close> consumes the next reading, so a proof that needs a monotone clock says so.
  A \<open>Duration\<close> is its number of nanoseconds.
\<close>

section \<open>Instants and durations\<close>

text \<open>
  The fields are \<open>i64\<close>; readings of the boot-time clock are not negative, so the differences
  below stay in range.
\<close>

record time_spec =
  tv_sec :: int
  tv_nsec :: int

type_synonym duration = nat

definition NANOSECOND :: int where "NANOSECOND = 1000000000"

definition duration_new :: "int \<Rightarrow> int \<Rightarrow> duration" where
  "duration_new secs nanos = nat (secs * NANOSECOND + nanos)"

definition from_secs :: "nat \<Rightarrow> duration" where "from_secs n = n * 1000000000"
definition as_secs :: "duration \<Rightarrow> nat" where "as_secs d = d div 1000000000"
definition subsec_nanos :: "duration \<Rightarrow> nat" where "subsec_nanos d = d mod 1000000000"
definition as_millis :: "duration \<Rightarrow> nat" where "as_millis d = d div 1000000"

text \<open>\<open>Duration\<close> subtraction panics when the result would be negative.\<close>

definition duration_sub :: "duration \<Rightarrow> duration \<Rightarrow> duration outcome" where
  "duration_sub a b = (if b \<le> a then Returns (a - b) else Panics)"

definition checked_duration_since :: "time_spec \<Rightarrow> time_spec \<Rightarrow> duration option" where
  "checked_duration_since self earlier =
     (let (sec, nsec) =
        (if tv_nsec self < tv_nsec earlier
         then (tv_sec self - tv_sec earlier - 1, tv_nsec self - tv_nsec earlier + NANOSECOND)
         else (tv_sec self - tv_sec earlier, tv_nsec self - tv_nsec earlier))
      in if sec < 0 then None else Some (duration_new sec nsec))"

definition duration_since :: "time_spec \<Rightarrow> time_spec \<Rightarrow> duration" where
  "duration_since self earlier = (case checked_duration_since self earlier of None \<Rightarrow> 0 | Some d \<Rightarrow> d)"

section \<open>The world of a call\<close>

record world =
  w_instants :: "nat \<Rightarrow> time_spec"
  w_system :: "nat \<Rightarrow> duration"
  w_random :: "nat \<Rightarrow> u8"

definition instant_now :: "world \<Rightarrow> time_spec \<times> world" where
  "instant_now w = (w_instants w 0, w\<lparr>w_instants := (\<lambda>k. w_instants w (Suc k))\<rparr>)"

text \<open>\<open>SystemTime::now().duration_since(UNIX_EPOCH)\<close>\<close>

definition system_now :: "world \<Rightarrow> duration \<times> world" where
  "system_now w = (w_system w 0, w\<lparr>w_system := (\<lambda>k. w_system w (Suc k))\<rparr>)"

text \<open>\<open>OsRng.fill_bytes\<close> of a buffer of the given length.\<close>

definition fill_bytes :: "nat \<Rightarrow> world \<Rightarrow> bytes \<times> world" where
  "fill_bytes n w = (map (w_random w) [0..<n], w\<lparr>w_random := (\<lambda>k. w_random w (k + n))\<rparr>)"

text \<open>\<open>Instant::elapsed\<close>\<close>

definition elapsed :: "time_spec \<Rightarrow> world \<Rightarrow> duration \<times> world" where
  "elapsed t w = (case instant_now w of (now, w') \<Rightarrow> (duration_since now t, w'))"

section \<open>Durations are saturating differences\<close>

definition wf_time :: "time_spec \<Rightarrow> bool" where
  "wf_time t \<longleftrightarrow> 0 \<le> tv_sec t \<and> 0 \<le> tv_nsec t \<and> tv_nsec t < NANOSECOND"

definition nanos :: "time_spec \<Rightarrow> int" where
  "nanos t = tv_sec t * NANOSECOND + tv_nsec t"

lemma duration_since_nanos:
  assumes "wf_time a" "wf_time b"
  shows "duration_since a b = nat (nanos a - nanos b)"
  using assms
  by (auto simp: duration_since_def checked_duration_since_def duration_new_def nanos_def wf_time_def
      NANOSECOND_def Let_def)

text \<open>
  What the proofs about timers assume of the clock: the readings still to come are well formed,
  not before \<open>t\<close>, and do not go back.
\<close>

definition clock_from :: "time_spec \<Rightarrow> world \<Rightarrow> bool" where
  "clock_from t w \<longleftrightarrow> wf_time t \<and> (\<forall>k. wf_time (w_instants w k) \<and> nanos t \<le> nanos (w_instants w k)) \<and>
     (\<forall>i j. i \<le> j \<longrightarrow> nanos (w_instants w i) \<le> nanos (w_instants w j))"

lemma clock_from_now:
  assumes "clock_from t w" "instant_now w = (n, w')"
  shows "clock_from n w' \<and> wf_time n \<and> nanos t \<le> nanos n"
  using assms by (auto simp: clock_from_def instant_now_def)

lemma clock_from_weaken: "clock_from t w \<Longrightarrow> wf_time s \<Longrightarrow> nanos s \<le> nanos t \<Longrightarrow> clock_from s w"
  by (meson clock_from_def order_trans)

lemma clock_from_other [simp]:
  "clock_from t (w\<lparr>w_system := f\<rparr>) = clock_from t w" "clock_from t (w\<lparr>w_random := g\<rparr>) = clock_from t w"
  by (simp_all add: clock_from_def)

lemma length_fill_bytes [simp]: "length (fst (fill_bytes n w)) = n"
  by (simp add: fill_bytes_def)

lemma fill_bytes_clock [simp]: "clock_from t (snd (fill_bytes n w)) = clock_from t w"
  by (simp add: fill_bytes_def)

lemma system_now_clock [simp]: "clock_from t (snd (system_now w)) = clock_from t w"
  by (simp add: system_now_def)

lemma duration_since_mono:
  "wf_time a \<Longrightarrow> wf_time b \<Longrightarrow> wf_time s \<Longrightarrow> nanos a \<le> nanos b \<Longrightarrow> duration_since a s \<le> duration_since b s"
  by (simp add: duration_since_nanos)

section \<open>Properties\<close>

text \<open>
  The duration between two clock readings is their difference in nanoseconds, and zero when
  the earlier one is in fact later: \<open>duration_since\<close> saturates and never panics.
\<close>

lemma duration_since_saturates:
  assumes "0 \<le> tv_nsec a" "tv_nsec a < 1000000000" "0 \<le> tv_nsec b" "tv_nsec b < 1000000000"
  shows "duration_since a b =
    nat (max 0 ((tv_sec a * 1000000000 + tv_nsec a) - (tv_sec b * 1000000000 + tv_nsec b)))"
  using assms
  by (auto simp: duration_since_def checked_duration_since_def duration_new_def NANOSECOND_def Let_def)

end
