(* ===== verification/Handshake.thy ===== *)
theory Handshake
  imports Noise_Session Clock
begin

text \<open>
  \<open>boringtun/src/noise/handshake.rs\<close>: the Noise IKpsk2 handshake. TAI64N timestamps, the handshake
  states with the previous one kept for delayed responses, the cookie state, and the operations
  that format and receive the three handshake messages, each with the hash and key chain of the
  code. The message records come from the parser, which fixes the field lengths.
\<close>

section \<open>Timestamps\<close>

record tai64n =
  secs :: u64
  nano :: u32

record time_stamper =
  duration_at_start :: duration
  instant_at_start :: time_spec

definition stamper_new :: "world \<Rightarrow> time_stamper \<times> world" where
  "stamper_new w =
     (let (d, w1) = system_now w; (t, w2) = instant_now w1
      in (\<lparr>duration_at_start = d, instant_at_start = t\<rparr>, w2))"

definition TAI64_BASE :: u64 where "TAI64_BASE = push_bit 62 1 + 37"

definition stamp :: "time_stamper \<Rightarrow> world \<Rightarrow> bytes \<times> world" where
  "stamp ts w =
     (let (now, w1) = instant_now w;
          d = duration_since now (instant_at_start ts) + duration_at_start ts
      in (be64 (of_nat (as_secs d) + TAI64_BASE) @ be32 (of_nat (subsec_nanos d)), w1))"

definition tai64n_zero :: tai64n where "tai64n_zero = \<lparr>secs = 0, nano = 0\<rparr>"

definition tai64n_parse :: "bytes \<Rightarrow> tai64n" where
  "tai64n_parse buf = \<lparr>secs = of_be_bytes (take 8 buf), nano = of_be_bytes (drop 8 buf)\<rparr>"

definition after :: "tai64n \<Rightarrow> tai64n \<Rightarrow> bool" where
  "after a b \<longleftrightarrow> secs b < secs a \<or> (secs a = secs b \<and> nano b < nano a)"

section \<open>State\<close>

definition LABEL_MAC1 :: bytes where "LABEL_MAC1 = [109, 97, 99, 49, 45, 45, 45, 45]"
definition LABEL_COOKIE :: bytes where "LABEL_COOKIE = [99, 111, 111, 107, 105, 101, 45, 45]"

definition INITIAL_CHAIN_KEY :: bytes where
  "INITIAL_CHAIN_KEY = [
    96, 226, 109, 174, 243, 39, 239, 192, 46, 195, 53, 226, 160, 37, 210, 208, 22, 235, 66, 6, 248,
    114, 119, 245, 45, 56, 209, 152, 139, 120, 205, 54]"

definition INITIAL_CHAIN_HASH :: bytes where
  "INITIAL_CHAIN_HASH = [
    34, 17, 179, 97, 8, 26, 197, 102, 105, 18, 67, 219, 69, 138, 213, 50, 45, 156, 108, 102, 34,
    147, 232, 183, 14, 225, 156, 101, 186, 7, 158, 243]"

record noise_params =
  static_public :: bytes
  static_private :: bytes
  peer_static_public :: bytes
  static_shared :: bytes
  sending_mac1_key :: bytes
  preshared_key :: "bytes option"

record init_sent_state =
  is_local_index :: u32
  is_hash :: bytes
  is_chaining_key :: bytes
  is_ephemeral_private :: bytes
  is_time_sent :: time_spec

datatype handshake_state =
    HsNone
  | InitSent init_sent_state
  | InitReceived (ir_hash: bytes) (ir_chaining_key: bytes) (ir_peer_ephemeral_public: bytes) (ir_peer_index: u32)
  | HsExpired

record cookies =
  last_mac1 :: "bytes option"
  ck_index :: u32
  write_cookie :: "bytes option"

record handshake =
  params :: noise_params
  next_index :: u32
  previous :: handshake_state
  hs_state :: handshake_state
  hs_cookies :: cookies
  last_handshake_timestamp :: tai64n
  stamper :: time_stamper
  last_rtt :: "u32 option"

record half_handshake =
  hh_peer_index :: u32
  hh_peer_static_public :: bytes

definition noise_params_new :: "crypto \<Rightarrow> bytes \<Rightarrow> bytes \<Rightarrow> bytes \<Rightarrow> bytes option \<Rightarrow> noise_params" where
  "noise_params_new c sk pk peer psk =
     \<lparr>static_public = pk, static_private = sk, peer_static_public = peer,
      static_shared = x25519_dh c sk peer, sending_mac1_key = b2s_hash c LABEL_MAC1 peer,
      preshared_key = psk\<rparr>"

text \<open>\<open>assert_eq!\<close> on the public key panics when it does not belong to the private key.\<close>

definition params_set_static_private :: "crypto \<Rightarrow> noise_params \<Rightarrow> bytes \<Rightarrow> bytes \<Rightarrow> noise_params outcome" where
  "params_set_static_private c p sk pk =
     (if x25519_public c sk \<noteq> pk then Panics
      else Returns (p\<lparr>static_private := sk, static_public := pk,
             static_shared := x25519_dh c sk (peer_static_public p)\<rparr>))"

definition handshake_new ::
  "crypto \<Rightarrow> bytes \<Rightarrow> bytes \<Rightarrow> bytes \<Rightarrow> u32 \<Rightarrow> bytes option \<Rightarrow> world \<Rightarrow> handshake \<times> world" where
  "handshake_new c sk pk peer global_idx psk w =
     (let (st, w1) = stamper_new w
      in (\<lparr>params = noise_params_new c sk pk peer psk, next_index = global_idx, previous = HsNone,
           hs_state = HsNone, hs_cookies = \<lparr>last_mac1 = None, ck_index = 0, write_cookie = None\<rparr>,
           last_handshake_timestamp = tai64n_zero, stamper = st, last_rtt = None\<rparr>, w1))"

definition is_in_progress :: "handshake \<Rightarrow> bool" where
  "is_in_progress h \<longleftrightarrow> \<not> (hs_state h = HsNone \<or> hs_state h = HsExpired)"

definition hs_timer :: "handshake \<Rightarrow> time_spec option" where
  "hs_timer h = (case hs_state h of InitSent s \<Rightarrow> Some (is_time_sent s) | _ \<Rightarrow> None)"

definition set_expired :: "handshake \<Rightarrow> handshake" where
  "set_expired h = h\<lparr>previous := HsExpired, hs_state := HsExpired\<rparr>"

definition is_expired :: "handshake \<Rightarrow> bool" where
  "is_expired h \<longleftrightarrow> hs_state h = HsExpired"

definition has_cookie :: "handshake \<Rightarrow> bool" where
  "has_cookie h \<longleftrightarrow> write_cookie (hs_cookies h) \<noteq> None"

definition clear_cookie :: "handshake \<Rightarrow> handshake" where
  "clear_cookie h = h\<lparr>hs_cookies := (hs_cookies h)\<lparr>write_cookie := None\<rparr>\<rparr>"

definition inc_index :: "handshake \<Rightarrow> u32 \<times> handshake" where
  "inc_index h =
     (let index = next_index h;
          idx8 = (ucast index :: u8);
          nxt = (index AND NOT 0xff) OR ucast (idx8 + 1)
      in (nxt, h\<lparr>next_index := nxt\<rparr>))"

definition hs_set_static_private :: "crypto \<Rightarrow> handshake \<Rightarrow> bytes \<Rightarrow> bytes \<Rightarrow> handshake outcome" where
  "hs_set_static_private c h sk pk =
     obind (params_set_static_private c (params h) sk pk) (\<lambda>p. Returns (h\<lparr>params := p\<rparr>))"

section \<open>Messages\<close>

definition parse_handshake_anon ::
  "crypto \<Rightarrow> bytes \<Rightarrow> bytes \<Rightarrow> handshake_init \<Rightarrow> wire_guard_error + half_handshake" where
  "parse_handshake_anon c sk pk p =
     (let peer_index = hi_sender_idx p;
          hash = b2s_hash c INITIAL_CHAIN_HASH pk;
          peer_ephemeral_public = hi_unencrypted_ephemeral p;
          hash = b2s_hash c hash peer_ephemeral_public;
          chaining_key = b2s_hmac c (b2s_hmac c INITIAL_CHAIN_KEY peer_ephemeral_public) [1];
          ephemeral_shared = x25519_dh c sk peer_ephemeral_public;
          temp = b2s_hmac c chaining_key ephemeral_shared;
          chaining_key = b2s_hmac c temp [1];
          key = b2s_hmac2 c temp chaining_key [2]
      in case aead_chacha20_open c key 0 (hi_encrypted_static p) hash of
           None \<Rightarrow> Inl InvalidAeadTag
         | Some peer_static \<Rightarrow> Inr \<lparr>hh_peer_index = peer_index, hh_peer_static_public = peer_static\<rparr>)"

text \<open>
  \<open>append_mac1_and_mac2\<close>: \<open>msg\<close> is the buffer without its last 32 bytes; the result is the buffer
  with both MACs in place.
\<close>

definition append_mac1_and_mac2 :: "crypto \<Rightarrow> handshake \<Rightarrow> u32 \<Rightarrow> bytes \<Rightarrow> bytes \<times> handshake" where
  "append_mac1_and_mac2 c h local_index msg =
     (let msg_mac1 = b2s_keyed_mac_16 c (sending_mac1_key (params h)) msg;
          msg_mac2 = (case write_cookie (hs_cookies h) of
                        Some cookie \<Rightarrow> b2s_keyed_mac_16 c cookie (msg @ msg_mac1)
                      | None \<Rightarrow> replicate 16 0)
      in (msg @ msg_mac1 @ msg_mac2,
          h\<lparr>hs_cookies := (hs_cookies h)\<lparr>ck_index := local_index, last_mac1 := Some msg_mac1\<rparr>\<rparr>))"

definition format_handshake_initiation ::
  "crypto \<Rightarrow> handshake \<Rightarrow> nat \<Rightarrow> world \<Rightarrow> (wire_guard_error + bytes) \<times> handshake \<times> world" where
  "format_handshake_initiation c h dst_len w =
     (if dst_len < HANDSHAKE_INIT_SZ then (Inl DestinationBufferTooSmall, h, w)
      else
        let (local_index, h) = inc_index h;
            hash = b2s_hash c INITIAL_CHAIN_HASH (peer_static_public (params h));
            (ephemeral_private, w) = fill_bytes 32 w;
            unencrypted_ephemeral = x25519_public c ephemeral_private;
            hash = b2s_hash c hash unencrypted_ephemeral;
            chaining_key = b2s_hmac c (b2s_hmac c INITIAL_CHAIN_KEY unencrypted_ephemeral) [1];
            ephemeral_shared = x25519_dh c ephemeral_private (peer_static_public (params h));
            temp = b2s_hmac c chaining_key ephemeral_shared;
            chaining_key = b2s_hmac c temp [1];
            key = b2s_hmac2 c temp chaining_key [2];
            encrypted_static = aead_chacha20_seal c key 0 (static_public (params h)) hash;
            hash = b2s_hash c hash encrypted_static;
            temp = b2s_hmac c chaining_key (static_shared (params h));
            chaining_key = b2s_hmac c temp [1];
            key = b2s_hmac2 c temp chaining_key [2];
            (timestamp, w) = stamp (stamper h) w;
            encrypted_timestamp = aead_chacha20_seal c key 0 timestamp hash;
            hash = b2s_hash c hash encrypted_timestamp;
            (time_now, w) = instant_now w;
            h = h\<lparr>previous := hs_state h,
                  hs_state := InitSent \<lparr>is_local_index = local_index, is_hash = hash,
                    is_chaining_key = chaining_key, is_ephemeral_private = ephemeral_private,
                    is_time_sent = time_now\<rparr>\<rparr>;
            (dst, h) = append_mac1_and_mac2 c h local_index
              (le32 HANDSHAKE_INIT @ le32 local_index @ unencrypted_ephemeral @ encrypted_static @
               encrypted_timestamp)
        in (Inr dst, h, w))"

definition format_handshake_response ::
  "crypto \<Rightarrow> handshake \<Rightarrow> nat \<Rightarrow> world \<Rightarrow> ((wire_guard_error + bytes \<times> session) \<times> handshake \<times> world) outcome" where
  "format_handshake_response c h dst_len w =
     (if dst_len < HANDSHAKE_RESP_SZ then Returns (Inl DestinationBufferTooSmall, h, w)
      else case hs_state h of
        InitReceived hash chaining_key peer_ephemeral_public peer_index \<Rightarrow>
          let h = h\<lparr>hs_state := HsNone\<rparr>;
              (ephemeral_private, w) = fill_bytes 32 w;
              (local_index, h) = inc_index h;
              unencrypted_ephemeral = x25519_public c ephemeral_private;
              hash = b2s_hash c hash unencrypted_ephemeral;
              temp = b2s_hmac c chaining_key unencrypted_ephemeral;
              chaining_key = b2s_hmac c temp [1];
              ephemeral_shared = x25519_dh c ephemeral_private peer_ephemeral_public;
              temp = b2s_hmac c chaining_key ephemeral_shared;
              chaining_key = b2s_hmac c temp [1];
              temp = b2s_hmac c chaining_key (x25519_dh c ephemeral_private (peer_static_public (params h)));
              chaining_key = b2s_hmac c temp [1];
              temp = b2s_hmac c chaining_key
                (case preshared_key (params h) of Some k \<Rightarrow> k | None \<Rightarrow> replicate 32 0);
              chaining_key = b2s_hmac c temp [1];
              temp2 = b2s_hmac2 c temp chaining_key [2];
              key = b2s_hmac2 c temp temp2 [3];
              hash = b2s_hash c hash temp2;
              encrypted_nothing = aead_chacha20_seal c key 0 [] hash;
              temp1 = b2s_hmac c chaining_key [];
              temp2 = b2s_hmac c temp1 [1];
              temp3 = b2s_hmac2 c temp1 temp2 [2];
              (dst, h) = append_mac1_and_mac2 c h local_index
                (le32 HANDSHAKE_RESP @ le32 local_index @ le32 peer_index @ unencrypted_ephemeral @
                 encrypted_nothing)
          in Returns (Inr (dst, session_new local_index peer_index temp2 temp3), h, w)
      | _ \<Rightarrow> Panics)"

definition receive_handshake_initialization ::
  "crypto \<Rightarrow> handshake \<Rightarrow> handshake_init \<Rightarrow> nat \<Rightarrow> world \<Rightarrow>
     ((wire_guard_error + bytes \<times> session) \<times> handshake \<times> world) outcome" where
  "receive_handshake_initialization c h p dst_len w =
     (let hash = b2s_hash c INITIAL_CHAIN_HASH (static_public (params h));
          peer_index = hi_sender_idx p;
          peer_ephemeral_public = hi_unencrypted_ephemeral p;
          hash = b2s_hash c hash peer_ephemeral_public;
          chaining_key = b2s_hmac c (b2s_hmac c INITIAL_CHAIN_KEY peer_ephemeral_public) [1];
          ephemeral_shared = x25519_dh c (static_private (params h)) peer_ephemeral_public;
          temp = b2s_hmac c chaining_key ephemeral_shared;
          chaining_key = b2s_hmac c temp [1];
          key = b2s_hmac2 c temp chaining_key [2]
      in case aead_chacha20_open c key 0 (hi_encrypted_static p) hash of
           None \<Rightarrow> Returns (Inl InvalidAeadTag, h, w)
         | Some peer_static_public_decrypted \<Rightarrow>
             if peer_static_public (params h) \<noteq> peer_static_public_decrypted
             then Returns (Inl WrongKey, h, w)
             else
               let hash = b2s_hash c hash (hi_encrypted_static p);
                   temp = b2s_hmac c chaining_key (static_shared (params h));
                   chaining_key = b2s_hmac c temp [1];
                   key = b2s_hmac2 c temp chaining_key [2]
               in case aead_chacha20_open c key 0 (hi_encrypted_timestamp p) hash of
                    None \<Rightarrow> Returns (Inl InvalidAeadTag, h, w)
                  | Some timestamp \<Rightarrow>
                      let timestamp = tai64n_parse timestamp in
                      if \<not> after timestamp (last_handshake_timestamp h)
                      then Returns (Inl WrongTai64nTimestamp, h, w)
                      else
                        let hash = b2s_hash c hash (hi_encrypted_timestamp p);
                            h = h\<lparr>last_handshake_timestamp := timestamp, previous := hs_state h,
                                  hs_state := InitReceived hash chaining_key peer_ephemeral_public peer_index\<rparr>
                        in format_handshake_response c h dst_len w)"

text \<open>The pending initiation a response answers, and whether it is the previous one.\<close>

definition awaiting_response :: "handshake \<Rightarrow> u32 \<Rightarrow> (init_sent_state \<times> bool) option" where
  "awaiting_response h idx =
     (case hs_state h of
        InitSent s \<Rightarrow>
          if is_local_index s = idx then Some (s, False)
          else (case previous h of
                  InitSent s' \<Rightarrow> if is_local_index s' = idx then Some (s', True) else None
                | _ \<Rightarrow> None)
      | _ \<Rightarrow>
          (case previous h of
             InitSent s' \<Rightarrow> if is_local_index s' = idx then Some (s', True) else None
           | _ \<Rightarrow> None))"

definition receive_handshake_response ::
  "crypto \<Rightarrow> handshake \<Rightarrow> handshake_response \<Rightarrow> world \<Rightarrow> (wire_guard_error + session) \<times> handshake \<times> world" where
  "receive_handshake_response c h p w =
     (case awaiting_response h (hr_receiver_idx p) of
        None \<Rightarrow> (Inl UnexpectedPacket, h, w)
      | Some (st, is_previous) \<Rightarrow>
          let peer_index = hr_sender_idx p;
              local_index = is_local_index st;
              unencrypted_ephemeral = hr_unencrypted_ephemeral p;
              hash = b2s_hash c (is_hash st) unencrypted_ephemeral;
              temp = b2s_hmac c (is_chaining_key st) unencrypted_ephemeral;
              chaining_key = b2s_hmac c temp [1];
              ephemeral_shared = x25519_dh c (is_ephemeral_private st) unencrypted_ephemeral;
              temp = b2s_hmac c chaining_key ephemeral_shared;
              chaining_key = b2s_hmac c temp [1];
              temp = b2s_hmac c chaining_key (x25519_dh c (static_private (params h)) unencrypted_ephemeral);
              chaining_key = b2s_hmac c temp [1];
              temp = b2s_hmac c chaining_key
                (case preshared_key (params h) of Some k \<Rightarrow> k | None \<Rightarrow> replicate 32 0);
              chaining_key = b2s_hmac c temp [1];
              temp2 = b2s_hmac2 c temp chaining_key [2];
              key = b2s_hmac2 c temp temp2 [3];
              hash = b2s_hash c hash temp2
          in case aead_chacha20_open c key 0 (hr_encrypted_nothing p) hash of
               None \<Rightarrow> (Inl InvalidAeadTag, h, w)
             | Some _ \<Rightarrow>
                 let temp1 = b2s_hmac c chaining_key [];
                     temp2 = b2s_hmac c temp1 [1];
                     temp3 = b2s_hmac2 c temp1 temp2 [2];
                     (now, w) = instant_now w;
                     rtt_time = duration_since now (is_time_sent st);
                     h = h\<lparr>last_rtt := Some (of_nat (as_millis rtt_time))\<rparr>;
                     h = (if is_previous then h\<lparr>previous := HsNone\<rparr> else h\<lparr>hs_state := HsNone\<rparr>)
                 in (Inr (session_new local_index peer_index temp3 temp2), h, w))"

text \<open>
  \<open>receive_cookie_reply\<close>; the 32-byte payload is the encrypted cookie and its tag, so the
  plaintext has the 16 bytes of a cookie unless decryption misbehaves.
\<close>

definition receive_cookie_reply ::
  "crypto \<Rightarrow> handshake \<Rightarrow> packet_cookie_reply \<Rightarrow> (wire_guard_error + unit) \<times> handshake" where
  "receive_cookie_reply c h p =
     (case last_mac1 (hs_cookies h) of
        None \<Rightarrow> (Inl UnexpectedPacket, h)
      | Some mac1 \<Rightarrow>
          if cr_receiver_idx p \<noteq> ck_index (hs_cookies h) then (Inl WrongIndex, h)
          else
            let key = b2s_hash c LABEL_COOKIE (peer_static_public (params h));
                ct = cr_encrypted_cookie p;
                split = length ct - 16
            in case xchacha_decrypt c key (cr_nonce p) mac1 (take split ct) (drop split ct) of
                 None \<Rightarrow> (Inl InvalidAeadTag, h)
               | Some cookie \<Rightarrow>
                   if length cookie \<noteq> 16 then (Inl InvalidPacket, h)
                   else (Inr (), h\<lparr>hs_cookies := (hs_cookies h)\<lparr>write_cookie := Some cookie\<rparr>\<rparr>))"

section \<open>The key schedule, shared by both sides\<close>

text \<open>
  The three stages of the schedule as the protocol describes them; each operation of the code
  computes these stages from its own view of the Diffie-Hellman values.
\<close>

definition noise_static :: "crypto \<Rightarrow> bytes \<Rightarrow> bytes \<Rightarrow> bytes \<Rightarrow> bytes \<times> bytes \<times> bytes" where
  "noise_static c responder_pk epub es =
     (let ck = b2s_hmac c (b2s_hmac c INITIAL_CHAIN_KEY epub) [1];
          temp = b2s_hmac c ck es; ck = b2s_hmac c temp [1]
      in (b2s_hash c (b2s_hash c INITIAL_CHAIN_HASH responder_pk) epub, ck, b2s_hmac2 c temp ck [2]))"

definition noise_time :: "crypto \<Rightarrow> bytes \<Rightarrow> bytes \<Rightarrow> bytes \<Rightarrow> bytes \<Rightarrow> bytes \<times> bytes \<times> bytes" where
  "noise_time c hash ck encrypted_static ss =
     (let temp = b2s_hmac c ck ss; ck = b2s_hmac c temp [1]
      in (b2s_hash c hash encrypted_static, ck, b2s_hmac2 c temp ck [2]))"

definition noise_resp ::
  "crypto \<Rightarrow> bytes \<Rightarrow> bytes \<Rightarrow> bytes \<Rightarrow> bytes \<Rightarrow> bytes \<Rightarrow> bytes option \<Rightarrow> bytes \<times> bytes \<times> bytes \<times> bytes" where
  "noise_resp c hash ck epub ee se psk =
     (let hash = b2s_hash c hash epub;
          ck = b2s_hmac c (b2s_hmac c ck epub) [1];
          ck = b2s_hmac c (b2s_hmac c ck ee) [1];
          ck = b2s_hmac c (b2s_hmac c ck se) [1];
          temp = b2s_hmac c ck (case psk of Some k \<Rightarrow> k | None \<Rightarrow> replicate 32 0);
          ck = b2s_hmac c temp [1];
          temp2 = b2s_hmac2 c temp ck [2];
          temp1 = b2s_hmac c ck [];
          t2 = b2s_hmac c temp1 [1]
      in (b2s_hash c hash temp2, b2s_hmac2 c temp temp2 [3], t2, b2s_hmac2 c temp1 t2 [2]))"

text \<open>An initiation message: its fields under the schedule.\<close>

definition initiation :: "crypto \<Rightarrow> noise_params \<Rightarrow> u32 \<Rightarrow> bytes \<Rightarrow> bytes \<Rightarrow> handshake_init" where
  "initiation c p idx esk timestamp =
     (let epub = x25519_public c esk;
          (hash, ck, key) = noise_static c (peer_static_public p) epub (x25519_dh c esk (peer_static_public p));
          encrypted_static = aead_chacha20_seal c key 0 (static_public p) hash;
          (hash, ck, key) = noise_time c hash ck encrypted_static (static_shared p)
      in \<lparr>hi_sender_idx = idx, hi_unencrypted_ephemeral = epub, hi_encrypted_static = encrypted_static,
          hi_encrypted_timestamp = aead_chacha20_seal c key 0 timestamp hash\<rparr>)"

definition init_sent :: "crypto \<Rightarrow> noise_params \<Rightarrow> u32 \<Rightarrow> bytes \<Rightarrow> bytes \<Rightarrow> time_spec \<Rightarrow> init_sent_state" where
  "init_sent c p idx esk timestamp t =
     (let m = initiation c p idx esk timestamp;
          (hash, ck, _) = noise_static c (peer_static_public p) (hi_unencrypted_ephemeral m)
            (x25519_dh c esk (peer_static_public p));
          (hash, ck, _) = noise_time c hash ck (hi_encrypted_static m) (static_shared p)
      in \<lparr>is_local_index = idx, is_hash = b2s_hash c hash (hi_encrypted_timestamp m),
          is_chaining_key = ck, is_ephemeral_private = esk, is_time_sent = t\<rparr>)"

lemmas schedule_defs = noise_static_def noise_time_def noise_resp_def

lemma inc_index_params [simp]:
  "params (snd (inc_index h)) = params h" "stamper (snd (inc_index h)) = stamper h"
  "hs_state (snd (inc_index h)) = hs_state h" "hs_cookies (snd (inc_index h)) = hs_cookies h"
  "previous (snd (inc_index h)) = previous h"
  "last_handshake_timestamp (snd (inc_index h)) = last_handshake_timestamp h"
  "next_index (snd (inc_index h)) = fst (inc_index h)"
  by (simp_all add: inc_index_def Let_def)

lemma append_mac_fields [simp]:
  "params (snd (append_mac1_and_mac2 c h i m)) = params h"
  "hs_state (snd (append_mac1_and_mac2 c h i m)) = hs_state h"
  "previous (snd (append_mac1_and_mac2 c h i m)) = previous h"
  "next_index (snd (append_mac1_and_mac2 c h i m)) = next_index h"
  "last_handshake_timestamp (snd (append_mac1_and_mac2 c h i m)) = last_handshake_timestamp h"
  "stamper (snd (append_mac1_and_mac2 c h i m)) = stamper h"
  by (simp_all add: append_mac1_and_mac2_def Let_def)

text \<open>What \<open>format_handshake_initiation\<close> does, in terms of the schedule.\<close>

lemma format_handshake_initiation_eq:
  assumes "HANDSHAKE_INIT_SZ \<le> dst_len"
  shows "format_handshake_initiation c h dst_len w =
    (let (idx, h1) = inc_index h;
         (esk, w1) = fill_bytes 32 w;
         (timestamp, w2) = stamp (stamper h) w1;
         (t, w3) = instant_now w2;
         (dst, h2) = append_mac1_and_mac2 c
           (h1\<lparr>previous := hs_state h, hs_state := InitSent (init_sent c (params h) idx esk timestamp t)\<rparr>)
           idx (packet_bytes (HandshakeInit (initiation c (params h) idx esk timestamp)))
     in (Inr dst, h2, w3))"
  using assms inc_index_params [of h]
  by (simp add: format_handshake_initiation_def init_sent_def initiation_def schedule_defs Let_def
      case_prod_beta)

text \<open>The response to an initiation, and both sides' view of its keys.\<close>

definition response :: "crypto \<Rightarrow> bytes \<Rightarrow> bytes \<Rightarrow> noise_params \<Rightarrow> bytes \<Rightarrow> u32 \<Rightarrow> u32 \<Rightarrow> bytes \<Rightarrow> handshake_response \<times> session" where
  "response c hash ck p peer_epub idx peer_index esk =
     (let epub = x25519_public c esk;
          (hash, key, t2, t3) = noise_resp c hash ck epub (x25519_dh c esk peer_epub)
            (x25519_dh c esk (peer_static_public p)) (preshared_key p)
      in (\<lparr>hr_sender_idx = idx, hr_receiver_idx = peer_index, hr_unencrypted_ephemeral = epub,
           hr_encrypted_nothing = aead_chacha20_seal c key 0 [] hash\<rparr>,
          session_new idx peer_index t2 t3))"

lemma format_handshake_response_eq:
  assumes "HANDSHAKE_RESP_SZ \<le> dst_len"
    and "hs_state h = InitReceived hash ck peer_epub peer_index"
  shows "format_handshake_response c h dst_len w =
    (let (esk, w1) = fill_bytes 32 w;
         (idx, h1) = inc_index (h\<lparr>hs_state := HsNone\<rparr>);
         (m, s) = response c hash ck (params h) peer_epub idx peer_index esk;
         (dst, h2) = append_mac1_and_mac2 c h1 idx (packet_bytes (HandshakeResponse m))
     in Returns (Inr (dst, s), h2, w1))"
  using assms inc_index_params [of "h\<lparr>hs_state := HsNone\<rparr>"]
  by (simp add: format_handshake_response_def response_def schedule_defs Let_def case_prod_beta)

lemma receive_handshake_initialization_eq:
  "receive_handshake_initialization c h p dst_len w =
     (let epub = hi_unencrypted_ephemeral p;
          (hash, ck, key) = noise_static c (static_public (params h)) epub
            (x25519_dh c (static_private (params h)) epub)
      in case aead_chacha20_open c key 0 (hi_encrypted_static p) hash of
           None \<Rightarrow> Returns (Inl InvalidAeadTag, h, w)
         | Some static \<Rightarrow>
             if peer_static_public (params h) \<noteq> static then Returns (Inl WrongKey, h, w)
             else
               let (hash, ck, key) = noise_time c hash ck (hi_encrypted_static p) (static_shared (params h))
               in case aead_chacha20_open c key 0 (hi_encrypted_timestamp p) hash of
                    None \<Rightarrow> Returns (Inl InvalidAeadTag, h, w)
                  | Some ts \<Rightarrow>
                      if \<not> after (tai64n_parse ts) (last_handshake_timestamp h)
                      then Returns (Inl WrongTai64nTimestamp, h, w)
                      else format_handshake_response c
                        (h\<lparr>last_handshake_timestamp := tai64n_parse ts, previous := hs_state h,
                           hs_state := InitReceived (b2s_hash c hash (hi_encrypted_timestamp p)) ck epub
                             (hi_sender_idx p)\<rparr>) dst_len w)"
  by (simp add: receive_handshake_initialization_def schedule_defs Let_def cong: option.case_cong if_cong)

lemma receive_handshake_response_eq:
  "receive_handshake_response c h p w =
     (case awaiting_response h (hr_receiver_idx p) of
        None \<Rightarrow> (Inl UnexpectedPacket, h, w)
      | Some (st, is_previous) \<Rightarrow>
          let epub = hr_unencrypted_ephemeral p;
              (hash, key, t2, t3) = noise_resp c (is_hash st) (is_chaining_key st) epub
                (x25519_dh c (is_ephemeral_private st) epub) (x25519_dh c (static_private (params h)) epub)
                (preshared_key (params h))
          in case aead_chacha20_open c key 0 (hr_encrypted_nothing p) hash of
               None \<Rightarrow> (Inl InvalidAeadTag, h, w)
             | Some _ \<Rightarrow>
                 let (now, w1) = instant_now w;
                     h1 = h\<lparr>last_rtt := Some (of_nat (as_millis (duration_since now (is_time_sent st))))\<rparr>
                 in (Inr (session_new (is_local_index st) (hr_sender_idx p) t3 t2),
                     if is_previous then h1\<lparr>previous := HsNone\<rparr> else h1\<lparr>hs_state := HsNone\<rparr>, w1))"
  by (simp add: receive_handshake_response_def schedule_defs Let_def case_prod_beta cong: option.case_cong)

section \<open>Well-formed key material\<close>

definition params_ok :: "crypto \<Rightarrow> noise_params \<Rightarrow> bool" where
  "params_ok c p \<longleftrightarrow> static_public p = x25519_public c (static_private p) \<and>
     static_shared p = x25519_dh c (static_private p) (peer_static_public p) \<and>
     sending_mac1_key p = b2s_hash c LABEL_MAC1 (peer_static_public p)"

text \<open>The two ends of a tunnel know each other's public key and share the optional key.\<close>

definition paired :: "crypto \<Rightarrow> noise_params \<Rightarrow> noise_params \<Rightarrow> bool" where
  "paired c p q \<longleftrightarrow> params_ok c p \<and> params_ok c q \<and> peer_static_public p = static_public q \<and>
     peer_static_public q = static_public p \<and> preshared_key p = preshared_key q"

lemma paired_sym: "paired c p q \<longleftrightarrow> paired c q p"
  by (auto simp: paired_def)

lemma paired_shared: "crypto_ok c \<Longrightarrow> paired c p q \<Longrightarrow> static_shared p = static_shared q"
  by (simp add: paired_def params_ok_def dh_commutes)

lemma params_ok_new [simp]: "params_ok c (noise_params_new c sk (x25519_public c sk) peer psk)"
  by (simp add: params_ok_def noise_params_new_def)

lemma params_set_static_private_ok:
  "params_set_static_private c p sk pk = Returns p' \<Longrightarrow> sending_mac1_key p = b2s_hash c LABEL_MAC1 (peer_static_public p) \<Longrightarrow>
     params_ok c p'"
  by (auto simp: params_set_static_private_def params_ok_def split: if_splits)

lemma initiation_fields [simp]:
  "hi_sender_idx (initiation c p idx esk ts) = idx"
  "hi_unencrypted_ephemeral (initiation c p idx esk ts) = x25519_public c esk"
  by (simp_all add: initiation_def Let_def case_prod_beta)

lemma wf_initiation:
  assumes "crypto_ok c" "length (static_public p) = 32" "length ts = 12"
  shows "wf_packet (HandshakeInit (initiation c p idx esk ts))"
  using assms by (simp add: initiation_def Let_def case_prod_beta crypto_ok_lengths length_seal)

lemma wf_response:
  "crypto_ok c \<Longrightarrow> wf_packet (HandshakeResponse (fst (response c hash ck p peer_epub idx peer_index esk)))"
  by (simp add: response_def Let_def case_prod_beta crypto_ok_lengths length_seal)

lemma length_stamp [simp]: "length (fst (stamp ts w)) = 12"
  by (simp add: stamp_def Let_def case_prod_beta)

lemma append_mac_layout:
  assumes "crypto_ok c"
  shows "\<exists>macs. fst (append_mac1_and_mac2 c h i msg) = msg @ macs \<and> length macs = 32"
  using assms by (auto simp: append_mac1_and_mac2_def Let_def crypto_ok_lengths split: option.splits)

lemma parse_with_macs:
  assumes "crypto_ok c" "wf_packet p" "mac_len p = 32"
  shows "parse_incoming_packet (fst (append_mac1_and_mac2 c h i (packet_bytes p))) = Inr p"
  using append_mac_layout [OF assms(1), of h i "packet_bytes p"] parse_packet_bytes [OF assms(2)] assms(3)
  by auto

section \<open>Both ends derive the same keys\<close>

lemma receive_initiation:
  assumes ok: "crypto_ok c" and pq: "paired c p (params h)"
    and fresh: "after (tai64n_parse ts) (last_handshake_timestamp h)"
  shows "receive_handshake_initialization c h (initiation c p idx esk ts) n w =
    format_handshake_response c
      (h\<lparr>last_handshake_timestamp := tai64n_parse ts, previous := hs_state h,
         hs_state := InitReceived (is_hash (init_sent c p idx esk ts t)) (is_chaining_key (init_sent c p idx esk ts t))
           (x25519_public c esk) idx\<rparr>) n w"
proof -
  have es: "x25519_dh c (static_private (params h)) (x25519_public c esk) =
      x25519_dh c esk (static_public (params h))"
    using pq dh_commutes [OF ok] by (simp add: paired_def params_ok_def)
  have keys: "peer_static_public p = static_public (params h)" "peer_static_public (params h) = static_public p"
    "static_shared (params h) = static_shared p"
    using pq paired_shared [OF ok pq] by (simp_all add: paired_def)
  show ?thesis using fresh
    by (simp add: receive_handshake_initialization_eq initiation_def init_sent_def keys es open_seal [OF ok]
        Let_def case_prod_beta)
qed

lemma receive_response:
  assumes ok: "crypto_ok c" and pq: "paired c (params h) q"
    and aw: "awaiting_response h idx = Some (st, prev)"
    and st: "is_ephemeral_private st = esk" "is_local_index st = idx"
    and m: "response c (is_hash st) (is_chaining_key st) q (x25519_public c esk) ridx idx resk = (m, sr)"
  shows "\<exists>h' w'. receive_handshake_response c h m w =
    (Inr (session_new idx ridx (sender sr) (receiver sr)), h', w')"
proof -
  have ee: "x25519_dh c resk (x25519_public c esk) = x25519_dh c esk (x25519_public c resk)"
    by (rule dh_commutes [OF ok])
  have se: "x25519_dh c resk (peer_static_public q) = x25519_dh c (static_private (params h)) (x25519_public c resk)"
    using pq dh_commutes [OF ok] by (simp add: paired_def params_ok_def)
  have psk: "preshared_key q = preshared_key (params h)" using pq by (simp add: paired_def)
  show ?thesis using m aw
    by (auto simp: receive_handshake_response_eq response_def st ee se psk open_seal [OF ok] session_new_def
        Let_def case_prod_beta)
qed

lemma response_session:
  "response c hash ck q pe ridx idx resk = (m, sr) \<Longrightarrow>
     receiving_index sr = ridx \<and> sending_index sr = idx \<and> sending_key_counter sr = 0 \<and>
     receiving_key_counter sr = rk_default \<and> hr_receiver_idx m = idx \<and> hr_sender_idx m = ridx"
  by (auto simp: response_def session_new_def Let_def case_prod_beta)

lemma init_sent_fields [simp]:
  "is_local_index (init_sent c p idx esk ts t) = idx"
  "is_ephemeral_private (init_sent c p idx esk ts t) = esk"
  by (simp_all add: init_sent_def Let_def case_prod_beta)

text \<open>The timestamp an initiation formatted in world \<open>w\<close> carries.\<close>

definition initiation_stamp :: "handshake \<Rightarrow> world \<Rightarrow> tai64n" where
  "initiation_stamp h w = tai64n_parse (fst (stamp (stamper h) (snd (fill_bytes 32 w))))"

lemma formatted_initiation:
  assumes ok: "crypto_ok c" and p: "params_ok c (params h)"
    and f: "format_handshake_initiation c h n w = (Inr dg, h1, w1)"
  shows "\<exists>esk ts t. let idx = fst (inc_index h) in
    tai64n_parse ts = initiation_stamp h w \<and>
    parse_incoming_packet dg = Inr (HandshakeInit (initiation c (params h) idx esk ts)) \<and>
    params h1 = params h \<and> hs_state h1 = InitSent (init_sent c (params h) idx esk ts t)"
proof -
  have n: "HANDSHAKE_INIT_SZ \<le> n" using f by (auto simp: format_handshake_initiation_def split: if_splits)
  let ?idx = "fst (inc_index h)"
  let ?esk = "fst (fill_bytes 32 w)"
  let ?ts = "fst (stamp (stamper h) (snd (fill_bytes 32 w)))"
  let ?t = "fst (instant_now (snd (stamp (stamper h) (snd (fill_bytes 32 w)))))"
  let ?h = "(snd (inc_index h))\<lparr>previous := hs_state h,
    hs_state := InitSent (init_sent c (params h) ?idx ?esk ?ts ?t)\<rparr>"
  have dg: "dg = fst (append_mac1_and_mac2 c ?h ?idx (packet_bytes (HandshakeInit (initiation c (params h) ?idx ?esk ?ts))))"
    and h1: "h1 = snd (append_mac1_and_mac2 c ?h ?idx (packet_bytes (HandshakeInit (initiation c (params h) ?idx ?esk ?ts))))"
    using f unfolding format_handshake_initiation_eq [OF n] by (simp_all add: Let_def case_prod_beta)
  have "wf_packet (HandshakeInit (initiation c (params h) ?idx ?esk ?ts))"
    using p by (intro wf_initiation [OF ok]) (simp_all add: params_ok_def crypto_ok_lengths [OF ok])
  then have "parse_incoming_packet dg = Inr (HandshakeInit (initiation c (params h) ?idx ?esk ?ts))"
    unfolding dg by (intro parse_with_macs [OF ok]) simp_all
  then show ?thesis
    by (intro exI [of _ ?esk] exI [of _ ?ts] exI [of _ ?t]) (simp add: h1 initiation_stamp_def Let_def)
qed

lemma formatted_response:
  assumes ok: "crypto_ok c" and n: "HANDSHAKE_RESP_SZ \<le> n"
    and st: "hs_state h = InitReceived hash ck peer_epub peer_index"
  shows "\<exists>dg m s resk h' w'. format_handshake_response c h n w = Returns (Inr (dg, s), h', w') \<and>
    parse_incoming_packet dg = Inr (HandshakeResponse m) \<and>
    response c hash ck (params h) peer_epub (fst (inc_index h)) peer_index resk = (m, s)"
proof -
  let ?h = "h\<lparr>hs_state := HsNone\<rparr>"
  let ?esk = "fst (fill_bytes 32 w)"
  have idx: "fst (inc_index ?h) = fst (inc_index h)" by (simp add: inc_index_def Let_def)
  obtain m s where m: "response c hash ck (params h) peer_epub (fst (inc_index h)) peer_index ?esk = (m, s)"
    by fastforce
  have "wf_packet (HandshakeResponse m)" using wf_response [OF ok] m by (metis fst_conv)
  then have "parse_incoming_packet (fst (append_mac1_and_mac2 c (snd (inc_index ?h)) (fst (inc_index h))
      (packet_bytes (HandshakeResponse m)))) = Inr (HandshakeResponse m)"
    by (intro parse_with_macs [OF ok]) simp_all
  then show ?thesis unfolding format_handshake_response_eq [OF n st] using m
    by (auto simp: Let_def case_prod_beta idx)
qed

section \<open>Timestamps only move forward\<close>

lemma after_irrefl [simp]: "\<not> after a a"
  by (simp add: after_def)

lemma after_trans: "after a b \<Longrightarrow> after b c \<Longrightarrow> after a c"
  by (auto simp: after_def)

lemma not_after_trans: "\<not> after a b \<Longrightarrow> \<not> after b c \<Longrightarrow> \<not> after a c"
  by (auto simp: after_def not_less)

text \<open>The operations that the tunnel performs on a handshake, as one step relation.\<close>

inductive hs_step :: "crypto \<Rightarrow> handshake \<Rightarrow> handshake \<Rightarrow> bool" for c where
  hs_initiate: "format_handshake_initiation c h n w = (r, h', w') \<Longrightarrow> hs_step c h h'"
| hs_receive_init: "receive_handshake_initialization c h p n w = Returns (r', h', w') \<Longrightarrow> hs_step c h h'"
| hs_receive_resp: "receive_handshake_response c h q w = (s, h', w') \<Longrightarrow> hs_step c h h'"
| hs_receive_cookie: "receive_cookie_reply c h k = (u, h') \<Longrightarrow> hs_step c h h'"
| hs_expire: "hs_step c h (set_expired h)"
| hs_clear: "hs_step c h (clear_cookie h)"

lemma format_response_keeps:
  "format_handshake_response c h n w = Returns (r, h', w') \<Longrightarrow>
     params h' = params h \<and> last_handshake_timestamp h' = last_handshake_timestamp h \<and> stamper h' = stamper h"
  using inc_index_params [of "h\<lparr>hs_state := HsNone\<rparr>"]
  by (auto simp: format_handshake_response_eq format_handshake_response_def Let_def case_prod_beta
      split: if_splits handshake_state.splits)

lemma format_initiation_keeps:
  "format_handshake_initiation c h n w = (r, h', w') \<Longrightarrow>
     params h' = params h \<and> last_handshake_timestamp h' = last_handshake_timestamp h \<and> stamper h' = stamper h"
  by (auto simp: format_handshake_initiation_def Let_def case_prod_beta split: if_splits)

text \<open>
  The timestamp an initiation carries under given parameters: it does not depend on the rest of
  the handshake state.
\<close>

definition opened_stamp :: "crypto \<Rightarrow> noise_params \<Rightarrow> handshake_init \<Rightarrow> tai64n option" where
  "opened_stamp c p m =
     (let epub = hi_unencrypted_ephemeral m;
          (hash, ck, key) = noise_static c (static_public p) epub (x25519_dh c (static_private p) epub)
      in case aead_chacha20_open c key 0 (hi_encrypted_static m) hash of
           None \<Rightarrow> None
         | Some static \<Rightarrow>
             if peer_static_public p \<noteq> static then None
             else let (hash, ck, key) = noise_time c hash ck (hi_encrypted_static m) (static_shared p)
               in map_option tai64n_parse (aead_chacha20_open c key 0 (hi_encrypted_timestamp m) hash))"

lemma receive_init_stale:
  assumes "opened_stamp c (params h) m = Some ts" "\<not> after ts (last_handshake_timestamp h)"
  shows "receive_handshake_initialization c h m n w = Returns (Inl WrongTai64nTimestamp, h, w)"
  using assms
  by (auto simp: opened_stamp_def receive_handshake_initialization_eq Let_def case_prod_beta
      split: option.splits if_splits)

lemma receive_init_result:
  assumes "receive_handshake_initialization c h m n w = Returns (r, h', w')"
  shows "(h' = h \<and> isl r) \<or>
    (\<exists>ts. opened_stamp c (params h) m = Some ts \<and> after ts (last_handshake_timestamp h) \<and>
       last_handshake_timestamp h' = ts \<and> params h' = params h)"
  using assms
  by (auto simp: opened_stamp_def receive_handshake_initialization_eq Let_def case_prod_beta
      dest!: format_response_keeps split: option.splits if_splits)

lemma hs_step_forward:
  "hs_step c h h' \<Longrightarrow> params h' = params h \<and> \<not> after (last_handshake_timestamp h) (last_handshake_timestamp h')"
proof (induction rule: hs_step.induct)
  case (hs_initiate h n w r h' w')
  then show ?case using format_initiation_keeps [of c h n w r h' w'] by simp
next
  case (hs_receive_init h p n w r' h' w')
  then show ?case using receive_init_result [of c h p n w r' h' w'] after_trans after_irrefl by blast
next
  case (hs_receive_resp h q w s h' w')
  then show ?case
    by (auto simp: receive_handshake_response_eq Let_def case_prod_beta split: option.splits if_splits)
next
  case (hs_receive_cookie h k u h')
  then show ?case by (auto simp: receive_cookie_reply_def Let_def split: option.splits if_splits)
qed (simp_all add: set_expired_def clear_cookie_def)

lemma hs_steps_forward:
  "(hs_step c)\<^sup>*\<^sup>* h h' \<Longrightarrow> params h' = params h \<and> \<not> after (last_handshake_timestamp h) (last_handshake_timestamp h')"
proof (induction rule: rtranclp_induct)
  case (step y z)
  then show ?case using hs_step_forward [of c y z] not_after_trans by metis
qed simp

section \<open>Session indices and timestamps\<close>

definition bump_index :: "u32 \<Rightarrow> nat \<Rightarrow> u32" where
  "bump_index i k = (i AND NOT 0xff) OR ucast ((ucast i :: u8) + of_nat k)"

lemma ff_mask: "(0xff :: u32) = mask 8"
  by (simp add: mask_eq_exp_minus_1)

lemma bump_index_low: "(ucast (bump_index i k) :: u8) = ucast i + of_nat k"
  by (rule bit_word_eqI) (auto simp: bump_index_def ff_mask bit_simps)

lemma bump_index_high: "bump_index i k AND NOT 0xff = i AND NOT 0xff"
  by (rule bit_word_eqI) (auto simp: bump_index_def ff_mask bit_simps dest: bit_imp_le_length)

lemma bump_index_drop: "drop_bit 8 (bump_index i k) = drop_bit 8 i"
  by (rule bit_word_eqI) (auto simp: bump_index_def ff_mask bit_simps dest: bit_imp_le_length)

lemma inc_index_bump: "fst (inc_index h) = bump_index (next_index h) 1"
  by (simp add: inc_index_def bump_index_def Let_def)

lemma bump_bump: "bump_index (bump_index i j) k = bump_index i (j + k)"
  unfolding bump_index_def [of "bump_index i j"] bump_index_low bump_index_high
  by (simp add: bump_index_def add.assoc)

definition stamp_duration :: "time_stamper \<Rightarrow> world \<Rightarrow> duration" where
  "stamp_duration ts w = duration_since (w_instants w 0) (instant_at_start ts) + duration_at_start ts"

lemma parsed_stamp:
  "tai64n_parse (fst (stamp ts w)) =
     \<lparr>secs = of_nat (as_secs (stamp_duration ts w)) + TAI64_BASE,
      nano = of_nat (subsec_nanos (stamp_duration ts w))\<rparr>"
  by (simp add: tai64n_parse_def stamp_def stamp_duration_def instant_now_def Let_def)

lemma unat_tai_secs: "n < 2 ^ 62 \<Longrightarrow> unat (of_nat n + TAI64_BASE) = n + 2 ^ 62 + 37"
  by (simp add: TAI64_BASE_def unat_word_ariths unat_of_nat_small push_bit_eq_mult)

lemma stamp_order:
  assumes "stamp_duration ts w < stamp_duration ts w'" and "as_secs (stamp_duration ts w') < 2 ^ 62"
  shows "after (tai64n_parse (fst (stamp ts w'))) (tai64n_parse (fst (stamp ts w)))"
proof -
  let ?d = "stamp_duration ts w" and ?d' = "stamp_duration ts w'"
  have le: "as_secs ?d \<le> as_secs ?d'" using assms(1) by (simp add: as_secs_def div_le_mono)
  then have u: "unat (of_nat (as_secs ?d) + TAI64_BASE) = as_secs ?d + 2 ^ 62 + 37"
    "unat (of_nat (as_secs ?d') + TAI64_BASE) = as_secs ?d' + 2 ^ 62 + 37"
    using assms(2) by (intro unat_tai_secs, simp)+
  have n: "unat (of_nat (subsec_nanos x) :: u32) = subsec_nanos x" for x
  proof (rule unat_of_nat_small)
    have "x mod 1000000000 < (1000000000 :: nat)" by simp
    then show "subsec_nanos x < 2 ^ LENGTH(32)" by (simp add: subsec_nanos_def)
  qed
  have "subsec_nanos ?d < subsec_nanos ?d'" if "as_secs ?d = as_secs ?d'"
    using assms(1) that div_mult_mod_eq [of ?d 1000000000] div_mult_mod_eq [of ?d' 1000000000]
    unfolding as_secs_def subsec_nanos_def by linarith
  then show ?thesis using le
    by (auto simp: parsed_stamp after_def word_less_nat_alt u n word_unat_eq_iff)
qed

section \<open>A whole handshake\<close>

lemma handshake_exchange:
  assumes ok: "crypto_ok c" and pq: "paired c (params hi) (params hr)"
    and f: "format_handshake_initiation c hi n w = (Inr dg, hi1, w1)"
    and fresh: "after (initiation_stamp hi w) (last_handshake_timestamp hr)"
    and room: "92 \<le> m"
  shows "\<exists>p dg2 sr hr1 v1 q si hi2 w2.
    parse_incoming_packet dg = Inr (HandshakeInit p) \<and>
    receive_handshake_initialization c hr p m v = Returns (Inr (dg2, sr), hr1, v1) \<and>
    parse_incoming_packet dg2 = Inr (HandshakeResponse q) \<and>
    receive_handshake_response c hi1 q w1 = (Inr si, hi2, w2) \<and>
    crossed si sr \<and> crossed sr si \<and>
    sending_key_counter si = 0 \<and> sending_key_counter sr = 0 \<and>
    receiving_key_counter si = rk_default \<and> receiving_key_counter sr = rk_default"
proof -
  let ?idx = "fst (inc_index hi)"
  have p: "params_ok c (params hi)" using pq by (simp add: paired_def)
  obtain esk ts t where ts: "tai64n_parse ts = initiation_stamp hi w"
    and dg: "parse_incoming_packet dg = Inr (HandshakeInit (initiation c (params hi) ?idx esk ts))"
    and h1: "params hi1 = params hi" "hs_state hi1 = InitSent (init_sent c (params hi) ?idx esk ts t)"
    using formatted_initiation [OF ok p f] by (auto simp: Let_def)
  let ?st = "init_sent c (params hi) ?idx esk ts t"
  let ?hr = "hr\<lparr>last_handshake_timestamp := tai64n_parse ts, previous := hs_state hr,
    hs_state := InitReceived (is_hash ?st) (is_chaining_key ?st) (x25519_public c esk) ?idx\<rparr>"
  have rcv: "receive_handshake_initialization c hr (initiation c (params hi) ?idx esk ts) m v =
      format_handshake_response c ?hr m v"
    by (rule receive_initiation [OF ok pq]) (simp add: fresh ts)
  obtain dg2 q sr resk hr1 v1 where resp: "format_handshake_response c ?hr m v = Returns (Inr (dg2, sr), hr1, v1)"
    "parse_incoming_packet dg2 = Inr (HandshakeResponse q)"
    "response c (is_hash ?st) (is_chaining_key ?st) (params hr) (x25519_public c esk) (fst (inc_index ?hr)) ?idx resk = (q, sr)"
    using formatted_response [OF ok, of m ?hr] room by fastforce
  have "awaiting_response hi1 ?idx = Some (?st, False)" by (simp add: awaiting_response_def h1)
  then have "\<exists>hi2 w2. receive_handshake_response c hi1 q w1 =
      (Inr (session_new ?idx (fst (inc_index ?hr)) (sender sr) (receiver sr)), hi2, w2)"
    using receive_response [OF ok _ _ _ _ resp(3), of hi1 False w1] pq h1 by simp
  then show ?thesis using dg rcv resp response_session [OF resp(3)]
    by (fastforce simp: crossed_def session_new_def)
qed

section \<open>Properties\<close>

text \<open>
  C2: Agreement. When two ends know each other's keys, an initiation formatted by one, whose
  timestamp is later than the last one the other accepted, is accepted by the other; its response
  is accepted by the first; and the two resulting sessions are crossed: each one's sending key and
  index are the other's receiving key and index, with fresh counters and windows.
\<close>

theorem handshake_agreement:
  assumes "crypto_ok c" and "paired c (params hi) (params hr)"
    and "format_handshake_initiation c hi n w = (Inr dg, hi1, w1)"
    and "after (initiation_stamp hi w) (last_handshake_timestamp hr)"
    and "92 \<le> m"
  shows "\<exists>p dg2 sr hr1 v1 q si hi2 w2.
    parse_incoming_packet dg = Inr (HandshakeInit p) \<and>
    receive_handshake_initialization c hr p m v = Returns (Inr (dg2, sr), hr1, v1) \<and>
    parse_incoming_packet dg2 = Inr (HandshakeResponse q) \<and>
    receive_handshake_response c hi1 q w1 = (Inr si, hi2, w2) \<and>
    crossed si sr \<and> crossed sr si \<and>
    sending_key_counter si = 0 \<and> sending_key_counter sr = 0 \<and>
    receiving_key_counter si = rk_default \<and> receiving_key_counter sr = rk_default"
  by (rule handshake_exchange [OF assms])

definition demo_world :: world where
  "demo_world = \<lparr>w_instants = (\<lambda>k. \<lparr>tv_sec = 100 + int k, tv_nsec = 0\<rparr>),
     w_system = (\<lambda>k. from_secs 1700000000), w_random = (\<lambda>k. of_nat (k + 1))\<rparr>"

definition demo_keys :: "bytes \<times> bytes" where
  "demo_keys = (replicate 32 3, replicate 32 5)"

definition demo_end :: "bytes \<Rightarrow> bytes \<Rightarrow> u32 \<Rightarrow> handshake" where
  "demo_end sk peer_sk idx =
     fst (handshake_new demo_crypto sk (x25519_public demo_crypto sk) (x25519_public demo_crypto peer_sk) idx
       None demo_world)"

lemma demo_paired: "paired demo_crypto (params (demo_end a b i)) (params (demo_end b a j))"
  by (simp add: paired_def demo_end_def handshake_new_def case_prod_beta Let_def) (simp add: noise_params_new_def)

lemma demo_end_stamp:
  "last_handshake_timestamp (demo_end a b i) = tai64n_zero \<and>
   stamp_duration (stamper (demo_end a b i)) (snd (fill_bytes 32 demo_world)) = from_secs 1700000000"
  by (simp add: demo_end_def handshake_new_def stamper_new_def stamp_duration_def demo_world_def fill_bytes_def
      instant_now_def system_now_def duration_since_def checked_duration_since_def duration_new_def Let_def)

lemma demo_fresh:
  "after (initiation_stamp (demo_end a b i) demo_world) (last_handshake_timestamp (demo_end b a j))"
proof -
  have "unat (of_nat (as_secs (from_secs 1700000000)) + TAI64_BASE) = 1700000000 + 2 ^ 62 + 37"
    by (subst unat_tai_secs) (simp_all add: as_secs_def from_secs_def)
  then show ?thesis using demo_end_stamp [of a b i] demo_end_stamp [of b a j]
    by (auto simp: initiation_stamp_def parsed_stamp after_def tai64n_zero_def word_less_nat_alt)
qed

theorem handshake_agreement_witness:
  "\<exists>dg hi1 w1 p dg2 sr hr1 v1 q si hi2 w2.
     format_handshake_initiation demo_crypto (demo_end (replicate 32 3) (replicate 32 5) 0x100) 148 demo_world =
       (Inr dg, hi1, w1) \<and>
     parse_incoming_packet dg = Inr (HandshakeInit p) \<and>
     receive_handshake_initialization demo_crypto (demo_end (replicate 32 5) (replicate 32 3) 0x700) p 92 demo_world =
       Returns (Inr (dg2, sr), hr1, v1) \<and>
     parse_incoming_packet dg2 = Inr (HandshakeResponse q) \<and>
     receive_handshake_response demo_crypto hi1 q w1 = (Inr si, hi2, w2) \<and>
     crossed si sr \<and> crossed sr si"
proof -
  let ?hi = "demo_end (replicate 32 3) (replicate 32 5) 0x100"
  obtain dg hi1 w1 where f: "format_handshake_initiation demo_crypto ?hi 148 demo_world = (Inr dg, hi1, w1)"
    by (simp add: format_handshake_initiation_eq Let_def case_prod_beta)
  show ?thesis
    using handshake_agreement [where hr = "demo_end (replicate 32 5) (replicate 32 3) 0x700" and v = demo_world,
        OF demo_crypto_ok demo_paired f demo_fresh order_refl] f
    by blast
qed

text \<open>
  C12: A replayed initiation is rejected for good. After a handshake accepted an initiation, and
  whatever handshake operations follow, the same initiation is answered with
  \<open>WrongTai64nTimestamp\<close> and leaves the handshake untouched.
\<close>

theorem replayed_initiation_rejected:
  assumes "receive_handshake_initialization c h m n w = Returns (Inr r, h1, w1)"
    and "(hs_step c)\<^sup>*\<^sup>* h1 h2"
  shows "receive_handshake_initialization c h2 m n2 w2 = Returns (Inl WrongTai64nTimestamp, h2, w2)"
  using receive_init_result [OF assms(1)] hs_steps_forward [OF assms(2)] receive_init_stale by auto

theorem replayed_initiation_rejected_witness:
  "\<exists>m r h1 w1. receive_handshake_initialization demo_crypto (demo_end (replicate 32 5) (replicate 32 3) 0x700)
      m 92 demo_world = Returns (Inr r, h1, w1) \<and>
    receive_handshake_initialization demo_crypto (set_expired h1) m 92 w1 =
      Returns (Inl WrongTai64nTimestamp, set_expired h1, w1)"
proof -
  obtain m r h1 w1 where a: "receive_handshake_initialization demo_crypto
      (demo_end (replicate 32 5) (replicate 32 3) 0x700) m 92 demo_world = Returns (Inr r, h1, w1)"
  proof -
    let ?hr = "demo_end (replicate 32 5) (replicate 32 3) 0x700"
    let ?hi = "demo_end (replicate 32 3) (replicate 32 5) 0x100"
    let ?ts = "fst (stamp (stamper ?hi) (snd (fill_bytes 32 demo_world)))"
    have "after (tai64n_parse ?ts) (last_handshake_timestamp ?hr)"
      using demo_fresh by (simp add: initiation_stamp_def)
    note r = receive_initiation [OF demo_crypto_ok demo_paired this]
    show ?thesis by (rule that, subst r, simp add: format_handshake_response_eq Let_def case_prod_beta)
  qed
  show ?thesis using a replayed_initiation_rejected [OF a, of "set_expired h1" 92 w1]
      r_into_rtranclp [of "hs_step demo_crypto", OF hs_expire] by blast
qed

text \<open>
  Session indices. The k-th index after a handshake's start keeps the upper 24 bits (the peer
  index) and has the low byte of the start plus k, so the peer index of a session is recovered by
  a shift and the indices of 256 consecutive handshakes are distinct.
\<close>

lemma session_index_layout:
  "next_index (((\<lambda>h. snd (inc_index h)) ^^ k) h) = bump_index (next_index h) k \<and>
   drop_bit 8 (bump_index (next_index h) k) = drop_bit 8 (next_index h) \<and>
   (i < 256 \<and> j < 256 \<and> bump_index (next_index h) i = bump_index (next_index h) j \<longrightarrow> i = j)"
proof -
  have "i = j" if "i < 256" "j < 256" "bump_index (next_index h) i = bump_index (next_index h) j"
  proof -
    have eq: "(of_nat i :: u8) = of_nat j"
      using arg_cong [OF that(3), of "ucast :: u32 \<Rightarrow> u8"] by (simp add: bump_index_low)
    have "i = unat (of_nat i :: u8)" using that(1) by (intro unat_of_nat_small [symmetric]) simp
    also have "\<dots> = j" unfolding eq using that(2) by (intro unat_of_nat_small) simp
    finally show ?thesis .
  qed
  moreover have "next_index (((\<lambda>h. snd (inc_index h)) ^^ k) h) = bump_index (next_index h) k"
  proof (induction k)
    case 0
    show ?case
      by (simp add: bump_index_def, rule bit_word_eqI) (auto simp: ff_mask bit_simps)
  next
    case (Suc k)
    then show ?case by (simp add: inc_index_bump bump_bump)
  qed
  ultimately show ?thesis by (simp add: bump_index_drop)
qed

text \<open>
  Timestamps increase. Two readings of the same stamper whose elapsed times differ, even by one
  nanosecond, give timestamps of which the later is \<open>after\<close> the earlier, up to 2^62 seconds.
\<close>

lemma later_stamp_is_after:
  assumes "duration_since (w_instants w 0) (instant_at_start ts) < duration_since (w_instants w' 0) (instant_at_start ts)"
    and "as_secs (duration_since (w_instants w' 0) (instant_at_start ts) + duration_at_start ts) < 2 ^ 62"
  shows "after (tai64n_parse (fst (stamp ts w'))) (tai64n_parse (fst (stamp ts w)))"
  using stamp_order [of ts w w'] assms by (simp add: stamp_duration_def)

end
