(* ===== verification/Rate_Limiter.thy ===== *)
theory Rate_Limiter
  imports Handshake
begin

text \<open>
  \<open>boringtun/src/noise/rate_limiter.rs\<close>: the MAC checks and the load limit that every incoming
  handshake message passes before it costs a Diffie-Hellman computation, and the cookie replies.
  The atomic counters are machine words; the operations return the updated limiter.
\<close>

datatype tunn_result =
    Done
  | TErr wire_guard_error
  | WriteToNetwork bytes
  | WriteToTunnelV4 bytes u32
  | WriteToTunnelV6 bytes "128 word"

record rate_limiter =
  nonce_key :: bytes
  secret_key :: bytes
  rl_start_time :: time_spec
  nonce_ctr :: u64
  mac1_key :: bytes
  cookie_key :: bytes
  rl_limit :: u64
  rl_count :: u64
  last_reset :: time_spec

definition COOKIE_REFRESH :: nat where "COOKIE_REFRESH = 128"
definition RESET_PERIOD :: nat where "RESET_PERIOD = 1"

definition rate_limiter_new :: "crypto \<Rightarrow> bytes \<Rightarrow> u64 \<Rightarrow> world \<Rightarrow> rate_limiter \<times> world" where
  "rate_limiter_new c pk lim w =
     (let (secret, w) = fill_bytes 16 w;
          (nk, w) = fill_bytes 32 w;
          (start, w) = instant_now w;
          (reset, w) = instant_now w
      in (\<lparr>nonce_key = nk, secret_key = secret, rl_start_time = start, nonce_ctr = 0,
           mac1_key = b2s_hash c LABEL_MAC1 pk, cookie_key = b2s_hash c LABEL_COOKIE pk,
           rl_limit = lim, rl_count = 0, last_reset = reset\<rparr>, w))"

definition reset_count :: "rate_limiter \<Rightarrow> world \<Rightarrow> rate_limiter \<times> world" where
  "reset_count rl w =
     (let (current_time, w) = instant_now w
      in (if RESET_PERIOD \<le> as_secs (duration_since current_time (last_reset rl))
          then rl\<lparr>rl_count := 0, last_reset := current_time\<rparr> else rl, w))"

primrec addr_bytes :: "ip_addr \<Rightarrow> bytes" where
  "addr_bytes (V4 a) = be_bytes 4 a @ replicate 12 0"
| "addr_bytes (V6 a) = be_bytes 16 a"

definition current_cookie :: "crypto \<Rightarrow> rate_limiter \<Rightarrow> ip_addr \<Rightarrow> world \<Rightarrow> bytes \<times> world" where
  "current_cookie c rl addr w =
     (let (now, w) = instant_now w;
          cur_counter = as_secs (duration_since now (rl_start_time rl)) div COOKIE_REFRESH
      in (b2s_keyed_mac_16_2 c (secret_key rl) (le64 (of_nat cur_counter)) (addr_bytes addr), w))"

definition rl_nonce :: "crypto \<Rightarrow> rate_limiter \<Rightarrow> bytes \<times> rate_limiter" where
  "rl_nonce c rl = (b2s_mac_24 c (nonce_key rl) (le64 (nonce_ctr rl)), rl\<lparr>nonce_ctr := nonce_ctr rl + 1\<rparr>)"

definition is_under_load :: "rate_limiter \<Rightarrow> bool \<times> rate_limiter" where
  "is_under_load rl = (rl_limit rl \<le> rl_count rl, rl\<lparr>rl_count := rl_count rl + 1\<rparr>)"

definition format_cookie_reply ::
  "crypto \<Rightarrow> rate_limiter \<Rightarrow> u32 \<Rightarrow> bytes \<Rightarrow> bytes \<Rightarrow> nat \<Rightarrow> (wire_guard_error + bytes) \<times> rate_limiter" where
  "format_cookie_reply c rl idx cookie mac1 dst_len =
     (if dst_len < COOKIE_REPLY_SZ then (Inl DestinationBufferTooSmall, rl)
      else
        let (nonce, rl) = rl_nonce c rl;
            (ct, tag) = xchacha_encrypt c (cookie_key rl) nonce mac1 cookie
        in (Inr (le32 COOKIE_REPLY @ le32 idx @ nonce @ ct @ tag), rl))"

text \<open>The sender index of a handshake message, which is what the limiter looks at.\<close>

definition handshake_sender :: "packet \<Rightarrow> u32 option" where
  "handshake_sender p =
     (case p of
        HandshakeInit i \<Rightarrow> Some (hi_sender_idx i)
      | HandshakeResponse r \<Rightarrow> Some (hr_sender_idx r)
      | _ \<Rightarrow> None)"

definition verify_packet ::
  "crypto \<Rightarrow> rate_limiter \<Rightarrow> ip_addr option \<Rightarrow> bytes \<Rightarrow> nat \<Rightarrow> world \<Rightarrow>
     (tunn_result + packet) \<times> rate_limiter \<times> world" where
  "verify_packet c rl src_addr src dst_len w =
     (case parse_incoming_packet src of
        Inl e \<Rightarrow> (Inl (TErr e), rl, w)
      | Inr packet \<Rightarrow>
          (case handshake_sender packet of
             None \<Rightarrow> (Inr packet, rl, w)
           | Some sender_idx \<Rightarrow>
               let msg = take (length src - 32) src;
                   macs = drop (length src - 32) src;
                   mac1 = take 16 macs;
                   mac2 = drop 16 macs;
                   computed_mac1 = b2s_keyed_mac_16 c (mac1_key rl) msg
               in if take 16 computed_mac1 \<noteq> mac1 then (Inl (TErr InvalidMac), rl, w)
                  else
                    let (under_load, rl) = is_under_load rl in
                    if \<not> under_load then (Inr packet, rl, w)
                    else
                      case src_addr of
                        None \<Rightarrow> (Inl (TErr UnderLoad), rl, w)
                      | Some addr \<Rightarrow>
                          let (cookie, w) = current_cookie c rl addr w;
                              computed_mac2 = b2s_keyed_mac_16_2 c cookie msg mac1
                          in if take 16 computed_mac2 \<noteq> mac2
                             then (case format_cookie_reply c rl sender_idx cookie mac1 dst_len of
                                     (Inl e, rl) \<Rightarrow> (Inl (TErr e), rl, w)
                                   | (Inr cookie_packet, rl) \<Rightarrow> (Inl (WriteToNetwork cookie_packet), rl, w))
                             else (Inr packet, rl, w)))"

section \<open>What the limiter lets through\<close>

text \<open>A message whose first MAC was computed for this limiter's public key.\<close>

definition mac1_valid :: "crypto \<Rightarrow> rate_limiter \<Rightarrow> bytes \<Rightarrow> bool" where
  "mac1_valid c rl src \<longleftrightarrow>
     b2s_keyed_mac_16 c (mac1_key rl) (take (length src - 32) src) = take 16 (drop (length src - 32) src)"

lemma handshake_length:
  "parse_incoming_packet src = Inr p \<Longrightarrow> handshake_sender p \<noteq> None \<Longrightarrow> 32 \<le> length src"
  using parse_incoming_packet_sound [of src p]
  by (cases p) (auto simp: handshake_sender_def)

lemma take16_mac: "crypto_ok c \<Longrightarrow> take 16 (b2s_keyed_mac_16 c k x) = b2s_keyed_mac_16 c k x"
  "crypto_ok c \<Longrightarrow> take 16 (b2s_keyed_mac_16_2 c k x y) = b2s_keyed_mac_16_2 c k x y"
  by (simp_all add: crypto_ok_lengths)

lemma verify_no_load:
  assumes "crypto_ok c" "parse_incoming_packet src = Inr p" "handshake_sender p = Some i" "rl_count rl < rl_limit rl"
  shows "verify_packet c rl a src n w =
    (if mac1_valid c rl src then (Inr p, rl\<lparr>rl_count := rl_count rl + 1\<rparr>, w) else (Inl (TErr InvalidMac), rl, w))"
  using assms
  by (auto simp: verify_packet_def mac1_valid_def is_under_load_def Let_def take16_mac)

lemma verify_no_addr:
  assumes "crypto_ok c" "parse_incoming_packet src = Inr p" "handshake_sender p = Some i"
  shows "verify_packet c rl None src n w =
    (if \<not> mac1_valid c rl src then (Inl (TErr InvalidMac), rl, w)
     else (if rl_count rl < rl_limit rl then Inr p else Inl (TErr UnderLoad), rl\<lparr>rl_count := rl_count rl + 1\<rparr>, w))"
  using assms
  by (auto simp: verify_packet_def mac1_valid_def is_under_load_def Let_def take16_mac)

lemma verify_passes_others:
  "parse_incoming_packet src = Inr p \<Longrightarrow> handshake_sender p = None \<Longrightarrow> verify_packet c rl a src n w = (Inr p, rl, w)"
  by (simp add: verify_packet_def)

text \<open>The message a handshake formats carries the first MAC its peer's limiter computes.\<close>

lemma appended_mac1_valid:
  assumes "crypto_ok c" "sending_mac1_key (params h) = mac1_key rl"
  shows "mac1_valid c rl (fst (append_mac1_and_mac2 c h i msg))"
proof -
  obtain mac2 where m: "fst (append_mac1_and_mac2 c h i msg) =
      msg @ b2s_keyed_mac_16 c (mac1_key rl) msg @ mac2" "length mac2 = 16"
    using assms by (auto simp: append_mac1_and_mac2_def Let_def crypto_ok_lengths split: option.splits)
  then show ?thesis using assms by (simp add: mac1_valid_def crypto_ok_lengths)
qed

text \<open>What the limiter decides under load when the source address is known.\<close>

lemma verify_under_load:
  assumes ok: "crypto_ok c" and p: "parse_incoming_packet src = Inr p" and i: "handshake_sender p = Some i"
    and m1: "mac1_valid c rl src" and load: "rl_limit rl \<le> rl_count rl" and n: "COOKIE_REPLY_SZ \<le> n"
  shows "verify_packet c rl (Some addr) src n w =
    (let rl1 = rl\<lparr>rl_count := rl_count rl + 1\<rparr>;
         (cookie, w1) = current_cookie c rl addr w;
         (nonce, rl2) = rl_nonce c rl1;
         body = take (length src - 16) src;
         (ct, tag) = xchacha_encrypt c (cookie_key rl) nonce (drop (length src - 32) body) cookie
     in if b2s_keyed_mac_16 c cookie body = drop (length src - 16) src then (Inr p, rl1, w1)
        else (Inl (WriteToNetwork (packet_bytes (PacketCookieReply
          \<lparr>cr_receiver_idx = i, cr_nonce = nonce, cr_encrypted_cookie = ct @ tag\<rparr>))), rl2, w1))"
proof -
  have len: "32 \<le> length src" using handshake_length [OF p] i by simp
  have body: "take (length src - 32) src @ take 16 (drop (length src - 32) src) = take (length src - 16) src"
    using take_add [of "length src - 32" 16 src] len by simp
  have mac1: "drop (length src - 32) (take (length src - 16) src) = take 16 (drop (length src - 32) src)"
    using len by (simp add: drop_take)
  have mac: "take 16 (blake2s_mac16 c k x) = blake2s_mac16 c k x" for k x
    using ok by (simp add: crypto_ok_def)
  show ?thesis using m1 load n len
    by (simp add: verify_packet_def mac p i mac1_valid_def is_under_load_def take16_mac [OF ok] current_cookie_def
        format_cookie_reply_def rl_nonce_def b2s_keyed_mac_16_2_def [of c _ "take (length src - 32) src"]
        b2s_keyed_mac_16_def [of c _ "take (length src - 16) src"] body mac1 Let_def case_prod_beta)
qed

section \<open>The cookie exchange\<close>

text \<open>The limiter of the end a handshake talks to.\<close>

definition limiter_of_peer :: "crypto \<Rightarrow> handshake \<Rightarrow> rate_limiter \<Rightarrow> bool" where
  "limiter_of_peer c h rl \<longleftrightarrow> sending_mac1_key (params h) = mac1_key rl \<and>
     cookie_key rl = b2s_hash c LABEL_COOKIE (peer_static_public (params h))"

lemma appended_split:
  assumes "crypto_ok c"
  shows "\<exists>mac2. length mac2 = 16 \<and> fst (append_mac1_and_mac2 c h i msg) =
      (msg @ b2s_keyed_mac_16 c (sending_mac1_key (params h)) msg) @ mac2 \<and>
    (\<forall>ck. write_cookie (hs_cookies h) = Some ck \<longrightarrow>
       mac2 = b2s_keyed_mac_16 c ck (msg @ b2s_keyed_mac_16 c (sending_mac1_key (params h)) msg))"
  using assms by (auto simp: append_mac1_and_mac2_def Let_def crypto_ok_lengths split: option.splits)

lemma appended_cookie_state:
  "hs_cookies (snd (append_mac1_and_mac2 c h i msg)) =
     (hs_cookies h)\<lparr>ck_index := i, last_mac1 := Some (b2s_keyed_mac_16 c (sending_mac1_key (params h)) msg)\<rparr>"
  by (simp add: append_mac1_and_mac2_def Let_def)

lemma length_current_cookie: "crypto_ok c \<Longrightarrow> length (fst (current_cookie c rl addr w)) = 16"
  by (simp add: current_cookie_def Let_def case_prod_beta crypto_ok_lengths)

text \<open>The sender of a message that was answered with a cookie reply learns the cookie.\<close>

lemma cookie_reply_accepted:
  assumes ok: "crypto_ok c" and peer: "limiter_of_peer c h rl" and len: "length cookie = 16"
    and h1: "snd (append_mac1_and_mac2 c h i msg) = h1"
    and enc: "xchacha_encrypt c (cookie_key rl) nonce (b2s_keyed_mac_16 c (sending_mac1_key (params h)) msg) cookie = (ct, tag)"
  shows "receive_cookie_reply c h1 \<lparr>cr_receiver_idx = i, cr_nonce = nonce, cr_encrypted_cookie = ct @ tag\<rparr> =
    (Inr (), h1\<lparr>hs_cookies := (hs_cookies h1)\<lparr>write_cookie := Some cookie\<rparr>\<rparr>)"
proof -
  let ?m = "b2s_keyed_mac_16 c (sending_mac1_key (params h)) msg"
  have x: "length ct = 16" "length tag = 16" "xchacha_decrypt c (cookie_key rl) nonce ?m ct tag = Some cookie"
    using xchacha_laws [OF ok, of "cookie_key rl" nonce ?m cookie] enc len by simp_all
  have "params h1 = params h" using h1 append_mac_fields(1) by metis
  then show ?thesis using x peer len appended_cookie_state [of c h i msg] h1
    by (simp add: receive_cookie_reply_def limiter_of_peer_def Let_def)
qed

lemma cookie_reply_sent:
  assumes ok: "crypto_ok c" and peer: "limiter_of_peer c h rl" and n: "COOKIE_REPLY_SZ \<le> n"
    and m: "append_mac1_and_mac2 c h i msg = (dg, h1)"
    and p: "parse_incoming_packet dg = Inr p" "handshake_sender p = Some i"
    and v: "verify_packet c rl (Some addr) dg n w = (Inl (WriteToNetwork r), rl1, w1)"
  shows "\<exists>k. parse_incoming_packet r = Inr (PacketCookieReply k) \<and>
    receive_cookie_reply c h1 k =
      (Inr (), h1\<lparr>hs_cookies := (hs_cookies h1)\<lparr>write_cookie := Some (fst (current_cookie c rl addr w))\<rparr>\<rparr>) \<and>
    secret_key rl1 = secret_key rl \<and> rl_start_time rl1 = rl_start_time rl \<and> limiter_of_peer c h1 rl1 \<and>
    rl_limit rl1 = rl_limit rl"
proof -
  let ?m = "b2s_keyed_mac_16 c (sending_mac1_key (params h)) msg"
  let ?ck = "fst (current_cookie c rl addr w)"
  let ?rl = "rl\<lparr>rl_count := rl_count rl + 1\<rparr>"
  let ?nonce = "fst (rl_nonce c ?rl)"
  obtain mac2 where dg: "dg = (msg @ ?m) @ mac2" "length mac2 = 16"
    using appended_split [OF ok, of h i msg] m by auto
  have m1: "mac1_valid c rl dg" using appended_mac1_valid [OF ok, of h rl i msg] peer m
    by (simp add: limiter_of_peer_def)
  have load: "rl_limit rl \<le> rl_count rl"
    using v verify_no_load [OF ok p, of rl "Some addr" n w] by (auto simp: not_less [symmetric] split: if_splits)
  have lm: "length ?m = 16" by (simp add: crypto_ok_lengths [OF ok])
  obtain ct tag where enc: "xchacha_encrypt c (cookie_key rl) ?nonce ?m ?ck = (ct, tag)" by fastforce
  have body: "drop (length dg - 32) (take (length dg - 16) dg) = ?m" using lm by (simp add: dg)
  have r: "r = packet_bytes (PacketCookieReply \<lparr>cr_receiver_idx = i, cr_nonce = ?nonce, cr_encrypted_cookie = ct @ tag\<rparr>)"
    and rl1: "rl1 = snd (rl_nonce c ?rl)"
    using v unfolding verify_under_load [OF ok p m1 load n]
    by (auto simp: Let_def case_prod_beta body enc split: if_splits)
  have lens: "length ct = 16" "length tag = 16" "length ?nonce = 24"
    using xchacha_laws(1,2) [OF ok, of "cookie_key rl" ?nonce ?m ?ck] enc length_current_cookie [OF ok]
    by (simp_all add: rl_nonce_def crypto_ok_lengths [OF ok])
  have h1: "snd (append_mac1_and_mac2 c h i msg) = h1" using m by simp
  then have "params h1 = params h" using append_mac_fields(1) by metis
  moreover have "parse_incoming_packet r =
      Inr (PacketCookieReply \<lparr>cr_receiver_idx = i, cr_nonce = ?nonce, cr_encrypted_cookie = ct @ tag\<rparr>)"
    unfolding r by (rule parse_packet_bytes [where m = "[]", simplified]) (simp_all add: lens)
  ultimately show ?thesis
    using cookie_reply_accepted [OF ok peer length_current_cookie [OF ok] h1 enc] peer
    by (auto simp: rl1 rl_nonce_def limiter_of_peer_def)
qed

section \<open>Counting\<close>

text \<open>Datagrams that reach the limiter one after the other with no address and no reset.\<close>

fun verify_all :: "crypto \<Rightarrow> rate_limiter \<Rightarrow> bytes list \<Rightarrow> nat \<Rightarrow> world \<Rightarrow> packet list" where
  "verify_all c rl [] n w = []"
| "verify_all c rl (src # srcs) n w =
     (case verify_packet c rl None src n w of
        (Inr p, rl', w') \<Rightarrow> p # verify_all c rl' srcs n w'
      | (Inl _, rl', w') \<Rightarrow> verify_all c rl' srcs n w')"

definition is_handshake :: "packet \<Rightarrow> bool" where
  "is_handshake p \<longleftrightarrow> handshake_sender p \<noteq> None"

lemma verify_all_bounded:
  "crypto_ok c \<Longrightarrow> unat (rl_count rl) + length srcs < 2 ^ 64 \<Longrightarrow>
     length (filter is_handshake (verify_all c rl srcs n w)) \<le> unat (rl_limit rl) - unat (rl_count rl)"
proof (induction srcs arbitrary: rl w)
  case Nil
  then show ?case by simp
next
  case (Cons src srcs)
  show ?case
  proof (cases "parse_incoming_packet src")
    case (Inl e)
    then show ?thesis using Cons by (simp add: verify_packet_def)
  next
    case (Inr p)
    show ?thesis
    proof (cases "handshake_sender p")
      case None
      then show ?thesis using Cons verify_passes_others [OF Inr None] by (simp add: is_handshake_def)
    next
      case (Some i)
      let ?rl = "rl\<lparr>rl_count := rl_count rl + 1\<rparr>"
      have "unat (rl_count ?rl) = unat (rl_count rl) + 1" using Cons.prems by (simp add: unat_word_ariths)
      then have "length (filter is_handshake (verify_all c ?rl srcs n w)) \<le>
          unat (rl_limit rl) - (unat (rl_count rl) + 1)"
        using Cons.IH [of ?rl w] Cons.prems by simp
      moreover have "is_handshake p" using Some by (simp add: is_handshake_def)
      ultimately show ?thesis using Cons.IH [of rl w] Cons.prems verify_no_addr [OF Cons.prems(1) Inr Some, of rl n w]
        by (auto simp: word_less_nat_alt)
    qed
  qed
qed

section \<open>Properties\<close>

text \<open>
  C14: The cookie exchange works. When a handshake message formatted by one end is answered under
  load with a cookie reply, the sender accepts the reply; and any handshake message it formats
  after that, verified for the same address within the same 128-second period, passes the limiter
  however loaded it is.
\<close>

theorem cookie_lets_sender_through:
  assumes ok: "crypto_ok c" and peer: "limiter_of_peer c h rl" and n: "64 \<le> n"
    and m: "append_mac1_and_mac2 c h i msg = (dg, h1)"
    and p: "parse_incoming_packet dg = Inr p" "handshake_sender p = Some i"
    and v: "verify_packet c rl (Some addr) dg n w = (Inl (WriteToNetwork r), rl1, w1)"
    and m2: "parse_incoming_packet (msg2 @ macs) = Inr p2" "handshake_sender p2 = Some j" "length macs = 32"
    and period: "as_secs (duration_since (fst (instant_now w2)) (rl_start_time rl)) div 128 =
      as_secs (duration_since (fst (instant_now w)) (rl_start_time rl)) div 128"
  shows "\<exists>k h2. parse_incoming_packet r = Inr (PacketCookieReply k) \<and> receive_cookie_reply c h1 k = (Inr (), h2) \<and>
    (\<exists>p3 rl2 w3. verify_packet c (rl1\<lparr>rl_count := load\<rparr>) (Some addr)
       (fst (append_mac1_and_mac2 c h2 j msg2)) n w2 = (Inr p3, rl2, w3))"
proof -
  let ?ck = "fst (current_cookie c rl addr w)"
  let ?h2 = "h1\<lparr>hs_cookies := (hs_cookies h1)\<lparr>write_cookie := Some ?ck\<rparr>\<rparr>"
  let ?rl = "rl1\<lparr>rl_count := load\<rparr>"
  obtain k where k: "parse_incoming_packet r = Inr (PacketCookieReply k)" "receive_cookie_reply c h1 k = (Inr (), ?h2)"
    and rl1: "secret_key rl1 = secret_key rl" "rl_start_time rl1 = rl_start_time rl" "limiter_of_peer c h1 rl1"
    using cookie_reply_sent [OF ok peer _ m p v] n by auto
  let ?dg = "fst (append_mac1_and_mac2 c ?h2 j msg2)"
  let ?m = "b2s_keyed_mac_16 c (sending_mac1_key (params h1)) msg2"
  have dg: "?dg = (msg2 @ ?m) @ b2s_keyed_mac_16 c ?ck (msg2 @ ?m)"
    using appended_split [OF ok, of ?h2 j msg2] by auto
  have lens: "length ?m = 16" "length (b2s_keyed_mac_16 c ?ck (msg2 @ ?m)) = 16"
    by (simp_all add: crypto_ok_lengths [OF ok])
  obtain p3 where p3: "parse_incoming_packet ?dg = Inr p3" "handshake_sender p3 = Some j"
  proof -
    obtain ms where "msg2 @ macs = packet_bytes p2 @ ms" "wf_packet p2" "length ms = mac_len p2"
      using parse_incoming_packet_sound [OF m2(1)] by blast
    moreover have "mac_len p2 = 32" using m2(2) by (cases p2) (auto simp: handshake_sender_def)
    ultimately have "msg2 = packet_bytes p2" "wf_packet p2" "mac_len p2 = 32" using m2(3) by auto
    then show ?thesis using that [of p2] m2(2) parse_packet_bytes [of p2 "?m @ b2s_keyed_mac_16 c ?ck (msg2 @ ?m)"]
      lens dg by simp
  qed
  have v1: "mac1_valid c ?rl ?dg"
    using appended_mac1_valid [OF ok, of ?h2 ?rl j msg2] rl1(3) by (simp add: limiter_of_peer_def)
  have ck: "fst (current_cookie c ?rl addr w2) = ?ck"
    using period rl1 by (simp add: current_cookie_def Let_def case_prod_beta COOKIE_REFRESH_def)
  have "\<exists>p3 rl2 w3. verify_packet c ?rl (Some addr) ?dg n w2 = (Inr p3, rl2, w3)"
  proof (cases "rl_count ?rl < rl_limit ?rl")
    case True
    then show ?thesis using verify_no_load [OF ok p3] v1 by auto
  next
    case False
    then have load: "rl_limit ?rl \<le> rl_count ?rl" by simp
    have "take (length ?dg - 16) ?dg = msg2 @ ?m" "drop (length ?dg - 16) ?dg = b2s_keyed_mac_16 c ?ck (msg2 @ ?m)"
      using lens by (simp_all add: dg)
    then show ?thesis using verify_under_load [OF ok p3 v1 load, of n addr w2] n ck
      by (simp add: Let_def case_prod_beta)
  qed
  then show ?thesis using k by blast
qed

text \<open>A limiter that is always loaded, and an initiation of the end that talks to it.\<close>

definition demo_limiter :: "u64 \<Rightarrow> rate_limiter" where
  "demo_limiter lim = fst (rate_limiter_new demo_crypto (x25519_public demo_crypto (replicate 32 5)) lim demo_world)"

definition demo_client :: handshake where
  "demo_client = demo_end (replicate 32 3) (replicate 32 5) 0x100"

definition demo_init :: packet where
  "demo_init = HandshakeInit (initiation demo_crypto (params demo_client) 0x101 (replicate 32 8) (replicate 12 1))"

definition demo_msg :: bytes where
  "demo_msg = fst (append_mac1_and_mac2 demo_crypto demo_client 0x101 (packet_bytes demo_init))"

lemma demo_limiter_of_peer: "limiter_of_peer demo_crypto demo_client (demo_limiter lim)"
  by (simp add: limiter_of_peer_def demo_limiter_def demo_client_def rate_limiter_new_def demo_end_def handshake_new_def
      noise_params_new_def Let_def case_prod_beta)

lemma demo_init_wf: "wf_packet demo_init" "mac_len demo_init = 32" "handshake_sender demo_init = Some 0x101"
proof -
  have "length (static_public (params demo_client)) = 32"
    by (simp add: demo_client_def demo_end_def handshake_new_def noise_params_new_def Let_def case_prod_beta
        crypto_ok_lengths [OF demo_crypto_ok])
  then show "wf_packet demo_init" unfolding demo_init_def by (intro wf_initiation [OF demo_crypto_ok]) simp_all
qed (simp_all add: demo_init_def handshake_sender_def)

lemma demo_msg_parses: "parse_incoming_packet demo_msg = Inr demo_init"
  unfolding demo_msg_def by (rule parse_with_macs [OF demo_crypto_ok demo_init_wf(1,2)])

lemma demo_cookie_reply:
  "\<exists>r rl1 w1. verify_packet demo_crypto (demo_limiter 0) (Some (V4 1)) demo_msg 64 demo_world =
     (Inl (WriteToNetwork r), rl1, w1)"
proof -
  have v: "mac1_valid demo_crypto (demo_limiter 0) demo_msg"
    unfolding demo_msg_def using demo_limiter_of_peer [of 0] appended_mac1_valid [OF demo_crypto_ok]
    by (simp add: limiter_of_peer_def)
  have "write_cookie (hs_cookies demo_client) = None"
    by (simp add: demo_client_def demo_end_def handshake_new_def Let_def case_prod_beta)
  then have "drop (length demo_msg - 16) demo_msg = replicate 16 0"
    by (simp add: demo_msg_def append_mac1_and_mac2_def Let_def)
  moreover have "hd (b2s_keyed_mac_16 demo_crypto (fst (current_cookie demo_crypto (demo_limiter 0) a w)) x) = 1" for a w x
    by (simp add: b2s_keyed_mac_16_def b2s_keyed_mac_16_2_def current_cookie_def demo_crypto_def demo_limiter_def
        rate_limiter_new_def fill_bytes_def demo_world_def pad_def upt_rec Let_def case_prod_beta)
  ultimately have "b2s_keyed_mac_16 demo_crypto (fst (current_cookie demo_crypto (demo_limiter 0) (V4 1) demo_world)) x \<noteq>
      drop (length demo_msg - 16) demo_msg" for x
    by (metis hd_replicate zero_neq_numeral zero_neq_one)
  then show ?thesis
    using verify_under_load [OF demo_crypto_ok demo_msg_parses demo_init_wf(3) v, of 64 "V4 1" demo_world]
    by (simp add: Let_def case_prod_beta demo_limiter_def rate_limiter_new_def)
qed

theorem cookie_lets_sender_through_witness:
  "\<exists>r rl1 w1 k h2 p3 rl2 w3.
     verify_packet demo_crypto (demo_limiter 0) (Some (V4 1)) demo_msg 64 demo_world = (Inl (WriteToNetwork r), rl1, w1) \<and>
     parse_incoming_packet r = Inr (PacketCookieReply k) \<and>
     receive_cookie_reply demo_crypto (snd (append_mac1_and_mac2 demo_crypto demo_client 0x101 (packet_bytes demo_init))) k =
       (Inr (), h2) \<and>
     verify_packet demo_crypto (rl1\<lparr>rl_count := 1000\<rparr>) (Some (V4 1))
       (fst (append_mac1_and_mac2 demo_crypto h2 0x101 (packet_bytes demo_init))) 64 demo_world = (Inr p3, rl2, w3)"
proof -
  obtain r rl1 w1 where v: "verify_packet demo_crypto (demo_limiter 0) (Some (V4 1)) demo_msg 64 demo_world =
     (Inl (WriteToNetwork r), rl1, w1)"
    using demo_cookie_reply by blast
  have m: "append_mac1_and_mac2 demo_crypto demo_client 0x101 (packet_bytes demo_init) =
      (demo_msg, snd (append_mac1_and_mac2 demo_crypto demo_client 0x101 (packet_bytes demo_init)))"
    by (simp add: demo_msg_def)
  have m2: "parse_incoming_packet (packet_bytes demo_init @ replicate 32 0) = Inr demo_init"
    by (rule parse_packet_bytes) (simp_all add: demo_init_wf)
  show ?thesis
    using cookie_lets_sender_through [OF demo_crypto_ok demo_limiter_of_peer _ m demo_msg_parses demo_init_wf(3) v
        m2 demo_init_wf(3) _ refl, of 1000] v
    by auto
qed

text \<open>
  C30: The load limit holds. With no source address and no reset in between, however many datagrams
  arrive (fewer than 2^64), at most as many handshake messages as the limit has left are let through.
\<close>

theorem handshakes_bounded_by_limit:
  assumes "crypto_ok c" and "unat (rl_count rl) + length srcs < 2 ^ 64"
  shows "length (filter is_handshake (verify_all c rl srcs n w)) \<le> unat (rl_limit rl) - unat (rl_count rl)"
  by (rule verify_all_bounded [OF assms])

theorem handshakes_bounded_by_limit_witness:
  "length (filter is_handshake (verify_all demo_crypto (demo_limiter 1) [demo_msg, demo_msg] 64 demo_world)) \<le> 1"
  using handshakes_bounded_by_limit [OF demo_crypto_ok, of "demo_limiter 1" "[demo_msg, demo_msg]" 64 demo_world]
  by (simp add: demo_limiter_def rate_limiter_new_def Let_def case_prod_beta)

end
