(* ===== verification/Tunn.thy ===== *)
theory Tunn
  imports Rate_Limiter
begin

text \<open>
  \<open>boringtun/src/noise/mod.rs\<close> and \<open>noise/timers.rs\<close>: the point-to-point tunnel. Its state is the
  handshake, a ring of eight sessions, the queue of packets that wait for a session, the timers
  and the rate limiter. Every operation takes the world (clock and randomness) and returns the
  result, the tunnel and the world after it, or panics where the code does: a destination buffer
  that is too small, or a duration that would be negative.
\<close>

section \<open>State\<close>

definition N_SESSIONS :: nat where "N_SESSIONS = 8"
definition MAX_QUEUE_DEPTH :: nat where "MAX_QUEUE_DEPTH = 256"
definition PEER_HANDSHAKE_RATE_LIMIT :: u64 where "PEER_HANDSHAKE_RATE_LIMIT = 10"

definition REKEY_AFTER_TIME :: duration where "REKEY_AFTER_TIME = from_secs 120"
definition REJECT_AFTER_TIME :: duration where "REJECT_AFTER_TIME = from_secs 180"
definition REKEY_ATTEMPT_TIME :: duration where "REKEY_ATTEMPT_TIME = from_secs 90"
definition REKEY_TIMEOUT :: duration where "REKEY_TIMEOUT = from_secs 5"
definition KEEPALIVE_TIMEOUT :: duration where "KEEPALIVE_TIMEOUT = from_secs 10"
definition COOKIE_EXPIRATION_TIME :: duration where "COOKIE_EXPIRATION_TIME = from_secs 120"

lemmas timer_consts =
  REKEY_AFTER_TIME_def REJECT_AFTER_TIME_def REKEY_ATTEMPT_TIME_def REKEY_TIMEOUT_def
  KEEPALIVE_TIMEOUT_def COOKIE_EXPIRATION_TIME_def

datatype timer_name =
    TimeCurrent
  | TimeSessionEstablished
  | TimeLastHandshakeStarted
  | TimeLastPacketReceived
  | TimeLastPacketSent
  | TimeLastDataPacketReceived
  | TimeLastDataPacketSent
  | TimeCookieReceived
  | TimePersistentKeepalive

record timers =
  is_initiator :: bool
  time_started :: time_spec
  tm_timers :: "timer_name \<Rightarrow> duration"
  session_timers :: "duration list"
  want_keepalive :: bool
  want_handshake :: bool
  persistent_keepalive :: nat
  should_reset_rr :: bool

record tunn =
  tn_handshake :: handshake
  sessions :: "session option list"
  current :: nat
  packet_queue :: "bytes list"
  tn_timers :: timers
  tx_bytes :: u64
  rx_bytes :: u64
  tn_rate_limiter :: rate_limiter

section \<open>Timers\<close>

definition timers_new :: "u16 option \<Rightarrow> bool \<Rightarrow> world \<Rightarrow> timers \<times> world" where
  "timers_new keepalive reset_rr w =
     (let (now, w) = instant_now w
      in (\<lparr>is_initiator = False, time_started = now, tm_timers = (\<lambda>_. 0),
           session_timers = replicate N_SESSIONS 0, want_keepalive = False, want_handshake = False,
           persistent_keepalive = (case keepalive of Some k \<Rightarrow> unat k | None \<Rightarrow> 0),
           should_reset_rr = reset_rr\<rparr>, w))"

definition timers_clear :: "timers \<Rightarrow> world \<Rightarrow> timers \<times> world" where
  "timers_clear tm w =
     (let (t, w) = instant_now w;
          now = duration_since t (time_started tm)
      in (tm\<lparr>tm_timers := (\<lambda>_. now), want_handshake := False, want_keepalive := False\<rparr>, w))"

abbreviation timer :: "tunn \<Rightarrow> timer_name \<Rightarrow> duration" where
  "timer t n \<equiv> tm_timers (tn_timers t) n"

definition set_timer :: "timer_name \<Rightarrow> duration \<Rightarrow> tunn \<Rightarrow> tunn" where
  "set_timer n d t = t\<lparr>tn_timers := (tn_timers t)\<lparr>tm_timers := (tm_timers (tn_timers t))(n := d)\<rparr>\<rparr>"

definition timer_tick :: "timer_name \<Rightarrow> tunn \<Rightarrow> tunn" where
  "timer_tick n t =
     (let t = (case n of
                 TimeLastPacketReceived \<Rightarrow>
                   t\<lparr>tn_timers := (tn_timers t)\<lparr>want_keepalive := True, want_handshake := False\<rparr>\<rparr>
               | TimeLastPacketSent \<Rightarrow>
                   t\<lparr>tn_timers := (tn_timers t)\<lparr>want_handshake := True, want_keepalive := False\<rparr>\<rparr>
               | _ \<Rightarrow> t)
      in set_timer n (timer t TimeCurrent) t)"

definition timer_tick_session_established :: "bool \<Rightarrow> nat \<Rightarrow> tunn \<Rightarrow> tunn" where
  "timer_tick_session_established initiator session_idx t =
     (let t = timer_tick TimeSessionEstablished t;
          tm = tn_timers t
      in t\<lparr>tn_timers := tm\<lparr>
             session_timers := (session_timers tm)[session_idx mod N_SESSIONS := timer t TimeCurrent],
             is_initiator := initiator\<rparr>\<rparr>)"

definition clear_all :: "tunn \<Rightarrow> world \<Rightarrow> tunn \<times> world" where
  "clear_all t w =
     (let (tm, w) = timers_clear (tn_timers t) w
      in (t\<lparr>sessions := map (\<lambda>_. None) (sessions t), packet_queue := [], tn_timers := tm\<rparr>, w))"

text \<open>The loop of \<open>update_session_timers\<close>, from slot \<open>i\<close> on.\<close>

fun expire_sessions ::
  "duration \<Rightarrow> duration list \<Rightarrow> session option list \<Rightarrow> (duration list \<times> session option list) outcome" where
  "expire_sessions now (d # ds) (s # ss) =
     obind (duration_sub now d) (\<lambda>age.
     obind (expire_sessions now ds ss) (\<lambda>(ds', ss').
       if REJECT_AFTER_TIME < age then Returns (now # ds', None # ss') else Returns (d # ds', s # ss')))"
| "expire_sessions now _ ss = Returns ([], ss)"

definition update_session_timers :: "duration \<Rightarrow> tunn \<Rightarrow> tunn outcome" where
  "update_session_timers now t =
     obind (expire_sessions now (session_timers (tn_timers t)) (sessions t)) (\<lambda>(ds, ss).
       Returns (t\<lparr>tn_timers := (tn_timers t)\<lparr>session_timers := ds\<rparr>, sessions := ss\<rparr>))"

section \<open>Packets\<close>

definition queue_packet :: "bytes \<Rightarrow> tunn \<Rightarrow> tunn" where
  "queue_packet p t =
     (if length (packet_queue t) < MAX_QUEUE_DEPTH then t\<lparr>packet_queue := packet_queue t @ [p]\<rparr> else t)"

definition requeue_packet :: "bytes \<Rightarrow> tunn \<Rightarrow> tunn" where
  "requeue_packet p t =
     (if length (packet_queue t) < MAX_QUEUE_DEPTH then t\<lparr>packet_queue := p # packet_queue t\<rparr> else t)"

definition dequeue_packet :: "tunn \<Rightarrow> bytes option \<times> tunn" where
  "dequeue_packet t =
     (case packet_queue t of [] \<Rightarrow> (None, t) | p # q \<Rightarrow> (Some p, t\<lparr>packet_queue := q\<rparr>))"

definition set_current_session :: "nat \<Rightarrow> tunn \<Rightarrow> tunn" where
  "set_current_session new_idx t =
     (let cur_idx = current t in
      if cur_idx = new_idx then t
      else if sessions t ! (cur_idx mod N_SESSIONS) = None \<or>
              session_timers (tn_timers t) ! (cur_idx mod N_SESSIONS) \<le>
                session_timers (tn_timers t) ! (new_idx mod N_SESSIONS)
      then t\<lparr>current := new_idx\<rparr>
      else t)"

definition tunn_format_handshake_initiation ::
  "crypto \<Rightarrow> tunn \<Rightarrow> nat \<Rightarrow> bool \<Rightarrow> world \<Rightarrow> tunn_result \<times> tunn \<times> world" where
  "tunn_format_handshake_initiation c t dst_len force_resend w =
     (if is_in_progress (tn_handshake t) \<and> \<not> force_resend then (Done, t, w)
      else
        let (tm, w) = (if is_expired (tn_handshake t) then timers_clear (tn_timers t) w else (tn_timers t, w));
            t = t\<lparr>tn_timers := tm\<rparr>;
            starting_new_handshake = (\<not> is_in_progress (tn_handshake t));
            (r, h, w) = format_handshake_initiation c (tn_handshake t) dst_len w;
            t = t\<lparr>tn_handshake := h\<rparr>
        in case r of
             Inr packet \<Rightarrow>
               let t = (if starting_new_handshake then timer_tick TimeLastHandshakeStarted t else t);
                   t = timer_tick TimeLastPacketSent t
               in (WriteToNetwork packet, t, w)
           | Inl e \<Rightarrow> (TErr e, t, w))"

definition encapsulate ::
  "crypto \<Rightarrow> tunn \<Rightarrow> bytes \<Rightarrow> nat \<Rightarrow> world \<Rightarrow> (tunn_result \<times> tunn \<times> world) outcome" where
  "encapsulate c t src dst_len w =
     (let slot = current t mod N_SESSIONS in
      case sessions t ! slot of
        Some session \<Rightarrow>
          obind (format_packet_data c session src dst_len) (\<lambda>(packet, session').
            let t = t\<lparr>sessions := (sessions t)[slot := Some session']\<rparr>;
                t = timer_tick TimeLastPacketSent t;
                t = (if src \<noteq> [] then timer_tick TimeLastDataPacketSent t else t);
                t = t\<lparr>tx_bytes := tx_bytes t + of_nat (length src)\<rparr>
            in Returns (WriteToNetwork packet, t, w))
      | None \<Rightarrow>
          let t = queue_packet src t
          in Returns (tunn_format_handshake_initiation c t dst_len False w))"

definition send_queued_packet ::
  "crypto \<Rightarrow> tunn \<Rightarrow> nat \<Rightarrow> world \<Rightarrow> (tunn_result \<times> tunn \<times> world) outcome" where
  "send_queued_packet c t dst_len w =
     (case dequeue_packet t of
        (None, t) \<Rightarrow> Returns (Done, t, w)
      | (Some packet, t) \<Rightarrow>
          obind (encapsulate c t packet dst_len w) (\<lambda>(r, t, w).
            case r of
              TErr e \<Rightarrow> Returns (Done, requeue_packet packet t, w)
            | _ \<Rightarrow> Returns (r, t, w)))"

text \<open>The computed length and source address of a decapsulated packet, before the length check.\<close>

definition decapsulated_header :: "bytes \<Rightarrow> (nat \<times> ip_addr) option" where
  "decapsulated_header p =
     (if p = [] then None
      else if drop_bit 4 (hd p) = 4 \<and> 20 \<le> length p then
        Some (unat (of_be_bytes (slice 2 4 p) :: u16), V4 (of_be_bytes (slice 12 16 p)))
      else if drop_bit 4 (hd p) = 6 \<and> 40 \<le> length p then
        Some (unat (of_be_bytes (slice 4 6 p) :: u16) + 40, V6 (of_be_bytes (slice 8 24 p)))
      else None)"

definition validate_decapsulated_packet :: "tunn \<Rightarrow> bytes \<Rightarrow> tunn_result \<times> tunn" where
  "validate_decapsulated_packet t p =
     (if p = [] then (Done, t)
      else case decapsulated_header p of
        None \<Rightarrow> (TErr InvalidPacket, t)
      | Some (computed_len, src_ip_address) \<Rightarrow>
          if length p < computed_len then (TErr InvalidPacket, t)
          else
            let t = timer_tick TimeLastDataPacketReceived t;
                t = t\<lparr>rx_bytes := rx_bytes t + of_nat computed_len\<rparr>
            in (case src_ip_address of
                  V4 addr \<Rightarrow> WriteToTunnelV4 (take computed_len p) addr
                | V6 addr \<Rightarrow> WriteToTunnelV6 (take computed_len p) addr, t))"

section \<open>Incoming datagrams\<close>

definition handle_handshake_init ::
  "crypto \<Rightarrow> tunn \<Rightarrow> handshake_init \<Rightarrow> nat \<Rightarrow> world \<Rightarrow> ((wire_guard_error + tunn_result) \<times> tunn \<times> world) outcome" where
  "handle_handshake_init c t p dst_len w =
     obind (receive_handshake_initialization c (tn_handshake t) p dst_len w) (\<lambda>(r, h, w).
       let t = t\<lparr>tn_handshake := h\<rparr> in
       case r of
         Inl e \<Rightarrow> Returns (Inl e, t, w)
       | Inr (packet, session) \<Rightarrow>
           let index = session_local_index session;
               t = t\<lparr>sessions := (sessions t)[index mod N_SESSIONS := Some session]\<rparr>;
               t = timer_tick TimeLastPacketReceived t;
               t = timer_tick TimeLastPacketSent t;
               t = timer_tick_session_established False index t
           in Returns (Inr (WriteToNetwork packet), t, w))"

definition handle_handshake_response ::
  "crypto \<Rightarrow> tunn \<Rightarrow> handshake_response \<Rightarrow> nat \<Rightarrow> world \<Rightarrow> ((wire_guard_error + tunn_result) \<times> tunn \<times> world) outcome" where
  "handle_handshake_response c t p dst_len w =
     (let (r, h, w) = receive_handshake_response c (tn_handshake t) p w;
          t = t\<lparr>tn_handshake := h\<rparr>
      in case r of
           Inl e \<Rightarrow> Returns (Inl e, t, w)
         | Inr session \<Rightarrow>
             obind (format_packet_data c session [] dst_len) (\<lambda>(keepalive_packet, session).
               let l_idx = session_local_index session;
                   index = l_idx mod N_SESSIONS;
                   t = t\<lparr>sessions := (sessions t)[index := Some session]\<rparr>;
                   t = timer_tick TimeLastPacketReceived t;
                   t = timer_tick_session_established True index t;
                   t = set_current_session l_idx t
               in Returns (Inr (WriteToNetwork keepalive_packet), t, w)))"

definition handle_cookie_reply ::
  "crypto \<Rightarrow> tunn \<Rightarrow> packet_cookie_reply \<Rightarrow> (wire_guard_error + tunn_result) \<times> tunn" where
  "handle_cookie_reply c t p =
     (let (r, h) = receive_cookie_reply c (tn_handshake t) p;
          t = t\<lparr>tn_handshake := h\<rparr>
      in case r of
           Inl e \<Rightarrow> (Inl e, t)
         | Inr _ \<Rightarrow> (Inr Done, timer_tick TimeCookieReceived (timer_tick TimeLastPacketReceived t)))"

definition handle_data ::
  "crypto \<Rightarrow> tunn \<Rightarrow> packet_data \<Rightarrow> nat \<Rightarrow> ((wire_guard_error + tunn_result) \<times> tunn) outcome" where
  "handle_data c t p dst_len =
     (let r_idx = unat (pd_receiver_idx p);
          idx = r_idx mod N_SESSIONS
      in case sessions t ! idx of
           None \<Rightarrow> Returns (Inl NoCurrentSession, t)
         | Some session \<Rightarrow>
             obind (receive_packet_data c session p dst_len) (\<lambda>(r, session').
               let t = t\<lparr>sessions := (sessions t)[idx := Some session']\<rparr> in
               case r of
                 Inl e \<Rightarrow> Returns (Inl e, t)
               | Inr decapsulated_packet \<Rightarrow>
                   let t = set_current_session r_idx t;
                       t = timer_tick TimeLastPacketReceived t;
                       (res, t) = validate_decapsulated_packet t decapsulated_packet
                   in Returns (Inr res, t)))"

definition or_error :: "wire_guard_error + tunn_result \<Rightarrow> tunn_result" where
  "or_error r = (case r of Inl e \<Rightarrow> TErr e | Inr res \<Rightarrow> res)"

definition handle_verified_packet ::
  "crypto \<Rightarrow> tunn \<Rightarrow> packet \<Rightarrow> nat \<Rightarrow> world \<Rightarrow> (tunn_result \<times> tunn \<times> world) outcome" where
  "handle_verified_packet c t packet dst_len w =
     (case packet of
        HandshakeInit p \<Rightarrow>
          obind (handle_handshake_init c t p dst_len w) (\<lambda>(r, t, w). Returns (or_error r, t, w))
      | HandshakeResponse p \<Rightarrow>
          obind (handle_handshake_response c t p dst_len w) (\<lambda>(r, t, w). Returns (or_error r, t, w))
      | PacketCookieReply p \<Rightarrow>
          (case handle_cookie_reply c t p of (r, t) \<Rightarrow> Returns (or_error r, t, w))
      | PacketData p \<Rightarrow>
          obind (handle_data c t p dst_len) (\<lambda>(r, t). Returns (or_error r, t, w)))"

definition decapsulate ::
  "crypto \<Rightarrow> tunn \<Rightarrow> ip_addr option \<Rightarrow> bytes \<Rightarrow> nat \<Rightarrow> world \<Rightarrow> (tunn_result \<times> tunn \<times> world) outcome" where
  "decapsulate c t src_addr dgram dst_len w =
     (if dgram = [] then send_queued_packet c t dst_len w
      else
        let (r, rl, w) = verify_packet c (tn_rate_limiter t) src_addr dgram COOKIE_REPLY_SZ w;
            t = t\<lparr>tn_rate_limiter := rl\<rparr>
        in case r of
             Inr packet \<Rightarrow> handle_verified_packet c t packet dst_len w
           | Inl (WriteToNetwork cookie) \<Rightarrow>
               if dst_len < length cookie then Panics else Returns (WriteToNetwork cookie, t, w)
           | Inl (TErr e) \<Rightarrow> Returns (TErr e, t, w)
           | Inl _ \<Rightarrow> Panics)"

section \<open>Creation, timers, statistics\<close>

definition tunn_new ::
  "crypto \<Rightarrow> bytes \<Rightarrow> bytes \<Rightarrow> bytes option \<Rightarrow> u16 option \<Rightarrow> u32 \<Rightarrow> rate_limiter option \<Rightarrow> world \<Rightarrow> tunn \<times> world" where
  "tunn_new c sk peer psk keepalive index limiter w =
     (let pk = x25519_public c sk;
          (h, w) = handshake_new c sk pk peer (push_bit 8 index) psk w;
          (tm, w) = timers_new keepalive (limiter = None) w;
          (rl, w) = (case limiter of
                       Some rl \<Rightarrow> (rl, w)
                     | None \<Rightarrow> rate_limiter_new c pk PEER_HANDSHAKE_RATE_LIMIT w)
      in (\<lparr>tn_handshake = h, sessions = replicate N_SESSIONS None, current = 0, packet_queue = [],
           tn_timers = tm, tx_bytes = 0, rx_bytes = 0, tn_rate_limiter = rl\<rparr>, w))"

definition tunn_set_static_private ::
  "crypto \<Rightarrow> tunn \<Rightarrow> bytes \<Rightarrow> bytes \<Rightarrow> rate_limiter option \<Rightarrow> world \<Rightarrow> (tunn \<times> world) outcome" where
  "tunn_set_static_private c t sk pk limiter w =
     (let t = t\<lparr>tn_timers := (tn_timers t)\<lparr>should_reset_rr := (limiter = None)\<rparr>\<rparr>;
          (rl, w) = (case limiter of
                       Some rl \<Rightarrow> (rl, w)
                     | None \<Rightarrow> rate_limiter_new c pk PEER_HANDSHAKE_RATE_LIMIT w)
      in obind (hs_set_static_private c (tn_handshake t) sk pk) (\<lambda>h.
           Returns (t\<lparr>tn_rate_limiter := rl, tn_handshake := h, sessions := map (\<lambda>_. None) (sessions t)\<rparr>, w)))"

text \<open>\<open>now - t >= limit\<close>, which panics when \<open>t\<close> is later than \<open>now\<close>.\<close>

definition aged :: "duration \<Rightarrow> duration \<Rightarrow> duration \<Rightarrow> bool outcome" where
  "aged now t limit = obind (duration_sub now t) (\<lambda>d. Returns (limit \<le> d))"

text \<open>A lazily evaluated conjunction whose second operand may panic.\<close>

definition and_then :: "bool \<Rightarrow> bool outcome \<Rightarrow> bool outcome" where
  "and_then b r = (if b then r else Returns False)"

definition expire_connection :: "tunn \<Rightarrow> world \<Rightarrow> tunn \<times> world" where
  "expire_connection t w = clear_all (t\<lparr>tn_handshake := set_expired (tn_handshake t)\<rparr>) w"

text \<open>
  The part of \<open>update_timers\<close> that runs when no initiation is pending: whether a handshake and
  whether a keepalive is due, with the flags and the keepalive timer it resets.
\<close>

definition idle_timers :: "tunn \<Rightarrow> duration \<Rightarrow> (bool \<times> bool \<times> tunn) outcome" where
  "idle_timers t now =
     (let session_established = timer t TimeSessionEstablished;
          aut_packet_received = timer t TimeLastPacketReceived;
          aut_packet_sent = timer t TimeLastPacketSent;
          data_packet_received = timer t TimeLastDataPacketReceived;
          data_packet_sent = timer t TimeLastDataPacketSent;
          pk = persistent_keepalive (tn_timers t);
          init = is_initiator (tn_timers t)
      in
        obind (and_then (init \<and> session_established < data_packet_sent)
          (aged now session_established REKEY_AFTER_TIME)) (\<lambda>on_send.
        obind (and_then (init \<and> session_established < data_packet_received)
          (aged now session_established (REJECT_AFTER_TIME - KEEPALIVE_TIMEOUT - REKEY_TIMEOUT))) (\<lambda>on_receive.
        obind (and_then (aut_packet_received < data_packet_sent)
          (aged now aut_packet_received (KEEPALIVE_TIMEOUT + REKEY_TIMEOUT))) (\<lambda>silent.
          let unanswered = (silent \<and> want_handshake (tn_timers t));
              t = (if silent then t\<lparr>tn_timers := (tn_timers t)\<lparr>want_handshake := False\<rparr>\<rparr> else t);
              handshake_required = (on_send \<or> on_receive \<or> unanswered)
          in if handshake_required then Returns (True, False, t)
             else
               obind (and_then (aut_packet_sent < data_packet_received)
                 (aged now aut_packet_sent KEEPALIVE_TIMEOUT)) (\<lambda>owed.
               let keepalive = (owed \<and> want_keepalive (tn_timers t));
                   t = (if owed then t\<lparr>tn_timers := (tn_timers t)\<lparr>want_keepalive := False\<rparr>\<rparr> else t)
               in obind (and_then (0 < pk) (aged now (timer t TimePersistentKeepalive) (from_secs pk))) (\<lambda>persistent.
                    Returns (False, keepalive \<or> persistent,
                      if persistent then timer_tick TimePersistentKeepalive t else t)))))))"

definition update_timers ::
  "crypto \<Rightarrow> tunn \<Rightarrow> nat \<Rightarrow> world \<Rightarrow> (tunn_result \<times> tunn \<times> world) outcome" where
  "update_timers c t dst_len w =
     (let (time, w) = instant_now w;
          (rl, w) = (if should_reset_rr (tn_timers t) then reset_count (tn_rate_limiter t) w
                     else (tn_rate_limiter t, w));
          t = t\<lparr>tn_rate_limiter := rl\<rparr>;
          now = duration_since time (time_started (tn_timers t));
          t = set_timer TimeCurrent now t
      in obind (update_session_timers now t) (\<lambda>t.
         if is_expired (tn_handshake t) then Returns (TErr ConnectionExpired, t, w)
         else
           obind (and_then (has_cookie (tn_handshake t))
             (aged now (timer t TimeCookieReceived) COOKIE_EXPIRATION_TIME)) (\<lambda>stale_cookie.
           let t = (if stale_cookie then t\<lparr>tn_handshake := clear_cookie (tn_handshake t)\<rparr> else t) in
           obind (aged now (timer t TimeSessionEstablished) (REJECT_AFTER_TIME * 3)) (\<lambda>dead.
           if dead then (case expire_connection t w of (t, w) \<Rightarrow> Returns (TErr ConnectionExpired, t, w))
           else
             case hs_timer (tn_handshake t) of
               Some time_init_sent \<Rightarrow>
                 obind (aged now (timer t TimeLastHandshakeStarted) REKEY_ATTEMPT_TIME) (\<lambda>given_up.
                 if given_up then (case expire_connection t w of (t, w) \<Rightarrow> Returns (TErr ConnectionExpired, t, w))
                 else
                   let (waited, w) = elapsed time_init_sent w in
                   if REKEY_TIMEOUT \<le> waited
                   then Returns (tunn_format_handshake_initiation c t dst_len True w)
                   else Returns (Done, t, w))
             | None \<Rightarrow>
                 obind (idle_timers t now) (\<lambda>(handshake_required, keepalive_required, t).
                 if handshake_required then Returns (tunn_format_handshake_initiation c t dst_len True w)
                 else if keepalive_required then encapsulate c t [] dst_len w
                 else Returns (Done, t, w))))))"

definition time_since_last_handshake :: "tunn \<Rightarrow> world \<Rightarrow> (duration option \<times> world) outcome" where
  "time_since_last_handshake t w =
     (if sessions t ! (current t mod N_SESSIONS) = None then Returns (None, w)
      else
        let (now, w) = instant_now w
        in obind (duration_sub (duration_since now (time_started (tn_timers t))) (timer t TimeSessionEstablished))
             (\<lambda>d. Returns (Some d, w)))"

definition tunn_persistent_keepalive :: "tunn \<Rightarrow> u16 option" where
  "tunn_persistent_keepalive t =
     (let k = persistent_keepalive (tn_timers t) in if 0 < k then Some (of_nat k) else None)"

end
