(* ===== verification/Tunn_Invariant.thy ===== *)
theory Tunn_Invariant
  imports Tunn
begin

text \<open>
  The invariant of a tunnel and its consequences. The ring part: eight session slots, each session
  in the slot of its index, every index carrying the tunnel's 24-bit peer index, at most 256
  queued packets. The clock part: no timer is ahead of the clock. Every operation keeps it, so
  under a monotone clock and with buffers of the documented size no operation ever panics.
\<close>

section \<open>The clock only moves on\<close>

definition later :: "world \<Rightarrow> world \<Rightarrow> bool" where
  "later w w' \<longleftrightarrow> (\<exists>k. w_instants w' = (\<lambda>i. w_instants w (i + k)))"

lemma later_refl [simp, intro]: "later w w"
  by (auto simp: later_def intro: exI [of _ 0])

lemma later_trans [trans]: "later w w' \<Longrightarrow> later w' w'' \<Longrightarrow> later w w''"
  unfolding later_def
proof (elim exE)
  fix k l
  assume "w_instants w' = (\<lambda>i. w_instants w (i + k))" "w_instants w'' = (\<lambda>i. w_instants w' (i + l))"
  then show "\<exists>k. w_instants w'' = (\<lambda>i. w_instants w (i + k))"
    by (intro exI [of _ "l + k"]) (simp add: add.assoc)
qed

lemma later_now [simp]: "later w (snd (instant_now w))"
  by (auto simp: later_def instant_now_def intro: exI [of _ 1])

lemma later_system [simp]: "later w (snd (system_now w))"
  by (auto simp: later_def system_now_def intro: exI [of _ 0])

lemma later_fill [simp]: "later w (snd (fill_bytes n w))"
  by (auto simp: later_def fill_bytes_def intro: exI [of _ 0])

lemma later_stamp [simp]: "later w (snd (stamp ts w))"
  by (simp add: stamp_def Let_def case_prod_beta)

lemma later_clock: "clock_from T w \<Longrightarrow> later w w' \<Longrightarrow> clock_from T w'"
  by (auto simp: clock_from_def later_def)

lemma later_initiation_world: "later w (snd (instant_now (snd (stamp ts (snd (fill_bytes n w))))))"
  by (meson later_fill later_now later_stamp later_trans)

lemma later_format_initiation: "format_handshake_initiation c h n w = (r, h', w') \<Longrightarrow> later w w'"
  by (auto simp: format_handshake_initiation_def Let_def case_prod_beta later_initiation_world split: if_splits)

lemma later_format_response: "format_handshake_response c h n w = Returns (r, h', w') \<Longrightarrow> later w w'"
  by (auto simp: format_handshake_response_def Let_def case_prod_beta
      split: if_splits handshake_state.splits)

lemma later_receive_init: "receive_handshake_initialization c h p n w = Returns (r, h', w') \<Longrightarrow> later w w'"
  by (auto simp: receive_handshake_initialization_eq Let_def case_prod_beta
      dest: later_format_response split: option.splits if_splits)

lemma later_receive_response: "receive_handshake_response c h p w = (r, h', w') \<Longrightarrow> later w w'"
  by (auto simp: receive_handshake_response_eq Let_def case_prod_beta split: option.splits if_splits)

lemma later_verify: "verify_packet c rl a src n w = (r, rl', w') \<Longrightarrow> later w w'"
  by (auto simp: verify_packet_def current_cookie_def Let_def case_prod_beta
      split: sum.splits option.splits if_splits prod.splits)

lemma later_handshake_new: "later w (snd (handshake_new c sk pk peer i psk w))"
proof -
  have "later w (snd (instant_now (snd (system_now w))))" using later_trans later_system later_now by blast
  then show ?thesis by (simp add: handshake_new_def stamper_new_def Let_def case_prod_beta)
qed

lemma later_rate_limiter_new: "later w (snd (rate_limiter_new c pk lim w))"
proof -
  have "later w (snd (instant_now (snd (instant_now (snd (fill_bytes 32 (snd (fill_bytes 16 w))))))))"
    by (meson later_fill later_now later_trans)
  then show ?thesis by (simp add: rate_limiter_new_def Let_def case_prod_beta)
qed

section \<open>Session indices carry the peer index\<close>

definition peer_bits :: "u32 \<Rightarrow> handshake_state \<Rightarrow> bool" where
  "peer_bits g st \<longleftrightarrow> (\<forall>s. st = InitSent s \<longrightarrow> drop_bit 8 (is_local_index s) = g)"

definition hs_peer :: "u32 \<Rightarrow> handshake \<Rightarrow> bool" where
  "hs_peer g h \<longleftrightarrow> drop_bit 8 (next_index h) = g \<and> peer_bits g (hs_state h) \<and> peer_bits g (previous h)"

lemma peer_bits_simps [simp]:
  "peer_bits g HsNone" "peer_bits g HsExpired" "peer_bits g (InitReceived a b d e)"
  "peer_bits g (InitSent s) \<longleftrightarrow> drop_bit 8 (is_local_index s) = g"
  by (simp_all add: peer_bits_def)

lemma inc_index_peer: "drop_bit 8 (fst (inc_index h)) = drop_bit 8 (next_index h)"
  by (simp add: inc_index_bump bump_index_drop)

lemma hs_peer_format_initiation:
  "hs_peer g h \<Longrightarrow> format_handshake_initiation c h n w = (r, h', w') \<Longrightarrow> hs_peer g h'"
  by (auto simp: format_handshake_initiation_def hs_peer_def inc_index_peer Let_def case_prod_beta split: if_splits)

lemma hs_peer_format_response:
  assumes "hs_peer g h" "format_handshake_response c h n w = Returns (r, h', w')"
  shows "hs_peer g h' \<and> (\<forall>dg s. r = Inr (dg, s) \<longrightarrow> drop_bit 8 (receiving_index s) = g)"
  using assms inc_index_peer [of "h\<lparr>hs_state := HsNone\<rparr>"]
  by (auto simp: format_handshake_response_def hs_peer_def session_new_def Let_def case_prod_beta
      split: if_splits handshake_state.splits)

lemma hs_peer_receive_init:
  assumes "hs_peer g h" "receive_handshake_initialization c h p n w = Returns (r, h', w')"
  shows "hs_peer g h' \<and> (\<forall>dg s. r = Inr (dg, s) \<longrightarrow> drop_bit 8 (receiving_index s) = g)"
proof -
  have "hs_peer g (h\<lparr>last_handshake_timestamp := ts, previous := hs_state h, hs_state := InitReceived a b d e\<rparr>)"
    for ts a b d e
    using assms(1) by (simp add: hs_peer_def)
  then show ?thesis using assms
    by (auto simp: receive_handshake_initialization_eq Let_def case_prod_beta
        dest!: hs_peer_format_response [rotated] split: option.splits if_splits)
qed

lemma awaiting_peer: "hs_peer g h \<Longrightarrow> awaiting_response h i = Some (st, b) \<Longrightarrow> drop_bit 8 (is_local_index st) = g"
  by (auto simp: awaiting_response_def hs_peer_def split: handshake_state.splits if_splits)

lemma hs_peer_receive_response:
  assumes "hs_peer g h" "receive_handshake_response c h p w = (r, h', w')"
  shows "hs_peer g h' \<and> (\<forall>s. r = Inr s \<longrightarrow> drop_bit 8 (receiving_index s) = g)"
  using assms awaiting_peer [OF assms(1)]
  by (auto simp: receive_handshake_response_eq hs_peer_def session_new_def Let_def case_prod_beta
      split: option.splits if_splits)

lemma hs_peer_receive_cookie: "hs_peer g h \<Longrightarrow> receive_cookie_reply c h p = (r, h') \<Longrightarrow> hs_peer g h'"
  by (auto simp: receive_cookie_reply_def hs_peer_def Let_def split: option.splits if_splits)

lemma hs_peer_misc [simp]:
  "hs_peer g h \<Longrightarrow> hs_peer g (set_expired h)" "hs_peer g h \<Longrightarrow> hs_peer g (clear_cookie h)"
  by (simp_all add: hs_peer_def set_expired_def clear_cookie_def)

section \<open>The ring of sessions\<close>

definition slot_ok :: "u32 \<Rightarrow> nat \<Rightarrow> session option \<Rightarrow> bool" where
  "slot_ok g i so \<longleftrightarrow> (\<forall>s. so = Some s \<longrightarrow> unat (receiving_index s) mod 8 = i \<and> drop_bit 8 (receiving_index s) = g)"

definition slots_ok :: "u32 \<Rightarrow> session option list \<Rightarrow> bool" where
  "slots_ok g ss \<longleftrightarrow> length ss = 8 \<and> (\<forall>i<8. slot_ok g i (ss ! i))"

definition ring_ok :: "u32 \<Rightarrow> nat \<Rightarrow> tunn \<Rightarrow> bool" where
  "ring_ok g m t \<longleftrightarrow> slots_ok g (sessions t) \<and> length (session_timers (tn_timers t)) = 8 \<and>
     length (packet_queue t) \<le> 256 \<and> (\<forall>p \<in> set (packet_queue t). length p \<le> m) \<and> hs_peer g (tn_handshake t)"

lemma slots_ok_update: "slots_ok g ss \<Longrightarrow> slot_ok g i so \<Longrightarrow> slots_ok g (ss[i := so])"
  by (auto simp: slots_ok_def) (metis nth_list_update_eq nth_list_update_neq)

lemma slots_ok_clear: "slots_ok g ss \<Longrightarrow> slots_ok g (map (\<lambda>_. None) ss)"
  by (auto simp: slots_ok_def slot_ok_def)

lemma slots_ok_new: "slots_ok g (replicate N_SESSIONS None)"
  by (auto simp: slots_ok_def slot_ok_def N_SESSIONS_def)

lemma timer_tick_fields [simp]:
  "sessions (timer_tick n t) = sessions t" "packet_queue (timer_tick n t) = packet_queue t"
  "tn_handshake (timer_tick n t) = tn_handshake t" "tn_rate_limiter (timer_tick n t) = tn_rate_limiter t"
  "current (timer_tick n t) = current t"
  "session_timers (tn_timers (timer_tick n t)) = session_timers (tn_timers t)"
  "time_started (tn_timers (timer_tick n t)) = time_started (tn_timers t)"
  "tx_bytes (timer_tick n t) = tx_bytes t" "rx_bytes (timer_tick n t) = rx_bytes t"
  by (auto simp: timer_tick_def set_timer_def Let_def split: timer_name.splits)

lemma timer_tick_timers:
  "timer (timer_tick n t) m = (if m = n then timer t TimeCurrent else timer t m)"
  by (auto simp: timer_tick_def set_timer_def Let_def split: timer_name.splits)

lemma set_current_fields [simp]:
  "sessions (set_current_session i t) = sessions t" "packet_queue (set_current_session i t) = packet_queue t"
  "tn_handshake (set_current_session i t) = tn_handshake t" "tn_timers (set_current_session i t) = tn_timers t"
  "tn_rate_limiter (set_current_session i t) = tn_rate_limiter t"
  by (simp_all add: set_current_session_def Let_def)

lemma established_fields [simp]:
  "sessions (timer_tick_session_established b i t) = sessions t"
  "packet_queue (timer_tick_session_established b i t) = packet_queue t"
  "tn_handshake (timer_tick_session_established b i t) = tn_handshake t"
  "tn_rate_limiter (timer_tick_session_established b i t) = tn_rate_limiter t"
  "current (timer_tick_session_established b i t) = current t"
  "length (session_timers (tn_timers (timer_tick_session_established b i t))) = length (session_timers (tn_timers t))"
  by (simp_all add: timer_tick_session_established_def Let_def)

lemma ring_ok_ticks [simp]:
  "ring_ok g m (timer_tick n t) = ring_ok g m t" "ring_ok g m (set_current_session i t) = ring_ok g m t"
  "ring_ok g m (timer_tick_session_established b i t) = ring_ok g m t"
  by (simp_all add: ring_ok_def)

lemma validate_fields [simp]:
  "sessions (snd (validate_decapsulated_packet t p)) = sessions t"
  "packet_queue (snd (validate_decapsulated_packet t p)) = packet_queue t"
  "tn_handshake (snd (validate_decapsulated_packet t p)) = tn_handshake t"
  "session_timers (tn_timers (snd (validate_decapsulated_packet t p))) = session_timers (tn_timers t)"
  "time_started (tn_timers (snd (validate_decapsulated_packet t p))) = time_started (tn_timers t)"
  by (auto simp: validate_decapsulated_packet_def Let_def split: option.splits prod.splits)

section \<open>Timers never run ahead of the clock\<close>

definition timers_ok :: "timers \<Rightarrow> time_spec \<Rightarrow> bool" where
  "timers_ok tm T \<longleftrightarrow> wf_time (time_started tm) \<and> (\<forall>n. tm_timers tm n \<le> duration_since T (time_started tm)) \<and>
     (\<forall>d \<in> set (session_timers tm). d \<le> duration_since T (time_started tm))"

definition clock_ok :: "tunn \<Rightarrow> world \<Rightarrow> bool" where
  "clock_ok t w \<longleftrightarrow> (\<exists>T. clock_from T w \<and> timers_ok (tn_timers t) T)"

lemma timers_ok_later:
  "timers_ok tm T \<Longrightarrow> wf_time T \<Longrightarrow> wf_time T' \<Longrightarrow> nanos T \<le> nanos T' \<Longrightarrow> timers_ok tm T'"
  unfolding timers_ok_def by (meson duration_since_mono order_trans)

lemma timers_ok_tick [simp]: "timers_ok (tn_timers t) T \<Longrightarrow> timers_ok (tn_timers (timer_tick n t)) T"
  by (simp add: timers_ok_def timer_tick_timers)

lemma timers_ok_established:
  assumes "timers_ok (tn_timers t) T"
  shows "timers_ok (tn_timers (timer_tick_session_established b i t)) T"
proof -
  have "timers_ok (tn_timers (timer_tick TimeSessionEstablished t)) T" using assms by (rule timers_ok_tick)
  then show ?thesis
    by (auto simp: timer_tick_session_established_def timers_ok_def Let_def dest!: set_update_subset_insert [THEN subsetD])
qed

lemma timers_ok_validate:
  "timers_ok (tn_timers t) T \<Longrightarrow> timers_ok (tn_timers (snd (validate_decapsulated_packet t p))) T"
  by (auto simp: validate_decapsulated_packet_def Let_def split: option.splits prod.splits)

lemma timers_clear_clock:
  assumes "clock_from T w" "timers_ok tm T" "timers_clear tm w = (tm', w')"
  shows "\<exists>T'. clock_from T' w' \<and> timers_ok tm' T' \<and> length (session_timers tm') = length (session_timers tm) \<and> later w w'"
proof -
  obtain n where n: "instant_now w = (n, w')"
    and tm': "tm' = tm\<lparr>tm_timers := (\<lambda>_. duration_since n (time_started tm)), want_handshake := False, want_keepalive := False\<rparr>"
    using assms(3) by (auto simp: timers_clear_def Let_def split: prod.splits)
  have n': "clock_from n w'" "wf_time n" "nanos T \<le> nanos n" using clock_from_now [OF assms(1) n] by auto
  have "timers_ok tm n"
    using timers_ok_later [OF assms(2)] n' assms(1) by (simp add: clock_from_def)
  then have "timers_ok tm' n" by (simp add: timers_ok_def tm')
  moreover have "later w w'" using later_now [of w] n by simp
  ultimately show ?thesis using n' by (auto simp: tm')
qed

section \<open>Every operation keeps the invariant\<close>

text \<open>\<open>m\<close> bounds the length of the packets the client queues.\<close>

definition tunn_ok :: "u32 \<Rightarrow> nat \<Rightarrow> tunn \<Rightarrow> world \<Rightarrow> bool" where
  "tunn_ok g m t w \<longleftrightarrow> ring_ok g m t \<and> clock_ok t w"

lemma clock_okI: "clock_from T w \<Longrightarrow> timers_ok (tn_timers t) T \<Longrightarrow> clock_ok t w"
  by (auto simp: clock_ok_def)

lemma tunn_ok_new:
  assumes "clock_from T w" "tunn_new c sk peer psk k idx lim w = (t, w')"
  shows "tunn_ok (drop_bit 8 (push_bit 8 idx)) m t w'"
proof -
  obtain h w1 where h: "handshake_new c sk (x25519_public c sk) peer (push_bit 8 idx) psk w = (h, w1)" by fastforce
  obtain tm w2 where tm: "timers_new k (lim = None) w1 = (tm, w2)" by fastforce
  obtain rl w3 where rl: "(case lim of Some rl \<Rightarrow> (rl, w2) | None \<Rightarrow>
      rate_limiter_new c (x25519_public c sk) PEER_HANDSHAKE_RATE_LIMIT w2) = (rl, w3)" by fastforce
  have t: "t = \<lparr>tn_handshake = h, sessions = replicate N_SESSIONS None, current = 0, packet_queue = [],
      tn_timers = tm, tx_bytes = 0, rx_bytes = 0, tn_rate_limiter = rl\<rparr>" and w': "w' = w3"
    using assms(2) unfolding tunn_new_def Let_def h prod.case tm rl by simp_all
  have "later w w1" using later_handshake_new [of w c sk "x25519_public c sk" peer "push_bit 8 idx" psk] h by simp
  then have c1: "clock_from T w1" using later_clock assms(1) by blast
  obtain n where n: "instant_now w1 = (n, w2)" and tm': "time_started tm = n" "tm_timers tm = (\<lambda>_. 0)"
      "session_timers tm = replicate N_SESSIONS 0"
    using tm by (auto simp: timers_new_def Let_def split: prod.splits)
  have c2: "clock_from n w2" "wf_time n" using clock_from_now [OF c1 n] by auto
  have "later w2 w3" using rl later_rate_limiter_new [of w2 c "x25519_public c sk" PEER_HANDSHAKE_RATE_LIMIT]
    by (cases lim) auto
  then have "clock_from n w'" using later_clock c2 w' by blast
  moreover have "timers_ok tm n" using c2 by (auto simp: timers_ok_def tm')
  ultimately have "clock_ok t w'" by (auto simp: t intro: clock_okI)
  moreover have "next_index h = push_bit 8 idx" "hs_state h = HsNone" "previous h = HsNone"
    using h by (auto simp: handshake_new_def Let_def split: prod.splits)
  then have "ring_ok (drop_bit 8 (push_bit 8 idx)) m t"
    by (simp add: ring_ok_def t slots_ok_new tm' N_SESSIONS_def [symmetric] hs_peer_def)
  ultimately show ?thesis by (simp add: tunn_ok_def)
qed

lemma tunn_ok_initiation:
  assumes "tunn_ok g m t w" "tunn_format_handshake_initiation c t n f w = (r, t', w')"
  shows "tunn_ok g m t' w'"
proof (cases "is_in_progress (tn_handshake t) \<and> \<not> f")
  case True
  then show ?thesis using assms by (simp add: tunn_format_handshake_initiation_def)
next
  case False
  obtain T where T: "clock_from T w" "timers_ok (tn_timers t) T" using assms(1) by (auto simp: tunn_ok_def clock_ok_def)
  obtain tm w1 where tm: "(if is_expired (tn_handshake t) then timers_clear (tn_timers t) w else (tn_timers t, w)) = (tm, w1)"
    by fastforce
  obtain T1 where T1: "clock_from T1 w1" "timers_ok tm T1" "length (session_timers tm) = length (session_timers (tn_timers t))"
  proof (cases "is_expired (tn_handshake t)")
    case True
    then show ?thesis using timers_clear_clock [OF T, of tm w1] tm that by auto
  next
    case False
    then show ?thesis using T tm that by auto
  qed
  obtain r1 h w2 where f: "format_handshake_initiation c (tn_handshake t) n w1 = (r1, h, w2)" by (metis prod_cases3)
  let ?t1 = "t\<lparr>tn_timers := tm, tn_handshake := h\<rparr>"
  have ring: "ring_ok g m ?t1"
    using assms(1) hs_peer_format_initiation [OF _ f] T1(3) by (simp add: tunn_ok_def ring_ok_def)
  have w2: "clock_from T1 w2" using later_clock [OF T1(1) later_format_initiation [OF f]] .
  have t1: "timers_ok (tn_timers ?t1) T1" using T1 by simp
  have res: "w' = w2 \<and> (t' = ?t1 \<or> (\<exists>t2. (t2 = ?t1 \<or> t2 = timer_tick TimeLastHandshakeStarted ?t1) \<and> t' = timer_tick TimeLastPacketSent t2))"
    using assms(2) False tm f
    by (auto simp: tunn_format_handshake_initiation_def Let_def split: sum.splits if_splits)
  have "ring_ok g m t'" using ring res by (elim conjE disjE exE) simp_all
  moreover have "timers_ok (tn_timers t') T1" using t1 res by (elim conjE disjE exE) simp_all
  ultimately show ?thesis using w2 res by (auto simp: tunn_ok_def intro: clock_okI)
qed

lemma receiving_index_send [simp]: "receiving_index (s\<lparr>sending_key_counter := k\<rparr>) = receiving_index s"
  by simp

lemma slots_nth: "slots_ok g ss \<Longrightarrow> i < 8 \<Longrightarrow> slot_ok g i (ss ! i)"
  by (simp add: slots_ok_def)

lemma mod_sessions [simp]: "i mod N_SESSIONS < 8"
  by (simp add: N_SESSIONS_def)

lemma encapsulate_cases:
  assumes "encapsulate c t src n w = Returns (r, t', w')"
  obtains (sent) s where "sessions t ! (current t mod 8) = Some s" "w' = w"
    "r = WriteToNetwork (datagram c s (sending_key_counter s) src)"
    "sessions t' = (sessions t)[current t mod 8 := Some (s\<lparr>sending_key_counter := sending_key_counter s + 1\<rparr>)]"
    "packet_queue t' = packet_queue t" "tn_handshake t' = tn_handshake t" "current t' = current t"
    "tn_rate_limiter t' = tn_rate_limiter t"
    "\<And>T. timers_ok (tn_timers t) T \<Longrightarrow> timers_ok (tn_timers t') T"
    "session_timers (tn_timers t') = session_timers (tn_timers t)"
  | (queued) "sessions t ! (current t mod 8) = None"
    "tunn_format_handshake_initiation c (queue_packet src t) n False w = (r, t', w')"
proof (cases "sessions t ! (current t mod 8)")
  case None
  then show ?thesis using assms that(2) by (simp add: encapsulate_def N_SESSIONS_def)
next
  case (Some s)
  show ?thesis
    by (rule that(1) [OF Some])
       (use assms Some in \<open>auto simp: encapsulate_def N_SESSIONS_def format_packet_data_eq Let_def split: if_splits\<close>)
qed

lemma tunn_ok_queue: "tunn_ok g m t w \<Longrightarrow> length p \<le> m \<Longrightarrow> tunn_ok g m (queue_packet p t) w"
  by (auto simp: tunn_ok_def ring_ok_def queue_packet_def clock_ok_def MAX_QUEUE_DEPTH_def)

lemma tunn_ok_encapsulate:
  assumes ok: "tunn_ok g m t w" and e: "encapsulate c t src n w = Returns (r, t', w')" and len: "length src \<le> m"
  shows "tunn_ok g m t' w'"
  using e
proof (cases rule: encapsulate_cases)
  case (sent s)
  have "slot_ok g (current t mod 8) (Some s)"
    using ok sent(1) slots_nth [of g "sessions t" "current t mod 8"] by (simp add: tunn_ok_def ring_ok_def)
  then have "slot_ok g (current t mod 8) (Some (s\<lparr>sending_key_counter := sending_key_counter s + 1\<rparr>))"
    by (simp add: slot_ok_def)
  then have "ring_ok g m t'" using ok sent by (simp add: tunn_ok_def ring_ok_def slots_ok_update)
  moreover have "clock_ok t' w'" using ok sent by (auto simp: tunn_ok_def clock_ok_def)
  ultimately show ?thesis by (simp add: tunn_ok_def)
next
  case queued
  then show ?thesis using tunn_ok_initiation tunn_ok_queue [OF ok len] by blast
qed

lemma tunn_ok_send_queued:
  assumes ok: "tunn_ok g m t w" and s: "send_queued_packet c t n w = Returns (r, t', w')"
  shows "tunn_ok g m t' w'"
proof (cases "packet_queue t")
  case Nil
  then show ?thesis using ok s by (simp add: send_queued_packet_def dequeue_packet_def)
next
  case (Cons p q)
  let ?t = "t\<lparr>packet_queue := q\<rparr>"
  have ok1: "tunn_ok g m ?t w" and len: "length p \<le> m"
    using ok Cons by (auto simp: tunn_ok_def ring_ok_def clock_ok_def)
  obtain r1 t1 w1 where e: "encapsulate c ?t p n w = Returns (r1, t1, w1)"
    using s Cons by (cases "encapsulate c ?t p n w") (auto simp: send_queued_packet_def dequeue_packet_def)
  have ok2: "tunn_ok g m t1 w1" by (rule tunn_ok_encapsulate [OF ok1 e len])
  have "tunn_ok g m (requeue_packet p t1) w1"
    using ok2 len by (auto simp: tunn_ok_def ring_ok_def requeue_packet_def clock_ok_def MAX_QUEUE_DEPTH_def)
  then show ?thesis using s Cons e ok2
    by (auto simp: send_queued_packet_def dequeue_packet_def split: tunn_result.splits)
qed

lemma receive_packet_index:
  "receive_packet_data c s p n = Returns (r, s') \<Longrightarrow> receiving_index s' = receiving_index s"
  by (auto simp: receive_packet_data_def Let_def split: if_splits sum.splits option.splits prod.splits)

lemma tunn_ok_data:
  assumes ok: "tunn_ok g m t w" and d: "handle_data c t p n = Returns (r, t')"
  shows "tunn_ok g m t' w"
proof (cases "sessions t ! (unat (pd_receiver_idx p) mod 8)")
  case None
  then show ?thesis using ok d by (simp add: handle_data_def N_SESSIONS_def)
next
  case (Some s)
  let ?i = "unat (pd_receiver_idx p) mod 8"
  obtain r1 s' where rcv: "receive_packet_data c s p n = Returns (r1, s')"
    using d Some by (cases "receive_packet_data c s p n") (auto simp: handle_data_def N_SESSIONS_def)
  let ?t = "t\<lparr>sessions := (sessions t)[?i := Some s']\<rparr>"
  have "slot_ok g ?i (Some s')"
    using ok Some slots_nth [of g "sessions t" ?i] receive_packet_index [OF rcv]
    by (simp add: tunn_ok_def ring_ok_def slot_ok_def)
  then have ring: "ring_ok g m ?t" using ok by (simp add: tunn_ok_def ring_ok_def slots_ok_update)
  obtain T where T: "clock_from T w" "timers_ok (tn_timers ?t) T" using ok by (auto simp: tunn_ok_def clock_ok_def)
  show ?thesis
  proof (cases r1)
    case (Inl e)
    then show ?thesis using d Some rcv ring T by (auto simp: handle_data_def N_SESSIONS_def tunn_ok_def clock_ok_def)
  next
    case (Inr pt)
    let ?t1 = "timer_tick TimeLastPacketReceived (set_current_session (unat (pd_receiver_idx p)) ?t)"
    have t': "t' = snd (validate_decapsulated_packet ?t1 pt)"
      using d Some rcv Inr by (auto simp: handle_data_def N_SESSIONS_def Let_def split: prod.splits)
    have "ring_ok g m ?t1" "timers_ok (tn_timers ?t1) T" using ring T by simp_all
    then show ?thesis using T(1) timers_ok_validate [of ?t1 T pt]
      by (auto simp: t' tunn_ok_def ring_ok_def intro: clock_okI)
  qed
qed

lemma tunn_ok_install:
  assumes "ring_ok g m t" "timers_ok (tn_timers t) T" "clock_from T w" "drop_bit 8 (receiving_index s) = g"
  shows "tunn_ok g m (t\<lparr>sessions := (sessions t)[session_local_index s mod N_SESSIONS := Some s]\<rparr>) w"
proof -
  have "slot_ok g (session_local_index s mod N_SESSIONS) (Some s)"
    using assms by (simp add: slot_ok_def session_local_index_def N_SESSIONS_def)
  then show ?thesis using assms by (auto simp: tunn_ok_def ring_ok_def slots_ok_update intro: clock_okI)
qed

lemma tunn_ok_tick [simp]:
  "tunn_ok g m t w \<Longrightarrow> tunn_ok g m (timer_tick n t) w"
  "tunn_ok g m t w \<Longrightarrow> tunn_ok g m (timer_tick_session_established b i t) w"
  "tunn_ok g m t w \<Longrightarrow> tunn_ok g m (set_current_session i t) w"
  by (auto simp: tunn_ok_def clock_ok_def intro: timers_ok_tick timers_ok_established)

lemma tunn_ok_handshake:
  assumes "tunn_ok g m t w" "hs_peer g h" "later w w'"
  shows "ring_ok g m (t\<lparr>tn_handshake := h\<rparr>) \<and> (\<exists>T. timers_ok (tn_timers (t\<lparr>tn_handshake := h\<rparr>)) T \<and> clock_from T w')"
  using assms later_clock by (fastforce simp: tunn_ok_def ring_ok_def clock_ok_def)

lemma tunn_ok_handle_init:
  assumes ok: "tunn_ok g m t w" and d: "handle_handshake_init c t p n w = Returns (r, t', w')"
  shows "tunn_ok g m t' w'"
proof -
  obtain r1 h w1 where rcv: "receive_handshake_initialization c (tn_handshake t) p n w = Returns (r1, h, w1)"
    using d by (cases "receive_handshake_initialization c (tn_handshake t) p n w") (auto simp: handle_handshake_init_def)
  have peer: "hs_peer g h" "\<And>dg s. r1 = Inr (dg, s) \<Longrightarrow> drop_bit 8 (receiving_index s) = g"
    using hs_peer_receive_init [OF _ rcv] ok by (auto simp: tunn_ok_def ring_ok_def)
  obtain T where T: "ring_ok g m (t\<lparr>tn_handshake := h\<rparr>)" "timers_ok (tn_timers (t\<lparr>tn_handshake := h\<rparr>)) T" "clock_from T w1"
    using tunn_ok_handshake [OF ok peer(1) later_receive_init [OF rcv]] by auto
  show ?thesis
  proof (cases r1)
    case (Inl e)
    then show ?thesis using d rcv T by (auto simp: handle_handshake_init_def tunn_ok_def intro: clock_okI)
  next
    case (Inr ds)
    then obtain dg s where ds: "r1 = Inr (dg, s)" by (cases ds) auto
    have "tunn_ok g m ((t\<lparr>tn_handshake := h\<rparr>)\<lparr>sessions := (sessions (t\<lparr>tn_handshake := h\<rparr>))
        [session_local_index s mod N_SESSIONS := Some s]\<rparr>) w1"
      using tunn_ok_install [OF T peer(2) [OF ds]] .
    then show ?thesis using d rcv ds by (auto simp: handle_handshake_init_def Let_def)
  qed
qed

lemma tunn_ok_handle_response:
  assumes ok: "tunn_ok g m t w" and d: "handle_handshake_response c t p n w = Returns (r, t', w')"
  shows "tunn_ok g m t' w'"
proof -
  obtain r1 h w1 where rcv: "receive_handshake_response c (tn_handshake t) p w = (r1, h, w1)" by (metis prod_cases3)
  have peer: "hs_peer g h" "\<And>s. r1 = Inr s \<Longrightarrow> drop_bit 8 (receiving_index s) = g"
    using hs_peer_receive_response [OF _ rcv] ok by (auto simp: tunn_ok_def ring_ok_def)
  obtain T where T: "ring_ok g m (t\<lparr>tn_handshake := h\<rparr>)" "timers_ok (tn_timers (t\<lparr>tn_handshake := h\<rparr>)) T" "clock_from T w1"
    using tunn_ok_handshake [OF ok peer(1) later_receive_response [OF rcv]] by auto
  show ?thesis
  proof (cases r1)
    case (Inl e)
    then show ?thesis using d rcv T by (auto simp: handle_handshake_response_def tunn_ok_def intro: clock_okI)
  next
    case (Inr s)
    let ?s = "s\<lparr>sending_key_counter := sending_key_counter s + 1\<rparr>"
    have "tunn_ok g m ((t\<lparr>tn_handshake := h\<rparr>)\<lparr>sessions := (sessions (t\<lparr>tn_handshake := h\<rparr>))
        [session_local_index ?s mod N_SESSIONS := Some ?s]\<rparr>) w1"
      by (rule tunn_ok_install [OF T]) (simp add: peer(2) [OF Inr])
    then show ?thesis using d rcv Inr
      by (auto simp: handle_handshake_response_def format_packet_data_eq session_local_index_def Let_def split: if_splits)
  qed
qed

lemma tunn_ok_handle_cookie:
  assumes ok: "tunn_ok g m t w" and d: "handle_cookie_reply c t p = (r, t')"
  shows "tunn_ok g m t' w"
proof -
  obtain r1 h where rcv: "receive_cookie_reply c (tn_handshake t) p = (r1, h)" by fastforce
  have "tunn_ok g m (t\<lparr>tn_handshake := h\<rparr>) w"
    using hs_peer_receive_cookie [OF _ rcv] ok by (auto simp: tunn_ok_def ring_ok_def clock_ok_def)
  then show ?thesis using d rcv by (auto simp: handle_cookie_reply_def Let_def split: sum.splits)
qed

lemma tunn_ok_handle_verified:
  assumes ok: "tunn_ok g m t w" and d: "handle_verified_packet c t p n w = Returns (r, t', w')"
  shows "tunn_ok g m t' w'"
proof (cases p)
  case (HandshakeInit i)
  then show ?thesis using d tunn_ok_handle_init [OF ok]
    by (cases "handle_handshake_init c t i n w") (auto simp: handle_verified_packet_def)
next
  case (HandshakeResponse i)
  then show ?thesis using d tunn_ok_handle_response [OF ok]
    by (cases "handle_handshake_response c t i n w") (auto simp: handle_verified_packet_def)
next
  case (PacketCookieReply i)
  then show ?thesis using d tunn_ok_handle_cookie [OF ok] by (auto simp: handle_verified_packet_def split: prod.splits)
next
  case (PacketData i)
  then show ?thesis using d tunn_ok_data [OF ok]
    by (cases "handle_data c t i n") (auto simp: handle_verified_packet_def)
qed

lemma tunn_ok_decapsulate:
  assumes ok: "tunn_ok g m t w" and d: "decapsulate c t a dg n w = Returns (r, t', w')"
  shows "tunn_ok g m t' w'"
proof (cases "dg = []")
  case True
  then show ?thesis using d tunn_ok_send_queued [OF ok] by (simp add: decapsulate_def)
next
  case False
  obtain v rl w1 where v: "verify_packet c (tn_rate_limiter t) a dg COOKIE_REPLY_SZ w = (v, rl, w1)" by (metis prod_cases3)
  have ok1: "tunn_ok g m (t\<lparr>tn_rate_limiter := rl\<rparr>) w1"
    using ok later_clock [OF _ later_verify [OF v]] by (auto simp: tunn_ok_def ring_ok_def clock_ok_def)
  show ?thesis
  proof (cases v)
    case (Inl e)
    then show ?thesis using d False v ok1
      by (auto simp: decapsulate_def Let_def split: tunn_result.splits if_splits)
  next
    case (Inr p)
    then show ?thesis using d False v tunn_ok_handle_verified [OF ok1] by (simp add: decapsulate_def Let_def)
  qed
qed

section \<open>The timer handler\<close>

lemma aged_returns: "t \<le> now \<Longrightarrow> aged now t limit = Returns (limit \<le> now - t)"
  by (simp add: aged_def duration_sub_def)

lemma and_then_returns: "and_then b (Returns x) = Returns (b \<and> x)"
  by (simp add: and_then_def)

lemma expire_sessions_eq:
  "length ds = length ss \<Longrightarrow> list_all (\<lambda>d. d \<le> now) ds \<Longrightarrow>
     expire_sessions now ds ss =
       Returns (map (\<lambda>d. if REJECT_AFTER_TIME < now - d then now else d) ds,
                map2 (\<lambda>d s. if REJECT_AFTER_TIME < now - d then None else s) ds ss)"
  by (induction ds ss rule: list_induct2) (simp_all add: duration_sub_def)

lemma slots_ok_expire:
  "slots_ok g ss \<Longrightarrow> length ds = 8 \<Longrightarrow> slots_ok g (map2 (\<lambda>d s. if P d then None else s) ds ss)"
  by (auto simp: slots_ok_def slot_ok_def)

lemma update_session_timers_ok:
  assumes ring: "ring_ok g m t" and ok: "timers_ok (tn_timers t) T"
    and now: "now = duration_since T (time_started (tn_timers t))"
  shows "\<exists>t'. update_session_timers now t = Returns t' \<and> ring_ok g m t' \<and> timers_ok (tn_timers t') T \<and>
    sessions t' = map2 (\<lambda>d s. if REJECT_AFTER_TIME < now - d then None else s) (session_timers (tn_timers t)) (sessions t) \<and>
    time_started (tn_timers t') = time_started (tn_timers t) \<and> tm_timers (tn_timers t') = tm_timers (tn_timers t) \<and>
    tn_handshake t' = tn_handshake t \<and> packet_queue t' = packet_queue t"
proof -
  have "list_all (\<lambda>d. d \<le> now) (session_timers (tn_timers t))"
    using ok by (simp add: timers_ok_def list_all_iff now)
  then show ?thesis using ring ok
    by (auto simp: update_session_timers_def expire_sessions_eq ring_ok_def slots_ok_expire timers_ok_def now
        slots_ok_def [of g "sessions t"])
qed

text \<open>The timers of a tunnel are not ahead of the current reading.\<close>

definition timers_upto :: "tunn \<Rightarrow> duration \<Rightarrow> bool" where
  "timers_upto t now \<longleftrightarrow> (\<forall>n. timer t n \<le> now)"

text \<open>
  When the two messages are due, as the protocol states it: a rekey when the initiator's key is
  120 seconds old and was used to send, or 165 seconds old and was used to receive, or when a sent
  packet got no answer for 15 seconds; a keepalive when a received packet got no answer for 10
  seconds, or when the persistent interval has passed.
\<close>

definition rekey_due :: "tunn \<Rightarrow> duration \<Rightarrow> bool" where
  "rekey_due t now \<longleftrightarrow>
     is_initiator (tn_timers t) \<and> timer t TimeSessionEstablished < timer t TimeLastDataPacketSent \<and>
       from_secs 120 \<le> now - timer t TimeSessionEstablished \<or>
     is_initiator (tn_timers t) \<and> timer t TimeSessionEstablished < timer t TimeLastDataPacketReceived \<and>
       from_secs 165 \<le> now - timer t TimeSessionEstablished \<or>
     timer t TimeLastPacketReceived < timer t TimeLastDataPacketSent \<and>
       from_secs 15 \<le> now - timer t TimeLastPacketReceived \<and> want_handshake (tn_timers t)"

definition keepalive_due :: "tunn \<Rightarrow> duration \<Rightarrow> bool" where
  "keepalive_due t now \<longleftrightarrow>
     timer t TimeLastPacketSent < timer t TimeLastDataPacketReceived \<and>
       from_secs 10 \<le> now - timer t TimeLastPacketSent \<and> want_keepalive (tn_timers t) \<or>
     0 < persistent_keepalive (tn_timers t) \<and>
       from_secs (persistent_keepalive (tn_timers t)) \<le> now - timer t TimePersistentKeepalive"

text \<open>A tunnel whose want-flags were cleared.\<close>

definition set_flags :: "bool \<Rightarrow> bool \<Rightarrow> tunn \<Rightarrow> tunn" where
  "set_flags h k t = t\<lparr>tn_timers := (tn_timers t)\<lparr>want_handshake := h, want_keepalive := k\<rparr>\<rparr>"

lemma tunn_ok_set_flags [simp]: "tunn_ok g m (set_flags h k t) w = tunn_ok g m t w"
  by (simp add: tunn_ok_def ring_ok_def clock_ok_def timers_ok_def set_flags_def)

lemma set_flags_fields [simp]:
  "sessions (set_flags h k t) = sessions t" "current (set_flags h k t) = current t"
  "tn_handshake (set_flags h k t) = tn_handshake t" "packet_queue (set_flags h k t) = packet_queue t"
  "timer (set_flags h k t) n = timer t n" "is_initiator (tn_timers (set_flags h k t)) = is_initiator (tn_timers t)"
  by (simp_all add: set_flags_def)

lemma idle_timers_eq:
  assumes up: "timers_upto t now"
  shows "\<exists>h k b. idle_timers t now =
    Returns (rekey_due t now, \<not> rekey_due t now \<and> keepalive_due t now,
      if b then timer_tick TimePersistentKeepalive (set_flags h k t) else set_flags h k t)"
proof -
  have le: "timer t n \<le> now" for n using up by (simp add: timers_upto_def)
  define on_send where "on_send \<longleftrightarrow> is_initiator (tn_timers t) \<and> timer t TimeSessionEstablished < timer t TimeLastDataPacketSent \<and>
    from_secs 120 \<le> now - timer t TimeSessionEstablished"
  define on_recv where "on_recv \<longleftrightarrow> is_initiator (tn_timers t) \<and> timer t TimeSessionEstablished < timer t TimeLastDataPacketReceived \<and>
    from_secs 165 \<le> now - timer t TimeSessionEstablished"
  define silent where "silent \<longleftrightarrow> timer t TimeLastPacketReceived < timer t TimeLastDataPacketSent \<and>
    from_secs 15 \<le> now - timer t TimeLastPacketReceived"
  have secs_eq: "from_secs 180 - from_secs 10 - from_secs 5 = from_secs 165"
    "from_secs 10 + from_secs 5 = from_secs 15"
    by (simp_all add: from_secs_def)
  define t1 where "t1 = (if silent then t\<lparr>tn_timers := (tn_timers t)\<lparr>want_handshake := False\<rparr>\<rparr> else t)"
  obtain h1 where h1: "t1 = set_flags h1 (want_keepalive (tn_timers t)) t"
    using that [of "\<not> silent \<and> want_handshake (tn_timers t)"] by (simp add: t1_def set_flags_def)
  have w1: "want_keepalive (tn_timers t1) = want_keepalive (tn_timers t)"
    "\<And>n. timer t1 n = timer t n" by (simp_all add: h1 set_flags_def)
  let ?owed = "timer t TimeLastPacketSent < timer t TimeLastDataPacketReceived \<and> from_secs 10 \<le> now - timer t TimeLastPacketSent"
  define t2 where "t2 = (if ?owed then t1\<lparr>tn_timers := (tn_timers t1)\<lparr>want_keepalive := False\<rparr>\<rparr> else t1)"
  obtain k2 where t2: "t2 = set_flags h1 k2 t"
    using that [of "\<not> ?owed \<and> want_keepalive (tn_timers t)"] by (simp add: t2_def h1 set_flags_def)
  then have w2: "\<And>n. timer t2 n = timer t n" by simp
  let ?pers = "0 < persistent_keepalive (tn_timers t) \<and>
    from_secs (persistent_keepalive (tn_timers t)) \<le> now - timer t TimePersistentKeepalive"
  have "idle_timers t now =
    (if on_send \<or> on_recv \<or> silent \<and> want_handshake (tn_timers t) then Returns (True, False, t1)
     else Returns (False, ?owed \<and> want_keepalive (tn_timers t) \<or> ?pers,
       if ?pers then timer_tick TimePersistentKeepalive t2 else t2))"
  proof -
    have a: "and_then (is_initiator (tn_timers t) \<and> timer t TimeSessionEstablished < timer t TimeLastDataPacketSent)
        (aged now (timer t TimeSessionEstablished) REKEY_AFTER_TIME) = Returns on_send"
      "and_then (is_initiator (tn_timers t) \<and> timer t TimeSessionEstablished < timer t TimeLastDataPacketReceived)
        (aged now (timer t TimeSessionEstablished) (REJECT_AFTER_TIME - KEEPALIVE_TIMEOUT - REKEY_TIMEOUT)) = Returns on_recv"
      "and_then (timer t TimeLastPacketReceived < timer t TimeLastDataPacketSent)
        (aged now (timer t TimeLastPacketReceived) (KEEPALIVE_TIMEOUT + REKEY_TIMEOUT)) = Returns silent"
      "and_then (timer t TimeLastPacketSent < timer t TimeLastDataPacketReceived)
        (aged now (timer t TimeLastPacketSent) KEEPALIVE_TIMEOUT) = Returns ?owed"
      "and_then (0 < persistent_keepalive (tn_timers t))
        (aged now (timer t2 TimePersistentKeepalive) (from_secs (persistent_keepalive (tn_timers t)))) = Returns ?pers"
      unfolding on_send_def on_recv_def silent_def
      by (simp_all only: aged_returns [OF le] and_then_returns w2 timer_consts secs_eq conj_assoc)
    show ?thesis
      by (simp only: idle_timers_def Let_def a(1-4) obind.simps t1_def [symmetric] w1(1) t2_def [symmetric] a(5))
  qed
  moreover have "rekey_due t now \<longleftrightarrow> on_send \<or> on_recv \<or> silent \<and> want_handshake (tn_timers t)"
    by (auto simp: rekey_due_def on_send_def on_recv_def silent_def)
  ultimately show ?thesis using t2 h1 by (auto simp: keepalive_due_def)
qed

lemma tunn_ok_idle:
  assumes "timers_upto t now" "idle_timers t now = Returns (h, k, t')" "tunn_ok g m t w"
  shows "tunn_ok g m t' w \<and> sessions t' = sessions t \<and> current t' = current t"
  using idle_timers_eq [OF assms(1)] assms(2,3) by auto

lemma tunn_ok_expire_connection:
  assumes ok: "tunn_ok g m t w" and e: "expire_connection t w = (t', w')"
  shows "tunn_ok g m t' w'"
proof -
  obtain T where T: "clock_from T w" "timers_ok (tn_timers t) T" using ok by (auto simp: tunn_ok_def clock_ok_def)
  obtain tm where tm: "timers_clear (tn_timers t) w = (tm, w')"
    and t': "t' = t\<lparr>tn_handshake := set_expired (tn_handshake t), sessions := map (\<lambda>_. None) (sessions t),
      packet_queue := [], tn_timers := tm\<rparr>"
    using e by (auto simp: expire_connection_def clear_all_def Let_def split: prod.splits)
  obtain T' where "clock_from T' w'" "timers_ok tm T'" "length (session_timers tm) = length (session_timers (tn_timers t))"
    using timers_clear_clock [OF T tm] by auto
  then show ?thesis using ok
    by (auto simp: tunn_ok_def ring_ok_def t' slots_ok_clear intro: clock_okI)
qed

lemma encapsulate_returns: "length src + 32 \<le> n \<Longrightarrow> \<exists>r t' w'. encapsulate c t src n w = Returns (r, t', w')"
  by (cases "tunn_format_handshake_initiation c (queue_packet src t) n False w")
     (auto simp: encapsulate_def format_packet_data_eq Let_def split: option.splits)

text \<open>\<open>update_timers\<close> from the point where the clock has been read and the sessions expired.\<close>

definition timers_tail :: "crypto \<Rightarrow> tunn \<Rightarrow> duration \<Rightarrow> nat \<Rightarrow> world \<Rightarrow> (tunn_result \<times> tunn \<times> world) outcome" where
  "timers_tail c t now dst_len w =
     (if is_expired (tn_handshake t) then Returns (TErr ConnectionExpired, t, w)
      else
        let t = (if has_cookie (tn_handshake t) \<and> COOKIE_EXPIRATION_TIME \<le> now - timer t TimeCookieReceived
                 then t\<lparr>tn_handshake := clear_cookie (tn_handshake t)\<rparr> else t)
        in if from_secs 540 \<le> now - timer t TimeSessionEstablished
           then (case expire_connection t w of (t, w) \<Rightarrow> Returns (TErr ConnectionExpired, t, w))
           else
             case hs_timer (tn_handshake t) of
               Some time_init_sent \<Rightarrow>
                 if REKEY_ATTEMPT_TIME \<le> now - timer t TimeLastHandshakeStarted
                 then (case expire_connection t w of (t, w) \<Rightarrow> Returns (TErr ConnectionExpired, t, w))
                 else
                   let (waited, w) = elapsed time_init_sent w in
                   if REKEY_TIMEOUT \<le> waited then Returns (tunn_format_handshake_initiation c t dst_len True w)
                   else Returns (Done, t, w)
             | None \<Rightarrow>
                 obind (idle_timers t now) (\<lambda>(handshake_required, keepalive_required, t).
                 if handshake_required then Returns (tunn_format_handshake_initiation c t dst_len True w)
                 else if keepalive_required then encapsulate c t [] dst_len w
                 else Returns (Done, t, w)))"

lemma tunn_ok_cookie [simp]: "tunn_ok g m t w \<Longrightarrow> tunn_ok g m (t\<lparr>tn_handshake := clear_cookie (tn_handshake t)\<rparr>) w"
  by (simp add: tunn_ok_def ring_ok_def clock_ok_def)

lemma tunn_ok_later: "tunn_ok g m t w \<Longrightarrow> later w w' \<Longrightarrow> tunn_ok g m t w'"
  using later_clock by (auto simp: tunn_ok_def clock_ok_def)

lemma timers_tail_ok:
  assumes ok: "tunn_ok g m t w" and up: "timers_upto t now" and n: "32 \<le> n"
  shows "\<exists>r t' w'. timers_tail c t now n w = Returns (r, t', w') \<and> tunn_ok g m t' w'"
proof -
  define t1 where "t1 = (if has_cookie (tn_handshake t) \<and> COOKIE_EXPIRATION_TIME \<le> now - timer t TimeCookieReceived
    then t\<lparr>tn_handshake := clear_cookie (tn_handshake t)\<rparr> else t)"
  define good where "good x \<longleftrightarrow> (\<exists>r t' w'. x = Returns (r, t', w') \<and> tunn_ok g m t' w')" for x :: "(tunn_result \<times> tunn \<times> world) outcome"
  have ret: "good (Returns x) \<longleftrightarrow> tunn_ok g m (fst (snd x)) (snd (snd x))" for x
    unfolding good_def by (cases x) auto
  have ok1: "tunn_ok g m t1 w" and up1: "timers_upto t1 now"
    using ok up by (simp_all add: t1_def timers_upto_def)
  have init: "good (Returns (tunn_format_handshake_initiation c t2 n b w2))" if "tunn_ok g m t2 w2" for t2 w2 b
    unfolding ret using tunn_ok_initiation [OF that] by (metis prod.collapse)
  have exp: "good (case expire_connection t1 w of (t, w) \<Rightarrow> Returns (TErr ConnectionExpired, t, w))"
    using tunn_ok_expire_connection [OF ok1] by (cases "expire_connection t1 w") (simp add: ret)
  have el: "tunn_ok g m t1 (snd (elapsed s w))" for s
    using tunn_ok_later [OF ok1 later_now] by (simp add: elapsed_def case_prod_beta)
  obtain h k t2 where idle: "idle_timers t1 now = Returns (h, k, t2)" using idle_timers_eq [OF up1] by blast
  have ok2: "tunn_ok g m t2 w" using tunn_ok_idle [OF up1 idle ok1] by simp
  obtain r3 t3 w3 where enc: "encapsulate c t2 [] n w = Returns (r3, t3, w3)" using encapsulate_returns n by fastforce
  have ok3: "tunn_ok g m t3 w3" by (rule tunn_ok_encapsulate [OF ok2 enc]) simp
  have "good (timers_tail c t now n w)"
    unfolding timers_tail_def Let_def t1_def [symmetric] idle obind.simps enc case_prod_beta fst_conv snd_conv
    using ok ok1 ok2 ok3 exp init [OF el] init [OF ok2] el
    by (simp add: case_prod_beta ret split: option.split)
  then show ?thesis by (simp add: good_def)
qed

text \<open>The state of a tunnel after \<open>update_timers\<close> has read the clock at \<open>time\<close> and reset the limiter.\<close>

lemma update_timers_eq:
  assumes ok: "tunn_ok g m t w"
  shows "\<exists>time t1 w1. time = w_instants w 0 \<and>
    (let now = duration_since time (time_started (tn_timers t)) in
     update_timers c t n w = timers_tail c t1 now n w1 \<and> tunn_ok g m t1 w1 \<and> timers_upto t1 now \<and>
     sessions t1 = map2 (\<lambda>d s. if REJECT_AFTER_TIME < now - d then None else s)
       (session_timers (tn_timers t)) (sessions t) \<and>
     tm_timers (tn_timers t1) = (tm_timers (tn_timers t))(TimeCurrent := now) \<and>
     tn_handshake t1 = tn_handshake t \<and> packet_queue t1 = packet_queue t)"
proof -
  obtain T where T: "clock_from T w" "timers_ok (tn_timers t) T" using ok by (auto simp: tunn_ok_def clock_ok_def)
  obtain time w0 where time: "instant_now w = (time, w0)" by fastforce
  have tw: "time = w_instants w 0" using time by (simp add: instant_now_def)
  have c0: "clock_from time w0" "wf_time time" "nanos T \<le> nanos time" using clock_from_now [OF T(1) time] by auto
  obtain rl w1 where rl: "(if should_reset_rr (tn_timers t) then reset_count (tn_rate_limiter t) w0
      else (tn_rate_limiter t, w0)) = (rl, w1)" by fastforce
  have "later w0 w1" using rl later_now [of w0]
    by (auto simp: reset_count_def Let_def case_prod_beta split: if_splits)
  then have c1: "clock_from time w1" using later_clock c0(1) by blast
  define now where "now = duration_since time (time_started (tn_timers t))"
  define t1 where "t1 = set_timer TimeCurrent now (t\<lparr>tn_rate_limiter := rl\<rparr>)"
  have "timers_ok (tn_timers t) time" using timers_ok_later [OF T(2)] c0 T(1) by (simp add: clock_from_def)
  then have ok1: "timers_ok (tn_timers t1) time" "ring_ok g m t1"
    using ok by (simp_all add: t1_def set_timer_def timers_ok_def now_def tunn_ok_def ring_ok_def)
  have now1: "now = duration_since time (time_started (tn_timers t1))" by (simp add: now_def t1_def set_timer_def)
  obtain t2 where t2: "update_session_timers now t1 = Returns t2" "ring_ok g m t2" "timers_ok (tn_timers t2) time"
    "sessions t2 = map2 (\<lambda>d s. if REJECT_AFTER_TIME < now - d then None else s) (session_timers (tn_timers t1)) (sessions t1)"
    "time_started (tn_timers t2) = time_started (tn_timers t1)" "tm_timers (tn_timers t2) = tm_timers (tn_timers t1)"
    "tn_handshake t2 = tn_handshake t1" "packet_queue t2 = packet_queue t1"
    using update_session_timers_ok [OF ok1(2,1) now1] by blast
  have up: "timers_upto t2 now" using t2 now1 by (simp add: timers_upto_def timers_ok_def)
  then have le: "timer t2 k \<le> now" for k by (simp add: timers_upto_def)
  have le': "timer (if b then t2\<lparr>tn_handshake := h\<rparr> else t2) k \<le> now" for b h k using le by simp
  have "update_timers c t n w = timers_tail c t2 now n w1"
  proof -
    have st: "time_started (tn_timers (t\<lparr>tn_rate_limiter := rl\<rparr>)) = time_started (tn_timers t)" by simp
    have r3: "REJECT_AFTER_TIME * 3 = from_secs 540" by (simp add: timer_consts from_secs_def)
    show ?thesis
      unfolding update_timers_def timers_tail_def Let_def time rl prod.case st
      by (simp only: now_def [symmetric] t1_def [symmetric] t2(1) obind.simps aged_returns [OF le] and_then_returns
          aged_returns [OF le'] r3 cong: option.case_cong if_cong)
  qed
  moreover have "tunn_ok g m t2 w1" using t2 c1 by (auto simp: tunn_ok_def intro: clock_okI)
  moreover have "duration_since (w_instants w 0) (time_started (tn_timers t)) = now" by (simp add: now_def tw)
  ultimately show ?thesis using up t2 tw
    by (intro exI [of _ time] exI [of _ t2] exI [of _ w1]) (simp add: Let_def t1_def set_timer_def)
qed

lemma update_timers_ok:
  "tunn_ok g m t w \<Longrightarrow> 32 \<le> n \<Longrightarrow> \<exists>r t' w'. update_timers c t n w = Returns (r, t', w') \<and> tunn_ok g m t' w'"
  using update_timers_eq [of g m t w c n] timers_tail_ok [of g m _ _ _ n c] by (fastforce simp: Let_def)

section \<open>No operation panics\<close>

lemma send_queued_returns:
  assumes ok: "tunn_ok g m t w" and n: "m + 32 \<le> n"
  shows "\<exists>r t' w'. send_queued_packet c t n w = Returns (r, t', w')"
proof (cases "packet_queue t")
  case Nil
  then show ?thesis by (simp add: send_queued_packet_def dequeue_packet_def)
next
  case (Cons p q)
  then have "length p + 32 \<le> n" using ok n by (auto simp: tunn_ok_def ring_ok_def)
  then obtain r t' w' where "encapsulate c (t\<lparr>packet_queue := q\<rparr>) p n w = Returns (r, t', w')"
    using encapsulate_returns by blast
  then show ?thesis using Cons by (cases r) (auto simp: send_queued_packet_def dequeue_packet_def)
qed

lemma receive_initialization_returns:
  "\<exists>r h' w'. receive_handshake_initialization c h p n w = Returns (r, h', w')"
proof -
  have "\<exists>r h' w'. format_handshake_response c h n w = Returns (r, h', w')"
    if "hs_state h = InitReceived a b d e" for h a b d e
    using that by (auto simp: format_handshake_response_def Let_def case_prod_beta)
  then show ?thesis
    by (auto simp: receive_handshake_initialization_eq Let_def case_prod_beta split: option.splits)
qed

lemma receive_packet_returns:
  assumes "16 \<le> length (pd_encrypted_encapsulated_packet p)" "length (pd_encrypted_encapsulated_packet p) \<le> n"
  shows "\<exists>r s'. receive_packet_data c s p n = Returns (r, s')"
  using assms
  by (auto simp: receive_packet_data_def Let_def AEAD_SIZE_def split: sum.splits option.splits prod.splits)

lemma handle_verified_returns:
  assumes n: "148 \<le> n" and wf: "wf_packet p" "length (packet_bytes p) \<le> n + 16"
  shows "\<exists>r t' w'. handle_verified_packet c t p n w = Returns (r, t', w')"
proof (cases p)
  case (HandshakeInit i)
  obtain r h w' where "receive_handshake_initialization c (tn_handshake t) i n w = Returns (r, h, w')"
    using receive_initialization_returns by blast
  then show ?thesis using HandshakeInit
    by (cases r) (auto simp: handle_verified_packet_def handle_handshake_init_def Let_def)
next
  case (HandshakeResponse i)
  obtain r h w' where "receive_handshake_response c (tn_handshake t) i w = (r, h, w')" by (metis prod_cases3)
  then show ?thesis using HandshakeResponse n
    by (cases r) (auto simp: handle_verified_packet_def handle_handshake_response_def format_packet_data_eq Let_def)
next
  case (PacketCookieReply i)
  then show ?thesis by (auto simp: handle_verified_packet_def split: prod.splits)
next
  case (PacketData d)
  show ?thesis
  proof (cases "sessions t ! (unat (pd_receiver_idx d) mod N_SESSIONS)")
    case None
    then show ?thesis using PacketData by (simp add: handle_verified_packet_def handle_data_def)
  next
    case (Some s)
    obtain r s' where "receive_packet_data c s d n = Returns (r, s')"
      using receive_packet_returns [of d n c s] wf PacketData by auto
    then show ?thesis using PacketData Some
      by (cases r) (auto simp: handle_verified_packet_def handle_data_def Let_def split: prod.splits)
  qed
qed

lemma verify_packet_result:
  assumes "crypto_ok c" "verify_packet c rl a src 64 w = (r, rl', w')"
  shows "(\<exists>p. r = Inr p \<and> parse_incoming_packet src = Inr p) \<or> (\<exists>e. r = Inl (TErr e)) \<or>
    (\<exists>ck. r = Inl (WriteToNetwork ck) \<and> length ck = 64)"
proof -
  have "length (fst (rl_nonce c rl)) = 24" for rl
    using assms(1) by (simp add: rl_nonce_def crypto_ok_lengths)
  moreover have "length (fst (current_cookie c rl b w)) = 16" for rl b w
    using length_current_cookie [OF assms(1)] by simp
  ultimately have "length ck = 64" if "fst (format_cookie_reply c rl i (fst (current_cookie c rl' b w)) m 64) = Inr ck"
    for rl i rl' b w m ck
    using that xchacha_laws(1,2) [OF assms(1)]
    by (auto simp: format_cookie_reply_def Let_def case_prod_beta)
  then show ?thesis using assms(2)
    by (auto simp: verify_packet_def Let_def case_prod_beta split: sum.splits option.splits if_splits prod.splits)
qed

lemma decapsulate_returns:
  assumes c: "crypto_ok c" and ok: "tunn_ok g m t w" and n: "148 \<le> n" "m + 32 \<le> n" and len: "length dg \<le> n + 16"
  shows "\<exists>r t' w'. decapsulate c t a dg n w = Returns (r, t', w')"
proof (cases "dg = []")
  case True
  then show ?thesis using send_queued_returns [OF ok n(2)] by (simp add: decapsulate_def)
next
  case False
  obtain v rl w1 where v: "verify_packet c (tn_rate_limiter t) a dg 64 w = (v, rl, w1)" by (metis prod_cases3)
  consider p where "v = Inr p" "parse_incoming_packet dg = Inr p" | e where "v = Inl (TErr e)"
    | ck where "v = Inl (WriteToNetwork ck)" "length ck = 64"
    using verify_packet_result [OF c v] by blast
  then show ?thesis
  proof cases
    case (1 p)
    have "wf_packet p" "length (packet_bytes p) \<le> n + 16"
      using parse_incoming_packet_sound [OF 1(2)] len by auto
    then show ?thesis using handle_verified_returns [OF n(1)] False v 1 by (simp add: decapsulate_def Let_def)
  qed (use False v n in \<open>simp_all add: decapsulate_def Let_def\<close>)
qed

text \<open>The calls a client makes on a tunnel, all with a buffer of length \<open>n\<close>.\<close>

datatype tunn_op =
    Encapsulate bytes
  | Decapsulate "ip_addr option" bytes
  | UpdateTimers
  | InitiateHandshake bool

primrec tunn_step :: "crypto \<Rightarrow> nat \<Rightarrow> tunn_op \<Rightarrow> tunn \<Rightarrow> world \<Rightarrow> (tunn_result \<times> tunn \<times> world) outcome" where
  "tunn_step c n (Encapsulate src) t w = encapsulate c t src n w"
| "tunn_step c n (Decapsulate a dg) t w = decapsulate c t a dg n w"
| "tunn_step c n UpdateTimers t w = update_timers c t n w"
| "tunn_step c n (InitiateHandshake force) t w = Returns (tunn_format_handshake_initiation c t n force w)"

primrec op_fits :: "nat \<Rightarrow> tunn_op \<Rightarrow> bool" where
  "op_fits n (Encapsulate src) \<longleftrightarrow> length src + 32 \<le> n"
| "op_fits n (Decapsulate a dg) \<longleftrightarrow> length dg \<le> n + 16"
| "op_fits n UpdateTimers \<longleftrightarrow> True"
| "op_fits n (InitiateHandshake force) \<longleftrightarrow> True"

fun tunn_run :: "crypto \<Rightarrow> nat \<Rightarrow> tunn_op list \<Rightarrow> tunn \<Rightarrow> world \<Rightarrow> (tunn_result list \<times> tunn \<times> world) outcome" where
  "tunn_run c n [] t w = Returns ([], t, w)"
| "tunn_run c n (p # ps) t w =
     obind (tunn_step c n p t w) (\<lambda>(r, t, w).
     obind (tunn_run c n ps t w) (\<lambda>(rs, t, w). Returns (r # rs, t, w)))"

lemma tunn_step_ok:
  assumes c: "crypto_ok c" and ok: "tunn_ok g (n - 32) t w" and n: "148 \<le> n" and fits: "op_fits n p"
  shows "\<exists>r t' w'. tunn_step c n p t w = Returns (r, t', w') \<and> tunn_ok g (n - 32) t' w'"
proof (cases p)
  case (Encapsulate src)
  then show ?thesis using encapsulate_returns [of src n c t w] fits n tunn_ok_encapsulate [OF ok, of c src n] by fastforce
next
  case (Decapsulate a dg)
  then show ?thesis using decapsulate_returns [OF c ok n, of dg a] fits n tunn_ok_decapsulate [OF ok, of c a dg n] by fastforce
next
  case UpdateTimers
  then show ?thesis using update_timers_ok [OF ok, of n c] n by simp
next
  case (InitiateHandshake b)
  then show ?thesis using tunn_ok_initiation [OF ok] by (cases "tunn_format_handshake_initiation c t n b w") simp
qed

lemma tunn_run_ok:
  "crypto_ok c \<Longrightarrow> 148 \<le> n \<Longrightarrow> list_all (op_fits n) ps \<Longrightarrow> tunn_ok g (n - 32) t w \<Longrightarrow>
     \<exists>rs t' w'. tunn_run c n ps t w = Returns (rs, t', w') \<and> tunn_ok g (n - 32) t' w'"
proof (induction ps arbitrary: t w)
  case Nil
  then show ?case by simp
next
  case (Cons p ps)
  then obtain r t1 w1 where "tunn_step c n p t w = Returns (r, t1, w1)" "tunn_ok g (n - 32) t1 w1"
    using tunn_step_ok [of c g n t w p] by auto
  then show ?case using Cons.IH [of t1 w1] Cons.prems by auto
qed

end
