(* ===== verification/Tunn_Safety.thy ===== *)
theory Tunn_Safety
  imports Tunn_Invariant
begin

text \<open>
  What a client of a tunnel can rely on: no call panics, old sessions disappear, a dead connection
  is wiped, decapsulated packets are cut to the length their header states.
\<close>

section \<open>A concrete tunnel\<close>

definition demo_tunn :: "bytes \<Rightarrow> bytes \<Rightarrow> u32 \<Rightarrow> tunn" where
  "demo_tunn sk peer_sk idx =
     fst (tunn_new demo_crypto sk (x25519_public demo_crypto peer_sk) None (Some 5) idx None demo_world)"

definition world_after :: "nat \<Rightarrow> world" where
  "world_after k = demo_world\<lparr>w_instants := (\<lambda>i. \<lparr>tv_sec = 100 + int k + int i, tv_nsec = 0\<rparr>)\<rparr>"

lemma clock_demo: "clock_from \<lparr>tv_sec = 100, tv_nsec = 0\<rparr> demo_world"
  by (simp add: clock_from_def demo_world_def wf_time_def nanos_def NANOSECOND_def)

lemma clock_world_after: "j \<le> k \<Longrightarrow> clock_from \<lparr>tv_sec = 100 + int j, tv_nsec = 0\<rparr> (world_after k)"
  by (simp add: clock_from_def world_after_def wf_time_def nanos_def NANOSECOND_def)

section \<open>Sessions do not appear in the timer handler\<close>

lemma initiation_sessions: "tunn_format_handshake_initiation c t n f w = (r, t', w') \<Longrightarrow> sessions t' = sessions t"
  by (auto simp: tunn_format_handshake_initiation_def Let_def case_prod_beta split: sum.splits if_splits)

lemma encapsulate_empty_slot:
  assumes "encapsulate c t src n w = Returns (r, t', w')" "sessions t ! i = None" "i < length (sessions t)"
  shows "sessions t' ! i = None"
  using assms(1)
proof (cases rule: encapsulate_cases)
  case (sent s)
  then have "i \<noteq> current t mod 8" using assms(2) by auto
  then show ?thesis using sent assms(2) by simp
next
  case queued
  then show ?thesis using initiation_sessions [OF queued(2)] assms(2) by (simp add: queue_packet_def)
qed

lemma expire_sessions_cleared: "fst (expire_connection t w) = t' \<Longrightarrow> sessions t' = map (\<lambda>_. None) (sessions t) \<and>
    packet_queue t' = [] \<and> is_expired (tn_handshake t')"
  by (auto simp: expire_connection_def clear_all_def set_expired_def is_expired_def Let_def case_prod_beta)

lemma timers_tail_empty_slot:
  assumes r: "timers_tail c t now n w = Returns (r, t', w')" and up: "timers_upto t now"
    and i: "sessions t ! i = None" "i < length (sessions t)"
  shows "sessions t' ! i = None"
proof -
  define t1 where "t1 = (if has_cookie (tn_handshake t) \<and> COOKIE_EXPIRATION_TIME \<le> now - timer t TimeCookieReceived
    then t\<lparr>tn_handshake := clear_cookie (tn_handshake t)\<rparr> else t)"
  have t1: "sessions t1 = sessions t" "timers_upto t1 now" using up by (simp_all add: t1_def timers_upto_def)
  obtain h k t2 where idle: "idle_timers t1 now = Returns (h, k, t2)" "sessions t2 = sessions t1"
    using idle_timers_eq [OF t1(2)] by auto
  have enc: "encapsulate c t2 [] n v = Returns (r, t', w') \<Longrightarrow> sessions t' ! i = None" for v
    using encapsulate_empty_slot [of c t2 "[]" n v r t' w' i] i by (simp add: t1 idle)
  show ?thesis
    using r i enc expire_sessions_cleared [of t1 w t'] t1(1) idle(2)
    unfolding timers_tail_def Let_def t1_def [symmetric] idle(1) obind.simps case_prod_beta fst_conv snd_conv
    by (auto dest!: initiation_sessions enc split: if_splits option.splits)
qed

section \<open>Properties\<close>

text \<open>
  C13: No panic. Start a tunnel under a clock that does not go back and make any sequence of calls
  with a buffer of the documented size (32 bytes more than each packet, at least 148; datagrams at
  most 16 bytes longer than the buffer): no call panics. Throughout, there are eight session
  slots, each session sits in the slot of its index and carries the tunnel's peer index in the
  upper 24 bits, and at most 256 packets wait.
\<close>

theorem tunnel_never_panics:
  assumes "crypto_ok c" and "clock_from T w" and "tunn_new c sk peer psk k idx lim w = (t, w0)"
    and "148 \<le> n" and "list_all (op_fits n) ops"
  shows "\<exists>rs t' w'. tunn_run c n ops t w0 = Returns (rs, t', w') \<and>
    length (sessions t') = 8 \<and> length (packet_queue t') \<le> 256 \<and>
    (\<forall>i s. i < 8 \<and> sessions t' ! i = Some s \<longrightarrow>
       unat (receiving_index s) mod 8 = i \<and> drop_bit 8 (receiving_index s) = drop_bit 8 (push_bit 8 idx))"
proof -
  obtain rs t' w' where "tunn_run c n ops t w0 = Returns (rs, t', w')"
    and "tunn_ok (drop_bit 8 (push_bit 8 idx)) (n - 32) t' w'"
    using tunn_run_ok [OF assms(1,4,5) tunn_ok_new [OF assms(2,3)]] by blast
  then show ?thesis by (auto simp: tunn_ok_def ring_ok_def slots_ok_def slot_ok_def)
qed

theorem tunnel_never_panics_witness:
  "\<exists>rs t' w'. tunn_run demo_crypto 148
     [Encapsulate [1, 2, 3], Decapsulate None [4, 0, 0, 0, 9], Decapsulate None [], UpdateTimers]
     (demo_tunn (replicate 32 3) (replicate 32 5) 7)
     (snd (tunn_new demo_crypto (replicate 32 3) (x25519_public demo_crypto (replicate 32 5)) None (Some 5) 7 None demo_world)) =
     Returns (rs, t', w') \<and> length (sessions t') = 8"
  using tunnel_never_panics [OF demo_crypto_ok clock_demo prod.collapse [symmetric],
      of 148 "[Encapsulate [1, 2, 3], Decapsulate None [4, 0, 0, 0, 9], Decapsulate None [], UpdateTimers]"
        "replicate 32 3" "x25519_public demo_crypto (replicate 32 5)" None "Some 5" 7 None]
  by (auto simp: demo_tunn_def)

text \<open>
  C35: Old keys go. When the timers are updated, every session whose slot was filled more than 180
  seconds ago is gone.
\<close>

theorem old_sessions_dropped:
  assumes ok: "tunn_ok g m t w" and n: "32 \<le> n" and i: "i < 8"
    and old: "from_secs 180 <
      duration_since (w_instants w 0) (time_started (tn_timers t)) - session_timers (tn_timers t) ! i"
  shows "\<exists>r t' w'. update_timers c t n w = Returns (r, t', w') \<and> sessions t' ! i = None"
proof -
  define now where "now = duration_since (w_instants w 0) (time_started (tn_timers t))"
  obtain t1 w1 where u: "update_timers c t n w = timers_tail c t1 now n w1" and ok1: "tunn_ok g m t1 w1"
    and up: "timers_upto t1 now"
    and ss: "sessions t1 = map2 (\<lambda>d s. if REJECT_AFTER_TIME < now - d then None else s)
       (session_timers (tn_timers t)) (sessions t)"
    using update_timers_eq [OF ok, of c n] unfolding now_def Let_def by blast
  obtain r t' w' where r: "timers_tail c t1 now n w1 = Returns (r, t', w')"
    using timers_tail_ok [OF ok1 up n] by blast
  have len: "length (session_timers (tn_timers t)) = 8" "length (sessions t) = 8"
    using ok by (simp_all add: tunn_ok_def ring_ok_def slots_ok_def)
  then have "sessions t1 ! i = None" "i < length (sessions t1)"
    using old i by (simp_all add: ss now_def REJECT_AFTER_TIME_def)
  then show ?thesis using timers_tail_empty_slot [OF r up] u r by auto
qed

definition aged_tunn :: tunn where
  "aged_tunn = (demo_tunn (replicate 32 3) (replicate 32 5) 7)\<lparr>
     sessions := (replicate 8 None)[1 := Some (session_new 0x701 0x901 (replicate 32 1) (replicate 32 2))],
     tn_timers := \<lparr>is_initiator = True, time_started = \<lparr>tv_sec = 100, tv_nsec = 0\<rparr>, tm_timers = (\<lambda>_. 0),
       session_timers = replicate 8 0, want_keepalive = False, want_handshake = False,
       persistent_keepalive = 0, should_reset_rr = True\<rparr>\<rparr>"

lemma aged_tunn_ok: "tunn_ok 7 m aged_tunn (world_after k)"
proof -
  obtain t w' where tw: "tunn_new demo_crypto (replicate 32 3) (x25519_public demo_crypto (replicate 32 5)) None (Some 5) 7
      None demo_world = (t, w')" by fastforce
  have t: "demo_tunn (replicate 32 3) (replicate 32 5) 7 = t" using tw by (simp add: demo_tunn_def)
  have "drop_bit 8 (push_bit 8 7 :: u32) = 7" by (simp add: drop_bit_eq_div push_bit_eq_mult)
  then have "ring_ok 7 m t" using tunn_ok_new [OF clock_demo tw] by (simp add: tunn_ok_def)
  moreover have "slots_ok 7 ((replicate 8 None)[1 := Some (session_new 0x701 0x901 (replicate 32 1) (replicate 32 2))])"
    using slots_ok_new [of 7] by (intro slots_ok_update) (simp_all add: N_SESSIONS_def slot_ok_def session_new_def drop_bit_eq_div)
  ultimately have "ring_ok 7 m aged_tunn" by (simp add: aged_tunn_def t ring_ok_def)
  moreover have "clock_ok aged_tunn (world_after k)"
    using clock_world_after [of 0 k]
    by (intro clock_okI [of "\<lparr>tv_sec = 100, tv_nsec = 0\<rparr>"])
       (simp_all add: aged_tunn_def timers_ok_def wf_time_def NANOSECOND_def)
  ultimately show ?thesis by (simp add: tunn_ok_def)
qed

lemma aged_tunn_now: "duration_since (w_instants (world_after k) 0) (time_started (tn_timers aged_tunn)) = from_secs k"
proof -
  have "int k * 1000000000 = int (k * 1000000000)" by simp
  then show ?thesis
    by (simp add: world_after_def aged_tunn_def duration_since_def checked_duration_since_def duration_new_def
        NANOSECOND_def from_secs_def nat_mult_distrib)
qed

theorem old_sessions_dropped_witness:
  "sessions aged_tunn ! 1 \<noteq> None \<and>
   (\<exists>r t' w'. update_timers demo_crypto aged_tunn 148 (world_after 181) = Returns (r, t', w') \<and> sessions t' ! 1 = None)"
proof -
  have "session_timers (tn_timers aged_tunn) ! 1 = 0" by (simp add: aged_tunn_def)
  then show ?thesis
    using old_sessions_dropped [OF aged_tunn_ok [of _ 181], of 148 1 demo_crypto] aged_tunn_now [of 181]
    by (simp add: from_secs_def) (simp add: aged_tunn_def)
qed

text \<open>
  C36: A dead connection is wiped. When 540 seconds have passed since the last session was
  established, the timer handler reports the expiry, drops every session and every queued packet,
  and marks the handshake expired.
\<close>

theorem dead_connection_wiped:
  assumes ok: "tunn_ok g m t w" and live: "\<not> is_expired (tn_handshake t)"
    and dead: "from_secs 540 \<le>
      duration_since (w_instants w 0) (time_started (tn_timers t)) - timer t TimeSessionEstablished"
  shows "\<exists>t' w'. update_timers c t n w = Returns (TErr ConnectionExpired, t', w') \<and>
    (\<forall>s \<in> set (sessions t'). s = None) \<and> packet_queue t' = [] \<and> is_expired (tn_handshake t')"
proof -
  define now where "now = duration_since (w_instants w 0) (time_started (tn_timers t))"
  obtain t1 w1 where u: "update_timers c t n w = timers_tail c t1 now n w1"
    and tm: "tm_timers (tn_timers t1) = (tm_timers (tn_timers t))(TimeCurrent := now)"
    and h: "tn_handshake t1 = tn_handshake t"
    using update_timers_eq [OF ok, of c n] unfolding now_def Let_def by blast
  define t2 where "t2 = (if has_cookie (tn_handshake t1) \<and> COOKIE_EXPIRATION_TIME \<le> now - timer t1 TimeCookieReceived
    then t1\<lparr>tn_handshake := clear_cookie (tn_handshake t1)\<rparr> else t1)"
  obtain t3 w3 where e: "expire_connection t2 w1 = (t3, w3)" by fastforce
  have "timer t2 TimeSessionEstablished = timer t TimeSessionEstablished" by (simp add: t2_def tm)
  then have "timers_tail c t1 now n w1 = Returns (TErr ConnectionExpired, t3, w3)"
    unfolding timers_tail_def Let_def t2_def [symmetric] using live dead h e by (simp add: now_def)
  then show ?thesis using expire_sessions_cleared [of t2 w1 t3] e u by auto
qed

theorem dead_connection_wiped_witness:
  "\<exists>t' w'. update_timers demo_crypto aged_tunn 148 (world_after 540) = Returns (TErr ConnectionExpired, t', w') \<and>
    (\<forall>s \<in> set (sessions t'). s = None)"
proof -
  have "\<not> is_expired (tn_handshake aged_tunn)" "timer aged_tunn TimeSessionEstablished = 0"
    by (simp_all add: aged_tunn_def demo_tunn_def tunn_new_def handshake_new_def is_expired_def Let_def case_prod_beta)
  then show ?thesis
    using dead_connection_wiped [OF aged_tunn_ok [of _ 540], of demo_crypto 148] aged_tunn_now [of 540] by auto
qed

text \<open>
  Decapsulated packets. A non-empty packet is handed on exactly when it is an IPv4 or IPv6
  packet with a whole header whose stated length fits; what is handed on is its prefix of exactly
  that length with the source address of the header, and anything else is \<open>InvalidPacket\<close>.
\<close>

lemma decapsulated_packet_cut:
  "fst (validate_decapsulated_packet t p) =
     (if p = [] then Done
      else if drop_bit 4 (p ! 0) = 4 \<and> 20 \<le> length p \<and> unat (of_be_bytes [p ! 2, p ! 3] :: u16) \<le> length p
      then WriteToTunnelV4 (take (unat (of_be_bytes [p ! 2, p ! 3] :: u16)) p) (of_be_bytes [p ! 12, p ! 13, p ! 14, p ! 15])
      else if drop_bit 4 (p ! 0) = 6 \<and> 40 \<le> length p \<and> unat (of_be_bytes [p ! 4, p ! 5] :: u16) + 40 \<le> length p
      then WriteToTunnelV6 (take (unat (of_be_bytes [p ! 4, p ! 5] :: u16) + 40) p) (of_be_bytes (map ((!) p) [8..<24]))
      else TErr InvalidPacket)"
proof -
  have sl: "slice a b p = map ((!) p) [a..<b]" if "b \<le> length p" for a b
    using that by (intro nth_equalityI) (auto simp: slice_def)
  have v4: "slice 2 4 p = [p ! 2, p ! 3]" "slice 12 16 p = [p ! 12, p ! 13, p ! 14, p ! 15]" if "20 \<le> length p"
    using that by (simp_all add: sl upt_rec)
  have v6: "slice 4 6 p = [p ! 4, p ! 5]" "slice 8 24 p = map ((!) p) [8..<24]" if "40 \<le> length p"
    using that by (simp_all add: sl upt_rec [of 4] upt_rec [of 5])
  have hd: "p \<noteq> [] \<Longrightarrow> hd p = p ! 0" by (simp add: hd_conv_nth)
  show ?thesis
    by (auto simp: validate_decapsulated_packet_def decapsulated_header_def hd v4 v6 Let_def)
qed

end
