(* ===== verification/Float32.thy ===== *)
theory Float32
  imports Complex_Main "HOL-Library.Log_Nat"
begin

text \<open>
  The single-precision arithmetic of Rust's \<open>f32\<close> (IEEE 754 binary32) on finite values: a value is a
  rational, and every operation is the exact one followed by rounding to the nearest value with a
  24-bit significand, ties to the even one. What a client needs of the rounding is an interface of its
  own, with the lemma that a rounded weighted average of shares stays between 0 and 1.
\<close>

section \<open>Rounding\<close>

definition half_even :: "rat \<Rightarrow> int" where
  "half_even x =
     (let f = \<lfloor>x\<rfloor>; d = x - of_int f
      in if d < 1 / 2 then f else if 1 / 2 < d then f + 1 else if even f then f else f + 1)"

text \<open>The binary exponent of a positive value.\<close>

definition f32_exp :: "rat \<Rightarrow> int" where
  "f32_exp x =
     (let (p, q) = quotient_of x; e = bitlen p - bitlen q
      in if 2 powi e \<le> x then e else e - 1)"

text \<open>
  The exponent of the last place: 23 below that of the value, but not below that of the subnormal
  numbers. Values from \<open>2 ^ 128\<close> on, which would be infinite, have no special treatment.
\<close>

definition last_place :: "rat \<Rightarrow> int" where
  "last_place x = max (f32_exp x) (- 126) - 23"

definition f32_pos :: "rat \<Rightarrow> rat" where
  "f32_pos x = of_int (half_even (x / 2 powi last_place x)) * 2 powi last_place x"

definition f32 :: "rat \<Rightarrow> rat" where
  "f32 x = (if x = 0 then 0 else if 0 < x then f32_pos x else - f32_pos (- x))"

section \<open>Its laws\<close>

lemma half_even_of_int [simp]: "half_even (of_int k) = k"
  by (simp add: half_even_def)

lemma half_even_near: "\<lfloor>x\<rfloor> \<le> half_even x \<and> half_even x \<le> \<lfloor>x\<rfloor> + 1"
  by (simp add: half_even_def Let_def)

lemma half_even_mono: "x \<le> y \<Longrightarrow> half_even x \<le> half_even y"
proof -
  assume xy: "x \<le> y"
  then have "\<lfloor>x\<rfloor> \<le> \<lfloor>y\<rfloor>" by (rule floor_mono)
  then consider "\<lfloor>x\<rfloor> = \<lfloor>y\<rfloor>" | "\<lfloor>x\<rfloor> + 1 \<le> \<lfloor>y\<rfloor>" by linarith
  then show ?thesis
  proof cases
    case 1
    then show ?thesis using xy by (auto simp: half_even_def Let_def)
  next
    case 2
    then show ?thesis using half_even_near [of x] half_even_near [of y] by linarith
  qed
qed

lemma half_even_le: "x \<le> of_int k \<Longrightarrow> half_even x \<le> k"
  using half_even_mono [of x "of_int k"] by simp

lemma half_even_ge: "of_int k \<le> x \<Longrightarrow> k \<le> half_even x"
  using half_even_mono [of "of_int k" x] by simp

lemma powi_bitlen: "0 < p \<Longrightarrow> 2 powi (bitlen p - 1) \<le> (of_int p :: rat) \<and> (of_int p :: rat) < 2 powi bitlen p"
proof -
  assume p: "0 < p"
  have b: "2 ^ nat (bitlen p - 1) \<le> p" "p < 2 ^ nat (bitlen p)" using bitlen_bounds [OF p] by auto
  have "0 < bitlen p" using p bitlen_nonneg [of p] bitlen_eq_zero_iff [of p] by linarith
  then have "(2 :: rat) powi (bitlen p - 1) = of_int (2 ^ nat (bitlen p - 1))" "(2 :: rat) powi bitlen p = of_int (2 ^ nat (bitlen p))"
    by (simp_all add: power_int_def)
  then show ?thesis using b by (metis of_int_le_iff of_int_less_iff)
qed

lemma f32_exp_bounds:
  assumes "0 < x"
  shows "2 powi f32_exp x \<le> x" "x < 2 powi (f32_exp x + 1)"
proof -
  obtain p q where pq: "quotient_of x = (p, q)" by fastforce
  have x: "x = of_int p / of_int q" and q: "0 < q" using quotient_of_div [OF pq] quotient_of_denom_pos [OF pq] by auto
  have p: "0 < p" using assms q x by (simp add: zero_less_divide_iff)
  let ?a = "bitlen p" and ?b = "bitlen q"
  have "x < 2 powi ?a / 2 powi (?b - 1)"
    unfolding x by (rule frac_less) (use powi_bitlen [OF p] powi_bitlen [OF q] p in \<open>simp_all\<close>)
  also have "\<dots> = 2 powi (?a - ?b + 1)" by (simp add: power_int_diff [symmetric] algebra_simps)
  finally have up: "x < 2 powi (?a - ?b + 1)" .
  have "2 powi (?a - 1) / 2 powi ?b \<le> x"
    unfolding x by (rule frac_le) (use powi_bitlen [OF p] powi_bitlen [OF q] p q in \<open>simp_all add: less_imp_le\<close>)
  then have lo: "2 powi (?a - ?b - 1) \<le> x" by (simp add: power_int_diff [symmetric] algebra_simps)
  show "2 powi f32_exp x \<le> x" "x < 2 powi (f32_exp x + 1)"
    using up lo by (auto simp: f32_exp_def pq Let_def)
qed

lemma powi_less: "(2 :: rat) powi a < 2 powi b \<Longrightarrow> a < b"
  by (rule ccontr) (use power_int_increasing [of b a "2 :: rat"] in simp)

lemma last_place_upper: "0 < x \<Longrightarrow> x < 2 powi (last_place x + 24)"
proof -
  assume x: "0 < x"
  have "(2 :: rat) powi (f32_exp x + 1) \<le> 2 powi (last_place x + 24)"
    by (rule power_int_increasing) (simp_all add: last_place_def)
  then show ?thesis using f32_exp_bounds(2) [OF x] by linarith
qed

lemma f32_pos_le: "x \<le> of_int k * 2 powi last_place x \<Longrightarrow> f32_pos x \<le> of_int k * 2 powi last_place x"
  by (simp add: f32_pos_def half_even_le pos_divide_le_eq)

lemma f32_pos_ge: "of_int k * 2 powi last_place x \<le> x \<Longrightarrow> of_int k * 2 powi last_place x \<le> f32_pos x"
  by (simp add: f32_pos_def half_even_ge pos_le_divide_eq)

lemma f32_pos_nonneg: "0 < x \<Longrightarrow> 0 \<le> f32_pos x"
  using f32_pos_ge [of 0 x] by simp

lemma powi_24: "of_int (2 ^ 24) * (2 :: rat) powi g = 2 powi (g + 24)" "of_int (2 ^ 23) * (2 :: rat) powi g = 2 powi (g + 23)"
  by (simp_all add: power_int_add)

lemma f32_pos_upper: "0 < x \<Longrightarrow> f32_pos x \<le> 2 powi (last_place x + 24)"
  using f32_pos_le [of x "2 ^ 24"] last_place_upper [of x] by (simp only: powi_24 less_imp_le)

lemma f32_pos_mono:
  assumes x: "0 < x" and xy: "x \<le> y"
  shows "f32_pos x \<le> f32_pos y"
proof -
  let ?g = "last_place x" and ?h = "last_place y"
  have "(2 :: rat) powi f32_exp x < 2 powi (f32_exp y + 1)"
    using f32_exp_bounds [OF x] f32_exp_bounds [of y] x xy by linarith
  then have "f32_exp x < f32_exp y + 1" by (rule powi_less)
  then have "?g = ?h \<or> ?g < ?h \<and> ?h = f32_exp y - 23" unfolding last_place_def by linarith
  then consider "?g = ?h" | "?g < ?h" "?h = f32_exp y - 23" by blast
  then show ?thesis
  proof cases
    case 1
    have "x / 2 powi ?g \<le> y / 2 powi ?g" using xy by (simp add: divide_right_mono)
    then show ?thesis using half_even_mono 1 by (simp add: f32_pos_def)
  next
    case 2
    have "f32_pos x \<le> 2 powi (?g + 24)" by (rule f32_pos_upper [OF x])
    also have "(2 :: rat) powi (?g + 24) \<le> 2 powi (?h + 23)" using 2 by (intro power_int_increasing) simp_all
    also have "\<dots> \<le> f32_pos y"
      using f32_pos_ge [of "2 ^ 23" y] f32_exp_bounds(1) [of y] x xy 2(2) by (simp only: powi_24) simp
    finally show ?thesis .
  qed
qed

lemma f32_pos_exact:
  assumes k: "0 < k" "k < 2 ^ 24" and g: "- 149 \<le> g" and y: "y = of_int k * 2 powi g"
  shows "f32_pos y = y"
proof -
  have pos: "0 < y" using k by (simp add: y)
  have "y < of_int (2 ^ 24) * 2 powi g" unfolding y using k(2)
    by (intro mult_strict_right_mono) (simp_all only: of_int_less_iff zero_less_power_int zero_less_numeral)
  then have "(2 :: rat) powi f32_exp y < 2 powi (g + 24)" using f32_exp_bounds(1) [OF pos] by (simp only: powi_24)
  then have "f32_exp y < g + 24" by (rule powi_less)
  then have le: "last_place y \<le> g" using g by (simp add: last_place_def)
  then have "(2 :: rat) powi (g - last_place y) = of_int (2 ^ nat (g - last_place y))" by (simp add: power_int_def)
  then have "y / 2 powi last_place y = of_int (k * 2 ^ nat (g - last_place y))"
    by (simp add: y power_int_diff [symmetric] flip: times_divide_eq_right)
  then have "of_int (half_even (y / 2 powi last_place y)) = y / 2 powi last_place y" by (simp only: half_even_of_int)
  then show ?thesis by (simp add: f32_pos_def)
qed

lemma f32_pos_idem:
  assumes x: "0 < x" and pos: "0 < f32_pos x"
  shows "f32_pos (f32_pos x) = f32_pos x"
proof -
  let ?g = "last_place x" and ?k = "half_even (x / 2 powi last_place x)"
  have y: "f32_pos x = of_int ?k * 2 powi ?g" by (simp add: f32_pos_def)
  have g: "- 149 \<le> ?g" by (simp add: last_place_def)
  have k: "0 < ?k" using pos zero_less_mult_pos2 [of "of_int ?k :: rat" "2 powi ?g"] by (simp add: y)
  have "of_int ?k * (2 :: rat) powi ?g \<le> of_int (2 ^ 24) * 2 powi ?g"
    using f32_pos_upper [OF x] by (simp only: powi_24 y)
  then have "?k \<le> 2 ^ 24" by (simp only: mult_le_cancel_right_pos zero_less_power_int zero_less_numeral of_int_le_iff)
  then consider "?k < 2 ^ 24" | "?k = 2 ^ 24" by linarith
  then show ?thesis
  proof cases
    case 1
    then show ?thesis using f32_pos_exact [OF k 1 g y] by simp
  next
    case 2
    then have "f32_pos x = of_int (2 ^ 23) * 2 powi (?g + 1)" by (simp add: y power_int_add)
    then show ?thesis by (rule f32_pos_exact [rotated -1]) (use g in simp_all)
  qed
qed

lemma f32_mono: "x \<le> y \<Longrightarrow> f32 x \<le> f32 y"
proof -
  assume xy: "x \<le> y"
  consider "0 < x" | "x \<le> 0" "0 \<le> y" | "y < 0" by linarith
  then show ?thesis
  proof cases
    case 1
    then show ?thesis using f32_pos_mono [OF 1 xy] xy by (simp add: f32_def)
  next
    case 2
    then have "f32 x \<le> 0" "0 \<le> f32 y"
      using f32_pos_nonneg [of "- x"] f32_pos_nonneg [of y] by (auto simp: f32_def)
    then show ?thesis by linarith
  next
    case 3
    then show ?thesis using f32_pos_mono [of "- y" "- x"] xy by (simp add: f32_def)
  qed
qed

lemma f32_idem: "f32 (f32 x) = f32 x"
proof -
  consider "x = 0" | "0 < x" | "x < 0" by linarith
  then show ?thesis
  proof cases
    case 2
    then show ?thesis using f32_pos_idem [of x] f32_pos_nonneg [of x] by (auto simp: f32_def)
  next
    case 3
    then show ?thesis using f32_pos_idem [of "- x"] f32_pos_nonneg [of "- x"] by (auto simp: f32_def)
  qed (simp add: f32_def)
qed

lemma f32_one: "f32 1 = 1"
  using f32_pos_exact [of 1 0 1] by (simp add: f32_def)

section \<open>The interface of a rounded arithmetic\<close>

locale rounding =
  fixes rnd :: "rat \<Rightarrow> rat"
  assumes rnd_mono: "x \<le> y \<Longrightarrow> rnd x \<le> rnd y" and rnd_zero: "rnd 0 = 0" and rnd_one: "rnd 1 = 1"
    and rnd_idem: "rnd (rnd x) = rnd x"
begin

lemma in_unit: "0 \<le> x \<Longrightarrow> x \<le> 1 \<Longrightarrow> 0 \<le> rnd x \<and> rnd x \<le> 1"
  using rnd_mono [of 0 x] rnd_mono [of x 1] by (simp add: rnd_zero rnd_one)

lemma missing_share:
  assumes "0 \<le> r" "r \<le> e" "1 \<le> e"
  shows "0 \<le> rnd (1 - rnd (rnd r / rnd e)) \<and> rnd (1 - rnd (rnd r / rnd e)) \<le> 1"
proof -
  have "0 \<le> rnd r" "rnd r \<le> rnd e" "1 \<le> rnd e"
    using rnd_mono [of 0 r] rnd_mono [of r e] rnd_mono [of 1 e] assms by (simp_all add: rnd_zero rnd_one)
  then show ?thesis using in_unit [of "rnd r / rnd e"] in_unit [of "1 - rnd (rnd r / rnd e)"] by simp
qed

lemma weighted_sum:
  assumes "0 \<le> l" "l \<le> 1" "0 \<le> w" "rnd w = w" "0 \<le> a" "a \<le> T"
  shows "0 \<le> rnd (a + rnd (l * w)) \<and> rnd (a + rnd (l * w)) \<le> rnd (T + w)"
proof -
  have "l * w \<le> w" "0 \<le> l * w" using assms mult_right_mono [of l 1 w] by simp_all
  then have "rnd (l * w) \<le> w" "0 \<le> rnd (l * w)"
    using rnd_mono [of "l * w" w] rnd_mono [of 0 "l * w"] assms by (simp_all add: rnd_zero)
  then show ?thesis using rnd_mono [of 0 "a + rnd (l * w)"] rnd_mono [of "a + rnd (l * w)" "T + w"] assms by (simp add: rnd_zero)
qed

lemma average:
  "0 \<le> a \<Longrightarrow> a \<le> T \<Longrightarrow> T \<noteq> 0 \<Longrightarrow> 0 \<le> rnd (a / T) \<and> rnd (a / T) \<le> 1"
  by (rule in_unit) (simp_all add: divide_le_eq_1)

end

interpretation f32_arith: rounding f32
  by unfold_locales (auto simp: f32_idem f32_one f32_mono, simp add: f32_def)

end
