(* ===== verification/Tunn_Stats.thy ===== *)
theory Tunn_Stats
  imports Tunn_Safety Float32
begin

text \<open>
  The statistics of a tunnel (\<open>stats\<close>, \<open>estimate_loss\<close> and \<open>is_expired\<close> of
  \<open>boringtun/src/noise/mod.rs\<close>). The loss estimate is computed in \<open>f32\<close>. Each session counts the
  packets it took; the lemmas follow that count through every call, so that it never exceeds the
  number of counters that could have been sent and the estimate is a proper share.
\<close>

section \<open>Definitions\<close>

definition tunn_is_expired :: "tunn \<Rightarrow> bool" where
  "tunn_is_expired t = is_expired (tn_handshake t)"

definition f32_of_u64 :: "u64 \<Rightarrow> rat" where
  "f32_of_u64 x = f32 (of_nat (unat x))"

definition session_loss :: "session \<Rightarrow> rat" where
  "session_loss s =
     (let (expected, received) = current_packet_cnt s
      in if expected = 0 then 0 else f32 (1 - f32 (f32_of_u64 received / f32_of_u64 expected)))"

text \<open>The loop of \<open>estimate_loss\<close> over the slots it visits, on \<open>weight\<close>, \<open>cur_avg\<close> and \<open>total_weight\<close>.\<close>

fun loss_loop :: "session option list \<Rightarrow> rat \<times> rat \<times> rat \<Rightarrow> rat \<times> rat \<times> rat" where
  "loss_loop [] acc = acc"
| "loss_loop (None # ss) acc = loss_loop ss acc"
| "loss_loop (Some s # ss) (weight, cur_avg, total_weight) =
     loss_loop ss (f32 (weight / 3), f32 (cur_avg + f32 (session_loss s * weight)), f32 (total_weight + weight))"

definition visited_slots :: "tunn \<Rightarrow> session option list" where
  "visited_slots t =
     map (\<lambda>i. sessions t ! (unat (of_nat (current t) - of_nat i :: u64) mod N_SESSIONS)) [0..<N_SESSIONS]"

definition estimate_loss :: "tunn \<Rightarrow> rat" where
  "estimate_loss t =
     (let (weight, cur_avg, total_weight) = loss_loop (visited_slots t) (9, 0, 0)
      in if total_weight = 0 then 0 else f32 (cur_avg / total_weight))"

definition stats :: "tunn \<Rightarrow> world \<Rightarrow> ((duration option \<times> u64 \<times> u64 \<times> rat \<times> u32 option) \<times> world) outcome" where
  "stats t w =
     obind (time_since_last_handshake t w) (\<lambda>(time, w).
       Returns ((time, tx_bytes t, rx_bytes t, estimate_loss t, last_rtt (tn_handshake t)), w))"

section \<open>The count of a session\<close>

text \<open>The window stands for a set of counters, and the count is the size of that set.\<close>

definition counted :: "receiving_key_counter_validator \<Rightarrow> bool" where
  "counted v \<longleftrightarrow> (\<exists>S. finite S \<and> rk_abs v S \<and> card S = unat (rk_receive_cnt v))"

lemma card_below: "finite S \<Longrightarrow> rk_abs v S \<Longrightarrow> card S \<le> unat (rk_next v)"
  using card_mono [of "{..<unat (rk_next v)}" S] by (auto simp: rk_abs_def)

lemma counted_le: "counted v \<Longrightarrow> unat (rk_receive_cnt v) \<le> unat (rk_next v)"
  using card_below by (fastforce simp: counted_def)

lemma counted_default: "counted rk_default"
  using rk_abs_default by (auto simp: counted_def rk_default_def intro!: exI [of _ "{}"])

lemma mark_keeps_count:
  assumes wf: "rk_wf v" and m: "mark_did_receive v c = (Inr u, v')"
  shows "rk_receive_cnt v' = rk_receive_cnt v"
proof -
  have ahead: "rk_receive_cnt (clear_skipped v c) = rk_receive_cnt v" if "\<not> c + 1024 < rk_next v" "rk_next v < c"
    using clear_skipped_spec [OF wf that(2) ahead_far [OF that]] by simp
  have N: "N_BITS = 1024" by (simp add: N_BITS_def WORD_SIZE_def N_WORDS_def)
  show ?thesis using m ahead unfolding mark_did_receive_def N
    by (auto simp: rk_set_bit_def Let_def not_less_iff_gr_or_eq split: if_splits)
qed

lemma counted_mark:
  assumes v: "counted v" and c: "c \<noteq> - 1"
  shows "counted (snd (receiving_counter_mark v c))"
proof -
  obtain S where S: "finite S" "rk_abs v S" "card S = unat (rk_receive_cnt v)" using v by (auto simp: counted_def)
  note r = mark_did_receive_refines [OF S(2) below_max [OF c]]
  obtain x v' where m: "mark_did_receive v c = (x, v')" by fastforce
  show ?thesis
  proof (cases x)
    case (Inl e)
    then show ?thesis using r m v by (simp add: receiving_counter_mark_def)
  next
    case (Inr u)
    have new: "unat c \<notin> S" "rk_abs v' (insert (unat c) S)" using r m Inr by simp_all
    have cnt: "rk_receive_cnt v' = rk_receive_cnt v"
      using mark_keeps_count [of v c u v'] m Inr S(2) by (simp add: rk_abs_def)
    have card: "card (insert (unat c) S) = unat (rk_receive_cnt v) + 1" using new(1) S by simp
    then have "unat (rk_receive_cnt v) + 1 < 2 ^ 64"
      using card_below [OF _ new(2)] S(1) unsigned_less [of "rk_next v'", where ?'a = nat] by simp
    then have "card (insert (unat c) S) = unat (rk_receive_cnt v' + 1)" using card cnt by (simp add: unat_word_ariths)
    then show ?thesis using new(2) S(1) m Inr
      by (auto simp: counted_def receiving_counter_mark_def rk_abs_def intro!: exI [of _ "insert (unat c) S"])
  qed
qed

section \<open>The counts of a tunnel\<close>

definition all_counted :: "session option list \<Rightarrow> bool" where
  "all_counted ss \<longleftrightarrow> (\<forall>s. Some s \<in> set ss \<longrightarrow> counted (receiving_key_counter s))"

lemma all_counted_update:
  "all_counted ss \<Longrightarrow> counted (receiving_key_counter s) \<Longrightarrow> all_counted (ss[i := Some s])"
  using set_update_subset_insert [of ss i "Some s"] by (auto simp: all_counted_def)

lemma all_counted_nth: "all_counted ss \<Longrightarrow> ss ! i = Some s \<Longrightarrow> i < length ss \<Longrightarrow> counted (receiving_key_counter s)"
  using nth_mem [of i ss] by (auto simp: all_counted_def)

lemma all_counted_cleared [simp]: "all_counted (map (\<lambda>_. None) ss)" "all_counted (replicate k None)"
  by (auto simp: all_counted_def)

lemma all_counted_expire: "all_counted ss \<Longrightarrow> all_counted (map2 (\<lambda>d s. if P d then None else s) ds ss)"
  by (auto simp: all_counted_def split: if_splits dest: set_zip_rightD)

lemma received_session_new:
  "receive_handshake_initialization c h p n w = Returns (Inr (dg, s), h', w') \<Longrightarrow> receiving_key_counter s = rk_default"
  "receive_handshake_response c h q w = (Inr s, h', w') \<Longrightarrow> receiving_key_counter s = rk_default"
  by (auto simp: receive_handshake_initialization_eq format_handshake_response_def receive_handshake_response_eq
      session_new_def Let_def case_prod_beta split: option.splits if_splits handshake_state.splits)

lemma counted_receive:
  assumes "counted (receiving_key_counter s)" "pd_counter p \<noteq> - 1" "receive_packet_data c s p n = Returns (r, s')"
  shows "counted (receiving_key_counter s')"
  using assms(3) counted_mark [OF assms(1,2)] assms(1)
  by (auto simp: receive_packet_data_def Let_def split: if_splits sum.splits option.splits prod.splits)

lemma encapsulate_counted:
  assumes "encapsulate c t src n w = Returns (r, t', w')" "all_counted (sessions t)" "length (sessions t) = 8"
  shows "all_counted (sessions t')"
  using assms(1)
proof (cases rule: encapsulate_cases)
  case (sent s)
  then show ?thesis using assms(2,3) all_counted_nth [of "sessions t" "current t mod 8" s] by (simp add: all_counted_update)
next
  case queued
  then show ?thesis using initiation_sessions [OF queued(2)] assms(2) by (simp add: queue_packet_def)
qed

lemma send_queued_counted:
  assumes s: "send_queued_packet c t n w = Returns (r, t', w')" and a: "all_counted (sessions t)" and l: "length (sessions t) = 8"
  shows "all_counted (sessions t')"
proof (cases "packet_queue t")
  case Nil
  then show ?thesis using s a by (simp add: send_queued_packet_def dequeue_packet_def)
next
  case (Cons p q)
  obtain r1 t1 w1 where e: "encapsulate c (t\<lparr>packet_queue := q\<rparr>) p n w = Returns (r1, t1, w1)"
    using s Cons by (cases "encapsulate c (t\<lparr>packet_queue := q\<rparr>) p n w") (auto simp: send_queued_packet_def dequeue_packet_def)
  have "all_counted (sessions t1)" using encapsulate_counted [OF e] a l by simp
  then show ?thesis using s Cons e
    by (auto simp: send_queued_packet_def dequeue_packet_def requeue_packet_def split: tunn_result.splits if_splits)
qed

lemma handle_data_counted:
  assumes d: "handle_data c t p n = Returns (r, t')" and a: "all_counted (sessions t)" and l: "length (sessions t) = 8"
    and c: "pd_counter p \<noteq> - 1"
  shows "all_counted (sessions t')"
proof (cases "sessions t ! (unat (pd_receiver_idx p) mod 8)")
  case None
  then show ?thesis using d a by (simp add: handle_data_def N_SESSIONS_def)
next
  case (Some s)
  obtain r1 s' where rcv: "receive_packet_data c s p n = Returns (r1, s')"
    using d Some by (cases "receive_packet_data c s p n") (auto simp: handle_data_def N_SESSIONS_def)
  have "counted (receiving_key_counter s')" using counted_receive [OF all_counted_nth [OF a Some] c rcv] l by simp
  then have "all_counted ((sessions t)[unat (pd_receiver_idx p) mod 8 := Some s'])" by (rule all_counted_update [OF a])
  moreover have "sessions t' = (sessions t)[unat (pd_receiver_idx p) mod 8 := Some s']"
    using d Some rcv by (cases r1) (auto simp: handle_data_def N_SESSIONS_def Let_def case_prod_beta)
  ultimately show ?thesis by simp
qed

lemma handle_init_counted:
  assumes d: "handle_handshake_init c t p n w = Returns (r, t', w')" and a: "all_counted (sessions t)"
  shows "all_counted (sessions t')"
proof -
  obtain r1 h w1 where rcv: "receive_handshake_initialization c (tn_handshake t) p n w = Returns (r1, h, w1)"
    using d by (cases "receive_handshake_initialization c (tn_handshake t) p n w") (auto simp: handle_handshake_init_def)
  show ?thesis
  proof (cases r1)
    case (Inl e)
    then show ?thesis using d rcv a by (auto simp: handle_handshake_init_def)
  next
    case (Inr ds)
    then obtain dg s where ds: "r1 = Inr (dg, s)" by (cases ds) auto
    have "counted (receiving_key_counter s)" using received_session_new(1) rcv ds counted_default by simp
    then show ?thesis using d rcv ds all_counted_update [OF a] by (auto simp: handle_handshake_init_def Let_def)
  qed
qed

lemma handle_response_counted:
  assumes d: "handle_handshake_response c t p n w = Returns (r, t', w')" and a: "all_counted (sessions t)"
  shows "all_counted (sessions t')"
proof -
  obtain r1 h w1 where rcv: "receive_handshake_response c (tn_handshake t) p w = (r1, h, w1)" by (metis prod_cases3)
  show ?thesis
  proof (cases r1)
    case (Inl e)
    then show ?thesis using d rcv a by (auto simp: handle_handshake_response_def)
  next
    case (Inr s)
    have "counted (receiving_key_counter s)" using received_session_new(2) rcv Inr counted_default by simp
    then show ?thesis using d rcv Inr all_counted_update [OF a]
      by (auto simp: handle_handshake_response_def format_packet_data_eq Let_def split: if_splits)
  qed
qed

lemma handle_cookie_sessions: "handle_cookie_reply c t p = (r, t') \<Longrightarrow> sessions t' = sessions t"
  by (auto simp: handle_cookie_reply_def Let_def case_prod_beta split: sum.splits)

lemma handle_verified_counted:
  assumes d: "handle_verified_packet c t p n w = Returns (r, t', w')" and a: "all_counted (sessions t)"
    and l: "length (sessions t) = 8" and c: "\<And>q. p = PacketData q \<Longrightarrow> pd_counter q \<noteq> - 1"
  shows "all_counted (sessions t')"
proof (cases p)
  case (HandshakeInit i)
  then show ?thesis using d handle_init_counted [OF _ a]
    by (cases "handle_handshake_init c t i n w") (auto simp: handle_verified_packet_def)
next
  case (HandshakeResponse i)
  then show ?thesis using d handle_response_counted [OF _ a]
    by (cases "handle_handshake_response c t i n w") (auto simp: handle_verified_packet_def)
next
  case (PacketCookieReply i)
  then show ?thesis using d a handle_cookie_sessions by (auto simp: handle_verified_packet_def split: prod.splits)
next
  case (PacketData i)
  then show ?thesis using d handle_data_counted [OF _ a l c]
    by (cases "handle_data c t i n") (auto simp: handle_verified_packet_def)
qed

text \<open>A call that does not bring in a data message with the largest counter.\<close>

primrec below_largest :: "tunn_op \<Rightarrow> bool" where
  "below_largest (Encapsulate src) \<longleftrightarrow> True"
| "below_largest (Decapsulate a dg) \<longleftrightarrow>
     (case parse_incoming_packet dg of Inr (PacketData p) \<Rightarrow> pd_counter p \<noteq> - 1 | _ \<Rightarrow> True)"
| "below_largest UpdateTimers \<longleftrightarrow> True"
| "below_largest (InitiateHandshake force) \<longleftrightarrow> True"

lemma decapsulate_counted:
  assumes c: "crypto_ok c" and d: "decapsulate c t a dg n w = Returns (r, t', w')" and k: "all_counted (sessions t)"
    and l: "length (sessions t) = 8" and b: "below_largest (Decapsulate a dg)"
  shows "all_counted (sessions t')"
proof (cases "dg = []")
  case True
  then show ?thesis using d send_queued_counted [OF _ k l] by (simp add: decapsulate_def)
next
  case False
  obtain v rl w1 where v: "verify_packet c (tn_rate_limiter t) a dg COOKIE_REPLY_SZ w = (v, rl, w1)" by (metis prod_cases3)
  show ?thesis
  proof (cases v)
    case (Inl e)
    then show ?thesis using d False v k by (auto simp: decapsulate_def Let_def split: tunn_result.splits if_splits)
  next
    case (Inr p)
    then have "parse_incoming_packet dg = Inr p" using verify_packet_result [OF c v [unfolded COOKIE_REPLY_SZ_def]] by auto
    then have "pd_counter q \<noteq> - 1" if "p = PacketData q" for q using b that by simp
    then show ?thesis using d False v Inr handle_verified_counted [of c "t\<lparr>tn_rate_limiter := rl\<rparr>" p n w1 r t' w'] k l
      by (simp add: decapsulate_def Let_def)
  qed
qed

lemma timers_tail_counted:
  assumes r: "timers_tail c t now n w = Returns (r, t', w')" and up: "timers_upto t now"
    and a: "all_counted (sessions t)" and l: "length (sessions t) = 8"
  shows "all_counted (sessions t')"
proof -
  define t1 where "t1 = (if has_cookie (tn_handshake t) \<and> COOKIE_EXPIRATION_TIME \<le> now - timer t TimeCookieReceived
    then t\<lparr>tn_handshake := clear_cookie (tn_handshake t)\<rparr> else t)"
  have t1: "sessions t1 = sessions t" "timers_upto t1 now" using up by (simp_all add: t1_def timers_upto_def)
  obtain h k t2 where idle: "idle_timers t1 now = Returns (h, k, t2)" "sessions t2 = sessions t1"
    using idle_timers_eq [OF t1(2)] by auto
  have enc: "encapsulate c t2 [] n v = Returns (r, t', w') \<Longrightarrow> all_counted (sessions t')" for v
    using encapsulate_counted [of c t2 "[]" n v r t' w'] a l by (simp add: t1 idle)
  show ?thesis
    using r a enc expire_sessions_cleared [of t1 w t'] t1(1) idle(2)
    unfolding timers_tail_def Let_def t1_def [symmetric] idle(1) obind.simps case_prod_beta fst_conv snd_conv
    by (auto dest!: initiation_sessions enc split: if_splits option.splits)
qed

lemma update_timers_counted:
  assumes ok: "tunn_ok g m t w" and u: "update_timers c t n w = Returns (r, t', w')" and a: "all_counted (sessions t)"
  shows "all_counted (sessions t')"
proof -
  define now where "now = duration_since (w_instants w 0) (time_started (tn_timers t))"
  obtain t1 w1 where u1: "update_timers c t n w = timers_tail c t1 now n w1" and ok1: "tunn_ok g m t1 w1"
    and up: "timers_upto t1 now"
    and ss: "sessions t1 = map2 (\<lambda>d s. if REJECT_AFTER_TIME < now - d then None else s)
       (session_timers (tn_timers t)) (sessions t)"
    using update_timers_eq [OF ok, of c n] unfolding now_def Let_def by blast
  have "length (sessions t1) = 8" using ok1 by (simp add: tunn_ok_def ring_ok_def slots_ok_def)
  moreover have "all_counted (sessions t1)"
    unfolding ss by (rule all_counted_expire [OF a, where P = "\<lambda>d. REJECT_AFTER_TIME < now - d"])
  ultimately show ?thesis using timers_tail_counted [OF _ up] u u1 by simp
qed

lemma tunn_step_counted:
  assumes c: "crypto_ok c" and ok: "tunn_ok g m t w" and b: "below_largest p" and a: "all_counted (sessions t)"
    and s: "tunn_step c n p t w = Returns (r, t', w')"
  shows "all_counted (sessions t')"
proof -
  have l: "length (sessions t) = 8" using ok by (simp add: tunn_ok_def ring_ok_def slots_ok_def)
  show ?thesis
  proof (cases p)
    case (Encapsulate src)
    then show ?thesis using s encapsulate_counted [OF _ a l] by simp
  next
    case (Decapsulate x dg)
    then show ?thesis using s b decapsulate_counted [OF c _ a l] by simp
  next
    case UpdateTimers
    then show ?thesis using s update_timers_counted [OF ok _ a] by simp
  next
    case (InitiateHandshake f)
    then show ?thesis using s a initiation_sessions by fastforce
  qed
qed

lemma tunn_run_counted:
  "crypto_ok c \<Longrightarrow> 148 \<le> n \<Longrightarrow> list_all (op_fits n) ps \<Longrightarrow> list_all below_largest ps \<Longrightarrow> tunn_ok g (n - 32) t w \<Longrightarrow>
     all_counted (sessions t) \<Longrightarrow>
     \<exists>rs t' w'. tunn_run c n ps t w = Returns (rs, t', w') \<and> tunn_ok g (n - 32) t' w' \<and> all_counted (sessions t')"
proof (induction ps arbitrary: t w)
  case Nil
  then show ?case by simp
next
  case (Cons p ps)
  then obtain r t1 w1 where s: "tunn_step c n p t w = Returns (r, t1, w1)" and ok: "tunn_ok g (n - 32) t1 w1"
    using tunn_step_ok [of c g n t w p] by auto
  have "all_counted (sessions t1)" using tunn_step_counted [OF _ Cons.prems(5) _ _ s] Cons.prems by simp
  then show ?case using Cons.IH [of t1 w1] Cons.prems s ok by auto
qed

section \<open>The estimate\<close>

lemma unat_ge_one: "x \<noteq> 0 \<Longrightarrow> (1 :: rat) \<le> of_nat (unat (x :: u64))"
proof -
  assume "x \<noteq> 0"
  then have "1 \<le> unat x" by (simp add: Suc_le_eq unat_gt_0)
  then show ?thesis by (metis of_nat_1 of_nat_le_iff)
qed

lemma session_loss_unit:
  assumes "counted (receiving_key_counter s)"
  shows "0 \<le> session_loss s \<and> session_loss s \<le> 1"
proof (cases "rk_next (receiving_key_counter s) = 0")
  case False
  have le: "(of_nat (unat (rk_receive_cnt (receiving_key_counter s))) :: rat) \<le> of_nat (unat (rk_next (receiving_key_counter s)))"
    using counted_le [OF assms] by (simp only: of_nat_le_iff)
  then show ?thesis using f32_arith.missing_share [OF of_nat_0_le_iff le unat_ge_one [OF False]] False
    by (simp add: session_loss_def current_packet_cnt_def f32_of_u64_def)
qed (simp add: session_loss_def current_packet_cnt_def)

lemma loss_loop_bounds:
  "all_counted ss \<Longrightarrow> loss_loop ss (w, a, T) = (w', a', T') \<Longrightarrow> 0 \<le> w \<Longrightarrow> f32 w = w \<Longrightarrow> 0 \<le> a \<Longrightarrow> a \<le> T \<Longrightarrow>
     0 \<le> a' \<and> a' \<le> T'"
proof (induction ss "(w, a, T)" arbitrary: w a T rule: loss_loop.induct)
  case (2 ss w a T)
  then show ?case by (auto simp: all_counted_def)
next
  case (3 s ss w a T)
  have "0 \<le> session_loss s" "session_loss s \<le> 1" using session_loss_unit 3(2) by (auto simp: all_counted_def)
  then have "0 \<le> f32 (a + f32 (session_loss s * w)) \<and> f32 (a + f32 (session_loss s * w)) \<le> f32 (T + w)"
    by (rule f32_arith.weighted_sum) (use 3 in simp_all)
  moreover have "0 \<le> f32 (w / 3)" using f32_mono [of 0 "w / 3"] 3(4) by (simp add: f32_def)
  moreover have "all_counted ss" using 3(2) by (auto simp: all_counted_def)
  ultimately show ?case using 3(1,3) f32_idem by simp
qed simp

lemma visited_counted: "all_counted (sessions t) \<Longrightarrow> length (sessions t) = 8 \<Longrightarrow> all_counted (visited_slots t)"
  by (auto simp: all_counted_def visited_slots_def N_SESSIONS_def dest!: arg_cong [where f = "\<lambda>x. x \<in> set (sessions t)"])

lemma f32_nine: "f32 9 = 9"
  using f32_pos_exact [of 9 0 9] by (simp add: f32_def)

lemma estimate_loss_unit:
  assumes "all_counted (sessions t)" "length (sessions t) = 8"
  shows "0 \<le> estimate_loss t \<and> estimate_loss t \<le> 1"
proof -
  obtain w a T where l: "loss_loop (visited_slots t) (9, 0, 0) = (w, a, T)" by (metis prod_cases3)
  have "0 \<le> a \<and> a \<le> T" using loss_loop_bounds [OF visited_counted [OF assms] l] by (simp add: f32_nine)
  then show ?thesis using f32_arith.average [of a T] l by (simp add: estimate_loss_def)
qed

text \<open>A session whose every expected packet arrived adds no loss; a tunnel of such sessions estimates none.\<close>

definition complete :: "session option \<Rightarrow> bool" where
  "complete so = (case so of None \<Rightarrow> True | Some s \<Rightarrow> fst (current_packet_cnt s) = snd (current_packet_cnt s))"

lemma complete_loss: "complete (Some s) \<Longrightarrow> session_loss s = 0"
proof -
  assume c: "complete (Some s)"
  have "f32 (of_nat (unat x)) \<noteq> 0" if "x \<noteq> 0" for x :: u64
    using f32_mono [OF unat_ge_one [OF that]] by (simp add: f32_one)
  then show ?thesis using c
    by (auto simp: complete_def session_loss_def current_packet_cnt_def f32_of_u64_def f32_one) (simp add: f32_def)
qed

lemma loss_loop_complete: "list_all complete ss \<Longrightarrow> fst (snd (loss_loop ss (w, 0, T))) = 0"
proof (induction ss "(w, 0 :: rat, T)" arbitrary: w T rule: loss_loop.induct)
  case (3 s ss w T)
  then show ?case by (simp add: complete_loss f32_arith.rnd_zero)
qed simp_all

lemma estimate_loss_complete:
  assumes "list_all complete (sessions t)" "length (sessions t) = 8"
  shows "estimate_loss t = 0"
proof -
  have "list_all complete (visited_slots t)"
    using assms by (simp add: visited_slots_def list_all_iff N_SESSIONS_def)
  then show ?thesis using loss_loop_complete [of "visited_slots t" 9 0]
    by (simp add: estimate_loss_def case_prod_beta f32_arith.rnd_zero)
qed

lemma stats_returns:
  assumes "tunn_ok g m t w"
  shows "\<exists>d w'. stats t w = Returns ((d, tx_bytes t, rx_bytes t, estimate_loss t, last_rtt (tn_handshake t)), w')"
proof -
  obtain T where T: "clock_from T w" "timers_ok (tn_timers t) T" using assms by (auto simp: tunn_ok_def clock_ok_def)
  obtain now w1 where now: "instant_now w = (now, w1)" by fastforce
  have "timers_ok (tn_timers t) now"
    using timers_ok_later [OF T(2)] clock_from_now [OF T(1) now] T(1) by (simp add: clock_from_def)
  then have "timer t TimeSessionEstablished \<le> duration_since now (time_started (tn_timers t))" by (simp add: timers_ok_def)
  then show ?thesis by (auto simp: stats_def time_since_last_handshake_def now duration_sub_def)
qed

text \<open>One session that took one packet of three: \<open>1 - 0.333...\<close> in single precision, averaged with its own weight.\<close>

lemma one_of_three: "session_loss ((session_new 1 2 [] [])\<lparr>receiving_key_counter := rk_default\<lparr>rk_next := 3, rk_receive_cnt := 1\<rparr>\<rparr>) =
    11184810 / 16777216"
  by code_simp

section \<open>Properties\<close>



end
