(* ===== verification/Wg_Pump.thy ===== *)
theory Wg_Pump
  imports Tunn_Safety Rust_Strings
begin

text \<open>
  The pump of \<open>newt/src/wg.rs\<close>: one tunnel with its MTU and a fresh scratch buffer per call, the
  drain loop its callers run, the key helpers, and the function that reads from a datagram which
  peer of a multi-peer client it belongs to. Base64 is a parameter: \<open>b64_encode\<close> and \<open>b64_decode\<close>,
  whose error is the text the decoder's error prints.
\<close>

section \<open>Keys\<close>

record keys =
  k_secret :: bytes
  k_public_b64 :: string

definition generate_keys :: "crypto \<Rightarrow> (bytes \<Rightarrow> string) \<Rightarrow> world \<Rightarrow> keys \<times> world" where
  "generate_keys c b64_encode w =
     (let (sk, w) = fill_bytes 32 w
      in (\<lparr>k_secret = sk, k_public_b64 = b64_encode (x25519_public c sk)\<rparr>, w))"

definition public_from_b64 :: "(string \<Rightarrow> string + bytes) \<Rightarrow> string \<Rightarrow> string + bytes" where
  "public_from_b64 b64_decode s =
     (case b64_decode (trim s) of
        Inl e \<Rightarrow> Inl (''bad pubkey b64: '' @ e)
      | Inr raw \<Rightarrow> if length raw = 32 then Inr raw else Inl ''pubkey not 32 bytes'')"

section \<open>The pump\<close>

record pump =
  pm_tun :: tunn
  pm_mtu :: nat

datatype inbound = Packet bytes | Network bytes | Nothing

definition with_index :: "crypto \<Rightarrow> bytes \<Rightarrow> bytes \<Rightarrow> nat \<Rightarrow> u32 \<Rightarrow> world \<Rightarrow> pump \<times> world" where
  "with_index c secret peer_public mtu index w =
     (let (t, w) = tunn_new c secret peer_public None (Some 5) index None w
      in (\<lparr>pm_tun = t, pm_mtu = mtu\<rparr>, w))"

definition pump_new :: "crypto \<Rightarrow> bytes \<Rightarrow> bytes \<Rightarrow> nat \<Rightarrow> world \<Rightarrow> pump \<times> world" where
  "pump_new c secret peer_public mtu w = with_index c secret peer_public mtu 0 w"

definition scratch :: "pump \<Rightarrow> nat" where
  "scratch p = max (pm_mtu p) 1500 + 32"

definition written :: "tunn_result \<Rightarrow> bytes option" where
  "written r = (case r of WriteToNetwork b \<Rightarrow> Some b | _ \<Rightarrow> None)"

definition inbound_of :: "tunn_result \<Rightarrow> inbound" where
  "inbound_of r =
     (case r of
        WriteToTunnelV4 p _ \<Rightarrow> Packet p
      | WriteToTunnelV6 p _ \<Rightarrow> Packet p
      | WriteToNetwork b \<Rightarrow> Network b
      | _ \<Rightarrow> Nothing)"

definition pump_encapsulate :: "crypto \<Rightarrow> pump \<Rightarrow> bytes \<Rightarrow> world \<Rightarrow> (bytes option \<times> pump \<times> world) outcome" where
  "pump_encapsulate c p pkt w =
     obind (encapsulate c (pm_tun p) pkt (scratch p) w) (\<lambda>(r, t, w). Returns (written r, p\<lparr>pm_tun := t\<rparr>, w))"

definition pump_decapsulate :: "crypto \<Rightarrow> pump \<Rightarrow> bytes \<Rightarrow> world \<Rightarrow> (inbound \<times> pump \<times> world) outcome" where
  "pump_decapsulate c p dgram w =
     obind (decapsulate c (pm_tun p) None dgram (scratch p) w) (\<lambda>(r, t, w). Returns (inbound_of r, p\<lparr>pm_tun := t\<rparr>, w))"

definition pump_drain :: "crypto \<Rightarrow> pump \<Rightarrow> world \<Rightarrow> (inbound \<times> pump \<times> world) outcome" where
  "pump_drain c p w = pump_decapsulate c p [] w"

definition initiate_handshake :: "crypto \<Rightarrow> pump \<Rightarrow> world \<Rightarrow> bytes option \<times> pump \<times> world" where
  "initiate_handshake c p w =
     (let (r, t, w) = tunn_format_handshake_initiation c (pm_tun p) (scratch p) False w
      in (written r, p\<lparr>pm_tun := t\<rparr>, w))"

definition pump_update_timers :: "crypto \<Rightarrow> pump \<Rightarrow> world \<Rightarrow> (bytes option \<times> pump \<times> world) outcome" where
  "pump_update_timers c p w =
     obind (update_timers c (pm_tun p) (scratch p) w) (\<lambda>(r, t, w). Returns (written r, p\<lparr>pm_tun := t\<rparr>, w))"

text \<open>The length of the buffer the site receives datagrams in.\<close>

definition udp_buf_len :: "nat \<Rightarrow> nat" where
  "udp_buf_len mtu = max mtu 1500 + 64"

text \<open>The loop that drains a pump until it returns \<open>Nothing\<close>; \<open>out\<close> collects what it returned.\<close>

partial_function (option) drain_loop ::
  "crypto \<Rightarrow> pump \<Rightarrow> world \<Rightarrow> inbound list \<Rightarrow> (inbound list \<times> pump \<times> world) outcome option" where
  "drain_loop c p w out =
     (case pump_drain c p w of
        Panics \<Rightarrow> Some Panics
      | Returns x \<Rightarrow>
          (case x of (r, p', w') \<Rightarrow>
             if r = Nothing then Some (Returns (out, p', w')) else drain_loop c p' w' (out @ [r])))"

definition peer_index_of :: "bytes \<Rightarrow> u32 option" where
  "peer_index_of dgram =
     (if length dgram < 8 then None
      else
        case (if dgram ! 0 = 2 then Some 8 else if dgram ! 0 = 3 \<or> dgram ! 0 = 4 then Some 4 else None) of
          None \<Rightarrow> None
        | Some off \<Rightarrow>
            if length dgram < off + 4 then None
            else Some (drop_bit 8 (of_le_bytes (slice off (off + 4) dgram))))"

section \<open>Draining\<close>

lemma scratch_ge [simp]: "1532 \<le> scratch p" "148 \<le> scratch p" "32 \<le> scratch p"
  by (simp_all add: scratch_def)

lemma scratch_tun [simp]: "scratch (p\<lparr>pm_tun := t\<rparr>) = scratch p"
  by (simp add: scratch_def)

lemma drain_empty: "packet_queue (pm_tun p) = [] \<Longrightarrow> drain_loop c p w out = Some (Returns (out, p, w))"
  by (subst drain_loop.simps)
     (simp add: pump_drain_def pump_decapsulate_def decapsulate_def send_queued_packet_def dequeue_packet_def inbound_of_def)

text \<open>With a session, one drain encrypts the packet at the front of the queue.\<close>

lemma drain_with_session:
  assumes "sessions (pm_tun p) ! (current (pm_tun p) mod 8) = Some s" "packet_queue (pm_tun p) = pkt # q"
    and "length pkt + 32 \<le> scratch p"
  shows "\<exists>t. pump_drain c p w = Returns (Network (datagram c s (sending_key_counter s) pkt), p\<lparr>pm_tun := t\<rparr>, w) \<and>
    packet_queue t = q \<and> current t = current (pm_tun p) \<and>
    sessions t = (sessions (pm_tun p))[current (pm_tun p) mod 8 := Some (s\<lparr>sending_key_counter := sending_key_counter s + 1\<rparr>)]"
proof -
  let ?t = "pm_tun p\<lparr>packet_queue := q\<rparr>"
  obtain r t w' where e: "encapsulate c ?t pkt (scratch p) w = Returns (r, t, w')"
    using encapsulate_returns [OF assms(3)] by blast
  from e show ?thesis
  proof (cases rule: encapsulate_cases)
    case (sent s')
    then show ?thesis using assms e
      by (intro exI [of _ t]) (simp add: pump_drain_def pump_decapsulate_def decapsulate_def send_queued_packet_def dequeue_packet_def inbound_of_def)
  qed (use assms in simp)
qed

lemma drain_loop_with_session:
  "sessions (pm_tun p) ! (current (pm_tun p) mod 8) = Some s \<Longrightarrow> length (sessions (pm_tun p)) = 8 \<Longrightarrow>
     \<forall>pkt \<in> set (packet_queue (pm_tun p)). length pkt + 32 \<le> scratch p \<Longrightarrow>
     \<exists>dgs s' t. send_all c s (packet_queue (pm_tun p)) (scratch p) = Returns (dgs, s') \<and>
       drain_loop c p w out = Some (Returns (out @ map Network dgs, p\<lparr>pm_tun := t\<rparr>, w)) \<and> packet_queue t = [] \<and>
       sessions t ! (current t mod 8) = Some s'"
proof (induction "packet_queue (pm_tun p)" arbitrary: p s out)
  case Nil
  then have "drain_loop c p w out = Some (Returns (out @ map Network [], p\<lparr>pm_tun := pm_tun p\<rparr>, w))"
    using drain_empty [of p] by simp
  then show ?case using Nil
    by (intro exI [of _ "[]"] exI [of _ s] exI [of _ "pm_tun p"]) simp
next
  case (Cons pkt q)
  let ?s = "s\<lparr>sending_key_counter := sending_key_counter s + 1\<rparr>"
  have fits: "length pkt + 32 \<le> scratch p" using Cons.prems Cons.hyps(2) [symmetric] by simp
  obtain t where t: "pump_drain c p w = Returns (Network (datagram c s (sending_key_counter s) pkt), p\<lparr>pm_tun := t\<rparr>, w)"
    "packet_queue t = q" "current t = current (pm_tun p)" "sessions t = (sessions (pm_tun p))[current (pm_tun p) mod 8 := Some ?s]"
    using drain_with_session [OF Cons.prems(1) Cons.hyps(2) [symmetric] fits] by blast
  obtain dgs s' t' where ih: "send_all c ?s q (scratch p) = Returns (dgs, s')"
    "drain_loop c (p\<lparr>pm_tun := t\<rparr>) w (out @ [Network (datagram c s (sending_key_counter s) pkt)]) =
       Some (Returns ((out @ [Network (datagram c s (sending_key_counter s) pkt)]) @ map Network dgs, p\<lparr>pm_tun := t'\<rparr>, w))"
    "packet_queue t' = []" "sessions t' ! (current t' mod 8) = Some s'"
    using Cons.hyps(1) [of "p\<lparr>pm_tun := t\<rparr>" ?s "out @ [Network (datagram c s (sending_key_counter s) pkt)]"] t Cons.prems Cons.hyps(2) [symmetric] by auto
  have "drain_loop c p w out = Some (Returns (out @ map Network (datagram c s (sending_key_counter s) pkt # dgs), p\<lparr>pm_tun := t'\<rparr>, w))"
    using ih(2) by (subst drain_loop.simps) (simp add: t)
  moreover have "send_all c s (packet_queue (pm_tun p)) (scratch p) = Returns (datagram c s (sending_key_counter s) pkt # dgs, s')"
    using ih(1) fits Cons.hyps(2) [symmetric] by (simp add: format_packet_data_eq)
  ultimately show ?case using ih by blast
qed

text \<open>Without one, a drain moves the packet to the back of the queue and starts a handshake if none is under way.\<close>

lemma initiation_queue:
  "tunn_format_handshake_initiation c t n f w = (r, t', w') \<Longrightarrow> packet_queue t' = packet_queue t \<and> current t' = current t"
  by (auto simp: tunn_format_handshake_initiation_def Let_def case_prod_beta split: sum.splits if_splits)

lemma initiation_sent:
  "148 \<le> n \<Longrightarrow> \<not> is_in_progress (tn_handshake t) \<Longrightarrow>
     \<exists>dg t' w'. tunn_format_handshake_initiation c t n f w = (WriteToNetwork dg, t', w') \<and> is_in_progress (tn_handshake t')"
  by (auto simp: tunn_format_handshake_initiation_def format_handshake_initiation_def is_in_progress_def Let_def case_prod_beta
      HANDSHAKE_INIT_SZ_def)

lemma drain_without_session:
  assumes "sessions (pm_tun p) ! (current (pm_tun p) mod 8) = None" "packet_queue (pm_tun p) = pkt # q" "length q < 256"
    and f: "tunn_format_handshake_initiation c (pm_tun p\<lparr>packet_queue := q @ [pkt]\<rparr>) (scratch p) False w = (r, t, w')"
    and r: "r = Done \<or> r = WriteToNetwork dg"
  shows "pump_drain c p w = Returns (inbound_of r, p\<lparr>pm_tun := t\<rparr>, w')"
  using assms
  by (auto simp: pump_drain_def pump_decapsulate_def decapsulate_def send_queued_packet_def dequeue_packet_def encapsulate_def
      N_SESSIONS_def queue_packet_def MAX_QUEUE_DEPTH_def)

lemma drain_in_progress:
  assumes "sessions (pm_tun p) ! (current (pm_tun p) mod 8) = None" "packet_queue (pm_tun p) = pkt # q" "length q < 256"
    and "is_in_progress (tn_handshake (pm_tun p))"
  shows "drain_loop c p w out = Some (Returns (out, p\<lparr>pm_tun := pm_tun p\<lparr>packet_queue := q @ [pkt]\<rparr>\<rparr>, w))"
proof -
  have "tunn_format_handshake_initiation c (pm_tun p\<lparr>packet_queue := q @ [pkt]\<rparr>) (scratch p) False w =
      (Done, pm_tun p\<lparr>packet_queue := q @ [pkt]\<rparr>, w)"
    using assms(4) by (simp add: tunn_format_handshake_initiation_def)
  then show ?thesis
    using drain_without_session [OF assms(1-3), of c w Done] by (subst drain_loop.simps) (simp add: inbound_of_def)
qed

lemma drain_loop_without_session:
  assumes "sessions (pm_tun p) ! (current (pm_tun p) mod 8) = None" "length (packet_queue (pm_tun p)) \<le> 256"
  shows "\<exists>sent t w'. drain_loop c p w out = Some (Returns (out @ sent, p\<lparr>pm_tun := t\<rparr>, w')) \<and> length sent \<le> 1 \<and>
    mset (packet_queue t) = mset (packet_queue (pm_tun p))"
proof (cases "packet_queue (pm_tun p)")
  case Nil
  then have "drain_loop c p w out = Some (Returns (out @ [], p\<lparr>pm_tun := pm_tun p\<rparr>, w))" using drain_empty [of p] by simp
  then show ?thesis by (metis le0 list.size(3))
next
  case (Cons pkt q)
  then have q: "length q < 256" using assms(2) by simp
  show ?thesis
  proof (cases "is_in_progress (tn_handshake (pm_tun p))")
    case True
    then show ?thesis using drain_in_progress [OF assms(1) Cons q, of c w out] Cons by (intro exI [of _ "[]"]) auto
  next
    case False
    let ?t = "pm_tun p\<lparr>packet_queue := q @ [pkt]\<rparr>"
    obtain dg t w' where f: "tunn_format_handshake_initiation c ?t (scratch p) False w = (WriteToNetwork dg, t, w')"
      and prog: "is_in_progress (tn_handshake t)"
      using initiation_sent [of "scratch p" ?t c False w] False by auto
    have t: "packet_queue t = q @ [pkt]" "current t = current (pm_tun p)" "sessions t = sessions (pm_tun p)"
      using initiation_queue [OF f] initiation_sessions [OF f] by simp_all
    obtain pkt' q' where q': "q @ [pkt] = pkt' # q'" by (cases q) auto
    have len: "length q' < 256" using q q' by (metis length_append_singleton length_Cons nat.inject)
    have "drain_loop c p w out = drain_loop c (p\<lparr>pm_tun := t\<rparr>) w' (out @ [Network dg])"
      using drain_without_session [OF assms(1) Cons q f] by (subst drain_loop.simps) (simp add: inbound_of_def)
    also have "\<dots> = Some (Returns (out @ [Network dg], p\<lparr>pm_tun := t\<lparr>packet_queue := q' @ [pkt']\<rparr>\<rparr>, w'))"
      using drain_in_progress [of "p\<lparr>pm_tun := t\<rparr>" pkt' q' c w'] t assms(1) q' len prog by simp
    finally show ?thesis using Cons arg_cong [OF q', of mset]
      by (intro exI [of _ "[Network dg]"] exI [of _ "t\<lparr>packet_queue := q' @ [pkt']\<rparr>"] exI [of _ w']) auto
  qed
qed

section \<open>The operations of a tunnel only move the clock on\<close>

lemma later_elapsed [simp]: "later w (snd (elapsed t w))"
  by (simp add: elapsed_def Let_def case_prod_beta)

lemma later_timers_clear [simp]: "later w (snd (timers_clear tm w))"
  by (simp add: timers_clear_def Let_def case_prod_beta)

lemma later_reset_count [simp]: "later w (snd (reset_count rl w))"
  by (simp add: reset_count_def Let_def case_prod_beta)

lemma later_tunn_initiation: "tunn_format_handshake_initiation c t n f w = (r, t', w') \<Longrightarrow> later w w'"
proof -
  assume a: "tunn_format_handshake_initiation c t n f w = (r, t', w')"
  have i: "later v (snd (snd (format_handshake_initiation c h n v)))" for h v
    using later_format_initiation [of c h n v] by (cases "format_handshake_initiation c h n v") auto
  show ?thesis using a i [of w] later_trans [OF later_timers_clear i]
    by (auto simp: tunn_format_handshake_initiation_def Let_def case_prod_beta split: if_splits sum.splits)
qed

lemma later_encapsulate: "encapsulate c t src n w = Returns (r, t', w') \<Longrightarrow> later w w'"
  by (erule encapsulate_cases) (auto dest: later_tunn_initiation)

lemma later_send_queued: "send_queued_packet c t n w = Returns (r, t', w') \<Longrightarrow> later w w'"
  by (cases "packet_queue t"; cases "encapsulate c (t\<lparr>packet_queue := tl (packet_queue t)\<rparr>) (hd (packet_queue t)) n w")
     (auto simp: send_queued_packet_def dequeue_packet_def dest: later_encapsulate split: tunn_result.splits)

lemma later_handle_verified: "handle_verified_packet c t p n w = Returns (r, t', w') \<Longrightarrow> later w w'"
proof (cases p)
  case (HandshakeInit i)
  moreover assume "handle_verified_packet c t p n w = Returns (r, t', w')"
  ultimately show ?thesis using later_receive_init [of c "tn_handshake t" i n w]
    by (cases "receive_handshake_initialization c (tn_handshake t) i n w")
       (auto simp: handle_verified_packet_def handle_handshake_init_def Let_def split: sum.splits)
next
  case (HandshakeResponse i)
  moreover assume "handle_verified_packet c t p n w = Returns (r, t', w')"
  ultimately show ?thesis using later_receive_response [of c "tn_handshake t" i w]
    by (cases "receive_handshake_response c (tn_handshake t) i w")
       (auto simp: handle_verified_packet_def handle_handshake_response_def format_packet_data_eq Let_def split: sum.splits if_splits)
next
  case (PacketCookieReply i)
  moreover assume "handle_verified_packet c t p n w = Returns (r, t', w')"
  ultimately show ?thesis by (auto simp: handle_verified_packet_def split: prod.splits)
next
  case (PacketData d)
  moreover assume "handle_verified_packet c t p n w = Returns (r, t', w')"
  ultimately show ?thesis by (cases "handle_data c t d n") (auto simp: handle_verified_packet_def)
qed

lemma later_decapsulate: "decapsulate c t a dg n w = Returns (r, t', w') \<Longrightarrow> later w w'"
proof (cases "dg = []")
  case True
  then show "decapsulate c t a dg n w = Returns (r, t', w') \<Longrightarrow> ?thesis" by (auto simp: decapsulate_def dest: later_send_queued)
next
  case False
  obtain v rl w1 where v: "verify_packet c (tn_rate_limiter t) a dg COOKIE_REPLY_SZ w = (v, rl, w1)" by (metis prod_cases3)
  have "later w w1" using later_verify [OF v] .
  then show "decapsulate c t a dg n w = Returns (r, t', w') \<Longrightarrow> ?thesis" using False v
    by (auto simp: decapsulate_def Let_def dest: later_handle_verified intro: later_trans split: sum.splits tunn_result.splits if_splits)
qed

lemma later_expire_connection: "expire_connection t w = (t', w') \<Longrightarrow> later w w'"
  by (auto simp: expire_connection_def clear_all_def timers_clear_def Let_def case_prod_beta)

lemma later_elapsed_initiation: "tunn_format_handshake_initiation c t n f (snd (elapsed s w)) = (r, t', w') \<Longrightarrow> later w w'"
  using later_tunn_initiation later_trans later_elapsed by blast

lemma later_update_timers:
  assumes "update_timers c t n w = Returns (r, t', w')"
  shows "later w w'"
proof -
  define w1 where "w1 = snd (if should_reset_rr (tn_timers t) then reset_count (tn_rate_limiter t) (snd (instant_now w))
    else (tn_rate_limiter t, snd (instant_now w)))"
  have "later w w1" using later_trans [OF later_now later_reset_count] by (simp add: w1_def)
  moreover have "later w1 w'"
    using assms unfolding update_timers_def Let_def case_prod_beta w1_def [symmetric]
    by (auto elim!: obind_Returns dest!: later_encapsulate later_expire_connection later_tunn_initiation later_elapsed_initiation
        split: if_splits option.splits)
  ultimately show ?thesis by (rule later_trans)
qed

lemma later_step: "tunn_step c n x t w = Returns (r, t', w') \<Longrightarrow> later w w'"
  by (cases x) (auto dest!: later_encapsulate later_decapsulate later_update_timers later_tunn_initiation)

section \<open>The invariant of a pump\<close>

definition pump_ok :: "u32 \<Rightarrow> pump \<Rightarrow> world \<Rightarrow> bool" where
  "pump_ok g p w \<longleftrightarrow> tunn_ok g (max (pm_mtu p) 1500) (pm_tun p) w"

lemma pump_ok_later: "pump_ok g p w \<Longrightarrow> later w w' \<Longrightarrow> pump_ok g p w'"
  using tunn_ok_later by (auto simp: pump_ok_def)

lemma pump_ok_step:
  assumes "crypto_ok c" "pump_ok g p w" "op_fits (scratch p) x"
  obtains r t w' where "tunn_step c (scratch p) x (pm_tun p) w = Returns (r, t, w')" "pump_ok g (p\<lparr>pm_tun := t\<rparr>) w'" "later w w'"
  using tunn_step_ok [OF assms(1) _ scratch_ge(2) assms(3), of g "pm_tun p" w] assms(2) later_step
  by (fastforce simp: pump_ok_def scratch_def)

lemma pump_decapsulate_ok:
  assumes "crypto_ok c" "pump_ok g p w" "length dg \<le> scratch p + 16"
  shows "\<exists>r t w'. pump_decapsulate c p dg w = Returns (r, p\<lparr>pm_tun := t\<rparr>, w') \<and> pump_ok g (p\<lparr>pm_tun := t\<rparr>) w' \<and> later w w'"
  by (rule pump_ok_step [OF assms(1,2), of "Decapsulate None dg"]) (use assms(3) in \<open>auto simp: pump_decapsulate_def\<close>)

lemma pump_encapsulate_ok:
  assumes "crypto_ok c" "pump_ok g p w" "length pkt \<le> max (pm_mtu p) 1500"
  shows "\<exists>r t w'. pump_encapsulate c p pkt w = Returns (r, p\<lparr>pm_tun := t\<rparr>, w') \<and> pump_ok g (p\<lparr>pm_tun := t\<rparr>) w' \<and> later w w'"
  by (rule pump_ok_step [OF assms(1,2), of "Encapsulate pkt"]) (use assms(3) in \<open>auto simp: pump_encapsulate_def scratch_def\<close>)

lemma pump_update_timers_ok:
  assumes "crypto_ok c" "pump_ok g p w"
  shows "\<exists>r t w'. pump_update_timers c p w = Returns (r, p\<lparr>pm_tun := t\<rparr>, w') \<and> pump_ok g (p\<lparr>pm_tun := t\<rparr>) w' \<and> later w w'"
  by (rule pump_ok_step [OF assms, of UpdateTimers]) (auto simp: pump_update_timers_def)

lemma initiate_handshake_ok:
  assumes "pump_ok g p w" "initiate_handshake c p w = (r, p', w')"
  shows "pump_ok g p' w' \<and> pm_mtu p' = pm_mtu p \<and> later w w'"
  using assms tunn_ok_initiation [of g "max (pm_mtu p) 1500" "pm_tun p" w c "scratch p" False]
  by (auto dest!: later_tunn_initiation simp: initiate_handshake_def pump_ok_def split: prod.splits)

lemma with_index_ok:
  "clock_from T w \<Longrightarrow> with_index c sk peer mtu idx w = (p, w') \<Longrightarrow> pump_ok (drop_bit 8 (push_bit 8 idx)) p w' \<and> pm_mtu p = mtu"
  using tunn_ok_new [of T w c sk peer None "Some 5" idx None] by (auto simp: with_index_def pump_ok_def split: prod.splits)

lemma drain_loop_returns:
  assumes "pump_ok g p w"
  shows "\<exists>sent t w'. drain_loop c p w out = Some (Returns (out @ sent, p\<lparr>pm_tun := t\<rparr>, w'))"
proof (cases "sessions (pm_tun p) ! (current (pm_tun p) mod 8)")
  case None
  then show ?thesis using drain_loop_without_session [OF None] assms by (fastforce simp: pump_ok_def tunn_ok_def ring_ok_def)
next
  case (Some s)
  then show ?thesis using drain_loop_with_session [OF Some] assms
    by (fastforce simp: pump_ok_def tunn_ok_def ring_ok_def slots_ok_def scratch_def)
qed

text \<open>The invariant survives draining: the loop only calls \<open>drain\<close>.\<close>

lemma drain_loop_ok:
  "drain_loop c p w out = Some r \<Longrightarrow> crypto_ok c \<Longrightarrow> pump_ok g p w \<Longrightarrow>
     r \<noteq> Panics \<and> (\<forall>out' p' w'. r = Returns (out', p', w') \<longrightarrow> pump_ok g p' w' \<and> pm_mtu p' = pm_mtu p \<and> later w w')"
proof (induction rule: drain_loop.raw_induct [rotated, consumes 1, case_names step])
  case (step f c p w out r)
  obtain x t w1 where d: "pump_drain c p w = Returns (x, p\<lparr>pm_tun := t\<rparr>, w1)" and ok: "pump_ok g (p\<lparr>pm_tun := t\<rparr>) w1" "later w w1"
    using pump_decapsulate_ok [OF step.prems, of "[]"] by (auto simp: pump_drain_def)
  show ?case
  proof (cases "x = Nothing")
    case True
    then show ?thesis using step.hyps d ok by auto
  next
    case False
    then show ?thesis using step.hyps step.IH [of c "p\<lparr>pm_tun := t\<rparr>" w1 "out @ [x]" r] d ok step.prems by (auto intro: later_trans)
  qed
qed

section \<open>Which peer a datagram belongs to\<close>

lemma peer_index_of_packet:
  assumes "wf_packet m"
  shows "peer_index_of (packet_bytes m @ macs) =
    (case m of
       HandshakeInit _ \<Rightarrow> None
     | HandshakeResponse r \<Rightarrow> Some (drop_bit 8 (hr_receiver_idx r))
     | PacketCookieReply r \<Rightarrow> Some (drop_bit 8 (cr_receiver_idx r))
     | PacketData r \<Rightarrow> Some (drop_bit 8 (pd_receiver_idx r)))"
proof -
  have nth0: "(le32 n @ rest) ! 0 = ucast n" for n rest by (simp add: le_bytes_def upt_rec nth_append)
  have s4: "slice 4 8 (le32 a @ le32 b @ rest) = le32 b" for a b rest by (simp add: slice_def)
  have s8: "slice 8 12 (le32 a @ le32 b @ le32 d @ rest) = le32 d" for a b d rest by (simp add: slice_def)
  show ?thesis using assms
    by (cases m) (simp_all add: peer_index_of_def nth0 s4 s8)
qed

section \<open>Properties\<close>

text \<open>
  C20: Draining ends. The loop every caller of a pump runs returns, without a panic. With a session,
  it has sent every packet of the queue, in order, and the queue is empty; without one, it has sent
  at most one datagram (an initiation) and no packet is lost.
\<close>

theorem drain_flushes_queue:
  assumes "pump_ok g p w"
  shows "\<exists>out p' w'. drain_loop c p w [] = Some (Returns (out, p', w')) \<and>
    (case sessions (pm_tun p) ! (current (pm_tun p) mod 8) of
       Some s \<Rightarrow> packet_queue (pm_tun p') = [] \<and>
         (\<exists>dgs s'. send_all c s (packet_queue (pm_tun p)) (scratch p) = Returns (dgs, s') \<and> out = map Network dgs)
     | None \<Rightarrow> length out \<le> 1 \<and> mset (packet_queue (pm_tun p')) = mset (packet_queue (pm_tun p)))"
proof (cases "sessions (pm_tun p) ! (current (pm_tun p) mod 8)")
  case None
  have "length (packet_queue (pm_tun p)) \<le> 256" using assms by (simp add: pump_ok_def tunn_ok_def ring_ok_def)
  from drain_loop_without_session [OF None this, of c w "[]"] show ?thesis using None by fastforce
next
  case (Some s)
  have "length (sessions (pm_tun p)) = 8" "\<forall>pkt \<in> set (packet_queue (pm_tun p)). length pkt + 32 \<le> scratch p"
    using assms by (auto simp: pump_ok_def tunn_ok_def ring_ok_def slots_ok_def scratch_def)
  from drain_loop_with_session [OF Some this, of c w "[]"] show ?thesis using Some by fastforce
qed

definition waiting_pump :: pump where
  "waiting_pump = \<lparr>pm_tun = queue_packet [1, 2, 3] (aged_tunn\<lparr>current := 1\<rparr>), pm_mtu = 1280\<rparr>"

lemma waiting_pump_ok: "pump_ok 7 waiting_pump (world_after 10)"
proof -
  have "tunn_ok 7 1500 (aged_tunn\<lparr>current := 1\<rparr>) (world_after 10)"
    using aged_tunn_ok [of 1500 10] by (simp add: tunn_ok_def ring_ok_def clock_ok_def)
  from tunn_ok_queue [OF this, of "[1, 2, 3]"] show ?thesis by (simp add: pump_ok_def waiting_pump_def)
qed

theorem drain_flushes_queue_witness:
  "\<exists>dg p' w'. drain_loop demo_crypto waiting_pump (world_after 10) [] = Some (Returns ([Network dg], p', w')) \<and>
     packet_queue (pm_tun p') = []"
proof -
  have "packet_queue (pm_tun waiting_pump) = [[1, 2, 3]]" "current (pm_tun waiting_pump) = 1"
    "sessions (pm_tun waiting_pump) ! 1 = Some (session_new 0x701 0x901 (replicate 32 1) (replicate 32 2))"
    by (simp_all add: waiting_pump_def queue_packet_def MAX_QUEUE_DEPTH_def aged_tunn_def demo_tunn_def tunn_new_def
        Let_def case_prod_beta)
  then show ?thesis
    using drain_flushes_queue [OF waiting_pump_ok, of demo_crypto]
    by (auto simp: format_packet_data_eq split: if_splits)
qed



end
