(* ===== verification/Tunn_Delivery.thy ===== *)
theory Tunn_Delivery
  imports Wg_Pump
begin

text \<open>
  Two pumps over a network: the handshake one of them starts when it has a packet to send, the
  flush of its queue, and what the other one hands on.
\<close>

section \<open>Handshake messages pass the limiter of the other end\<close>

definition maced :: "crypto \<Rightarrow> noise_params \<Rightarrow> bytes \<Rightarrow> bool" where
  "maced c p dg \<longleftrightarrow> (\<exists>h i msg. dg = fst (append_mac1_and_mac2 c h i msg) \<and> params h = p)"

lemma maced_valid: "crypto_ok c \<Longrightarrow> maced c p dg \<Longrightarrow> sending_mac1_key p = mac1_key rl \<Longrightarrow> mac1_valid c rl dg"
  using appended_mac1_valid by (auto simp: maced_def)

lemma macedI: "params h = p \<Longrightarrow> maced c p (fst (append_mac1_and_mac2 c h i msg))"
  by (auto simp: maced_def)

lemma initiation_maced:
  assumes "format_handshake_initiation c h n w = (Inr dg, h1, w1)"
  shows "maced c (params h) dg"
proof -
  have n: "HANDSHAKE_INIT_SZ \<le> n" using assms by (auto simp: format_handshake_initiation_def split: if_splits)
  show ?thesis using assms unfolding format_handshake_initiation_eq [OF n]
    by (auto simp: Let_def case_prod_beta intro!: macedI)
qed

lemma response_maced:
  assumes "format_handshake_response c h n w = Returns (Inr (dg, s), h1, w1)"
  shows "maced c (params h) dg"
proof -
  have n: "HANDSHAKE_RESP_SZ \<le> n" using assms by (auto simp: format_handshake_response_def split: if_splits)
  obtain a b d e where st: "hs_state h = InitReceived a b d e"
    using assms by (auto simp: format_handshake_response_def split: if_splits handshake_state.splits)
  show ?thesis using assms unfolding format_handshake_response_eq [OF n st]
    by (auto simp: Let_def case_prod_beta intro!: macedI)
qed

lemma received_response_maced:
  "receive_handshake_initialization c h p n w = Returns (Inr (dg, s), h1, w1) \<Longrightarrow> maced c (params h) dg"
  by (auto simp: receive_handshake_initialization_eq Let_def case_prod_beta dest!: response_maced
      split: option.splits if_splits)

text \<open>The two ends of a tunnel: keys and limiters fit, and the limiters have room.\<close>

definition ends :: "crypto \<Rightarrow> tunn \<Rightarrow> tunn \<Rightarrow> bool" where
  "ends c a b \<longleftrightarrow> paired c (params (tn_handshake a)) (params (tn_handshake b)) \<and>
     mac1_key (tn_rate_limiter a) = sending_mac1_key (params (tn_handshake b)) \<and>
     mac1_key (tn_rate_limiter b) = sending_mac1_key (params (tn_handshake a)) \<and>
     rl_count (tn_rate_limiter a) < rl_limit (tn_rate_limiter a) \<and>
     rl_count (tn_rate_limiter b) < rl_limit (tn_rate_limiter b)"

section \<open>Data\<close>

text \<open>What a pump hands on of a decrypted packet.\<close>

definition handed_on :: "bytes \<Rightarrow> inbound" where
  "handed_on p =
     (case decapsulated_header p of
        None \<Rightarrow> Nothing
      | Some (n, _) \<Rightarrow> if n \<le> length p then Packet (take n p) else Nothing)"

lemma validate_handed_on: "inbound_of (fst (validate_decapsulated_packet t p)) = handed_on p"
  by (auto simp: validate_decapsulated_packet_def handed_on_def inbound_of_def decapsulated_header_def Let_def
      split: option.splits ip_addr.splits)

fun receive_all :: "crypto \<Rightarrow> pump \<Rightarrow> bytes list \<Rightarrow> world \<Rightarrow> (inbound list \<times> pump \<times> world) outcome" where
  "receive_all c p [] w = Returns ([], p, w)"
| "receive_all c p (dg # dgs) w =
     obind (pump_decapsulate c p dg w) (\<lambda>(r, p, w).
     obind (receive_all c p dgs w) (\<lambda>(rs, p, w). Returns (r # rs, p, w)))"

lemma receive_next:
  assumes ok: "crypto_ok c" and x: "crossed a s" and room: "length src + 16 \<le> n"
    and k: "unat (rk_next (receiving_key_counter s)) < 2 ^ 64 - 1024"
  shows "\<exists>v. receive_packet_data c s \<lparr>pd_receiver_idx = sending_index a, pd_counter = rk_next (receiving_key_counter s),
      pd_encrypted_encapsulated_packet = aead_chacha20_seal c (sender a) (rk_next (receiving_key_counter s)) src []\<rparr> n =
      Returns (Inr src, s\<lparr>receiving_key_counter := v\<rparr>) \<and> rk_next v = rk_next (receiving_key_counter s) + 1"
proof -
  let ?k = "rk_next (receiving_key_counter s)"
  obtain v where v: "counter_mark (receiving_key_counter s) ?k = (True, v)" "rk_next v = ?k + 1"
    using in_order_mark [OF k] by blast
  have "deliver c s (datagram c a ?k src) n = Returns ([src], s\<lparr>receiving_key_counter := v\<rparr>)"
    using deliver_datagram [OF ok x room, of ?k] v(1) by simp
  then show ?thesis using v(2) unfolding deliver_def parse_datagram [OF ok] sum.case packet.case
    by (cases "receive_packet_data c s \<lparr>pd_receiver_idx = sending_index a, pd_counter = ?k,
          pd_encrypted_encapsulated_packet = aead_chacha20_seal c (sender a) ?k src []\<rparr> n")
       (auto split: sum.splits)
qed

text \<open>The next datagram of a crossed session, seen by the pump that holds the other session.\<close>

lemma pump_receive_next:
  assumes ok: "crypto_ok c" and x: "crossed a s" and room: "length src + 16 \<le> scratch p"
    and k: "unat (rk_next (receiving_key_counter s)) < 2 ^ 64 - 1024"
    and s: "sessions (pm_tun p) ! (unat (receiving_index s) mod 8) = Some s" "length (sessions (pm_tun p)) = 8"
  shows "\<exists>v t. pump_decapsulate c p (datagram c a (rk_next (receiving_key_counter s)) src) w =
      Returns (handed_on src, p\<lparr>pm_tun := t\<rparr>, w) \<and> rk_next v = rk_next (receiving_key_counter s) + 1 \<and>
    sessions t = (sessions (pm_tun p))[unat (receiving_index s) mod 8 := Some (s\<lparr>receiving_key_counter := v\<rparr>)]"
proof -
  let ?k = "rk_next (receiving_key_counter s)"
  obtain v where v: "receive_packet_data c s \<lparr>pd_receiver_idx = sending_index a, pd_counter = ?k,
      pd_encrypted_encapsulated_packet = aead_chacha20_seal c (sender a) ?k src []\<rparr> (scratch p) =
      Returns (Inr src, s\<lparr>receiving_key_counter := v\<rparr>)" "rk_next v = ?k + 1"
    using receive_next [OF ok x room k] by blast
  have i: "sending_index a = receiving_index s" using x by (simp add: crossed_def)
  have ne: "datagram c a ?k src \<noteq> []" by (simp add: datagram_def le_bytes_def)
  have ver: "verify_packet c (tn_rate_limiter (pm_tun p)) None (datagram c a ?k src) COOKIE_REPLY_SZ w =
      (Inr (PacketData \<lparr>pd_receiver_idx = sending_index a, pd_counter = ?k,
      pd_encrypted_encapsulated_packet = aead_chacha20_seal c (sender a) ?k src []\<rparr>), tn_rate_limiter (pm_tun p), w)"
    by (rule verify_passes_others [OF parse_datagram [OF ok]]) (simp add: handshake_sender_def)
  show ?thesis
    unfolding pump_decapsulate_def decapsulate_def Let_def if_not_P [OF ne] ver prod.case sum.case handle_verified_packet_def
      packet.case handle_data_def
    using v s by (auto simp: i N_SESSIONS_def or_error_def case_prod_beta validate_handed_on intro!: exI)
qed

lemma receive_in_order:
  assumes ok: "crypto_ok c"
  shows "crossed a s \<Longrightarrow> \<forall>src \<in> set srcs. length src + 16 \<le> scratch p \<Longrightarrow>
    unat (rk_next (receiving_key_counter s)) + length srcs < 2 ^ 64 - 1024 \<Longrightarrow>
    sending_key_counter a = rk_next (receiving_key_counter s) \<Longrightarrow>
    sessions (pm_tun p) ! (unat (receiving_index s) mod 8) = Some s \<Longrightarrow> length (sessions (pm_tun p)) = 8 \<Longrightarrow>
    send_all c a srcs n = Returns (dgs, a') \<Longrightarrow>
    \<exists>p'. receive_all c p dgs w = Returns (map handed_on srcs, p', w)"
proof (induction srcs arbitrary: a s p dgs)
  case Nil
  then show ?case by simp
next
  case (Cons src srcs)
  let ?k = "rk_next (receiving_key_counter s)"
  let ?a = "a\<lparr>sending_key_counter := ?k + 1\<rparr>"
  obtain rest where r: "send_all c ?a srcs n = Returns (rest, a')" and dgs: "dgs = datagram c a ?k src # rest"
    using Cons.prems by (cases "send_all c ?a srcs n") (auto simp: format_packet_data_eq split: if_splits)
  obtain v t where v: "pump_decapsulate c p (datagram c a ?k src) w = Returns (handed_on src, p\<lparr>pm_tun := t\<rparr>, w)"
      "rk_next v = ?k + 1"
      "sessions t = (sessions (pm_tun p))[unat (receiving_index s) mod 8 := Some (s\<lparr>receiving_key_counter := v\<rparr>)]"
    using pump_receive_next [OF ok Cons.prems(1) _ _ Cons.prems(5,6), of src w] Cons.prems by auto
  have "unat (rk_next v) = unat ?k + 1" using Cons.prems(3) by (simp add: v unat_word_ariths)
  then obtain p' where "receive_all c (p\<lparr>pm_tun := t\<rparr>) rest w = Returns (map handed_on srcs, p', w)"
    using Cons.IH [OF _ _ _ _ _ _ r, of "s\<lparr>receiving_key_counter := v\<rparr>" "p\<lparr>pm_tun := t\<rparr>"] Cons.prems v
    by (auto simp: crossed_def)
  then show ?case using v dgs by simp
qed

section \<open>The handshake between two pumps\<close>

lemma encapsulate_starts_handshake:
  assumes "sessions (pm_tun p) ! (current (pm_tun p) mod 8) = None" "length (packet_queue (pm_tun p)) < 256"
    and "\<not> is_in_progress (tn_handshake (pm_tun p))" "\<not> is_expired (tn_handshake (pm_tun p))"
  shows "\<exists>dg h w1 t. format_handshake_initiation c (tn_handshake (pm_tun p)) (scratch p) w = (Inr dg, h, w1) \<and>
    pump_encapsulate c p pkt w = Returns (Some dg, p\<lparr>pm_tun := t\<rparr>, w1) \<and> tn_handshake t = h \<and>
    sessions t = sessions (pm_tun p) \<and> current t = current (pm_tun p) \<and>
    packet_queue t = packet_queue (pm_tun p) @ [pkt] \<and> tn_rate_limiter t = tn_rate_limiter (pm_tun p)"
proof -
  obtain dg h w1 where "format_handshake_initiation c (tn_handshake (pm_tun p)) (scratch p) w = (Inr dg, h, w1)"
    by (simp add: format_handshake_initiation_eq Let_def case_prod_beta)
  then show ?thesis using assms
    by (simp add: pump_encapsulate_def encapsulate_def N_SESSIONS_def queue_packet_def MAX_QUEUE_DEPTH_def
        tunn_format_handshake_initiation_def written_def Let_def) (intro exI conjI, rule refl, simp_all)
qed

text \<open>A handshake message with a valid first MAC passes a limiter that has room.\<close>

lemma decapsulate_handshake:
  assumes "crypto_ok c" "parse_incoming_packet dg = Inr m" "handshake_sender m = Some i"
    and "maced c q dg" "sending_mac1_key q = mac1_key (tn_rate_limiter t)"
    and "rl_count (tn_rate_limiter t) < rl_limit (tn_rate_limiter t)"
  shows "\<exists>rl. decapsulate c t None dg n w = handle_verified_packet c (t\<lparr>tn_rate_limiter := rl\<rparr>) m n w"
proof -
  have "dg \<noteq> []" using assms(2) by (auto simp: parse_incoming_packet_def)
  then show ?thesis
    using verify_no_load [OF assms(1-3,6), of None COOKIE_REPLY_SZ w] maced_valid [OF assms(1,4,5)]
    by (auto simp: decapsulate_def)
qed

lemma answer_initiation:
  assumes "receive_handshake_initialization c (tn_handshake t) m n w = Returns (Inr (dg2, s), h, w1)"
  shows "\<exists>t1. handle_verified_packet c t (HandshakeInit m) n w = Returns (WriteToNetwork dg2, t1, w1) \<and>
    sessions t1 = (sessions t)[unat (receiving_index s) mod 8 := Some s]"
  using assms
  by (simp add: handle_verified_packet_def handle_handshake_init_def or_error_def Let_def N_SESSIONS_def session_local_index_def)

lemma accept_response:
  assumes r: "receive_handshake_response c (tn_handshake t) m w = (Inr s, h, w1)" and n: "32 \<le> n"
    and none: "sessions t ! (current t mod 8) = None"
  shows "\<exists>t1. handle_verified_packet c t (HandshakeResponse m) n w =
      Returns (WriteToNetwork (datagram c s (sending_key_counter s) []), t1, w1) \<and>
    sessions t1 = (sessions t)[unat (receiving_index s) mod 8 := Some (s\<lparr>sending_key_counter := sending_key_counter s + 1\<rparr>)] \<and>
    current t1 = unat (receiving_index s) \<and> packet_queue t1 = packet_queue t"
proof -
  have cur: "current (set_current_session i t2) = i"
    if "i mod 8 = current t2 mod 8 \<or> sessions t2 ! (current t2 mod 8) = None" for i t2
    using that by (auto simp: set_current_session_def N_SESSIONS_def Let_def)
  show ?thesis using r n none
    by (simp add: handle_verified_packet_def handle_handshake_response_def format_packet_data_eq or_error_def Let_def
        N_SESSIONS_def session_local_index_def)
       (rule cur, cases "unat (receiving_index s) mod 8 = current t mod 8", simp_all)
qed

lemma pump_decapsulate_of:
  assumes "decapsulate c (pm_tun p) None dg (scratch p) w = Returns (WriteToNetwork b, t, w1)"
  shows "pump_decapsulate c p dg w = Returns (Network b, p\<lparr>pm_tun := t\<rparr>, w1)"
  using assms by (simp add: pump_decapsulate_def inbound_of_def)

lemma pumps_handshake:
  assumes ok: "crypto_ok c" and ends: "ends c (pm_tun pa) (pm_tun pb)"
    and idle: "sessions (pm_tun pa) ! (current (pm_tun pa) mod 8) = None"
      "\<not> is_in_progress (tn_handshake (pm_tun pa))" "\<not> is_expired (tn_handshake (pm_tun pa))"
    and fresh: "after (initiation_stamp (tn_handshake (pm_tun pa)) w) (last_handshake_timestamp (tn_handshake (pm_tun pb)))"
    and room: "length (packet_queue (pm_tun pa)) < 256"
  obtains init ta w1 resp tb v1 si sr tc w2 where
    "pump_encapsulate c pa pkt w = Returns (Some init, pa\<lparr>pm_tun := ta\<rparr>, w1)"
    "pump_decapsulate c pb init v = Returns (Network resp, pb\<lparr>pm_tun := tb\<rparr>, v1)"
    "pump_decapsulate c (pa\<lparr>pm_tun := ta\<rparr>) resp w1 = Returns (Network (datagram c si 0 []), pa\<lparr>pm_tun := tc\<rparr>, w2)"
    "crossed si sr" "sending_key_counter si = 0" "receiving_key_counter sr = rk_default"
    "sessions tb = (sessions (pm_tun pb))[unat (receiving_index sr) mod 8 := Some sr]"
    "sessions tc = (sessions (pm_tun pa))[unat (receiving_index si) mod 8 := Some (si\<lparr>sending_key_counter := 1\<rparr>)]"
    "current tc = unat (receiving_index si)" "packet_queue tc = packet_queue (pm_tun pa) @ [pkt]"
proof -
  obtain init hi w1 ta where f: "format_handshake_initiation c (tn_handshake (pm_tun pa)) (scratch pa) w = (Inr init, hi, w1)"
    and e: "pump_encapsulate c pa pkt w = Returns (Some init, pa\<lparr>pm_tun := ta\<rparr>, w1)" "tn_handshake ta = hi"
      "sessions ta = sessions (pm_tun pa)" "current ta = current (pm_tun pa)"
      "packet_queue ta = packet_queue (pm_tun pa) @ [pkt]" "tn_rate_limiter ta = tn_rate_limiter (pm_tun pa)"
    using encapsulate_starts_handshake [OF idle(1) room(1) idle(2,3)] by blast
  have "92 \<le> scratch pb" by (simp add: scratch_def)
  then obtain p resp sr hr v1 m si hi2 w2 where x: "parse_incoming_packet init = Inr (HandshakeInit p)"
      "receive_handshake_initialization c (tn_handshake (pm_tun pb)) p (scratch pb) v = Returns (Inr (resp, sr), hr, v1)"
      "parse_incoming_packet resp = Inr (HandshakeResponse m)" "receive_handshake_response c hi m w1 = (Inr si, hi2, w2)"
    and s: "crossed si sr" "sending_key_counter si = 0" "receiving_key_counter sr = rk_default"
    using handshake_exchange [OF ok _ f fresh, of "scratch pb" v] ends by (auto simp: ends_def)
  obtain rl where d: "decapsulate c (pm_tun pb) None init (scratch pb) v =
      handle_verified_packet c (pm_tun pb\<lparr>tn_rate_limiter := rl\<rparr>) (HandshakeInit p) (scratch pb) v"
    using decapsulate_handshake [OF ok x(1) _ initiation_maced [OF f], of "hi_sender_idx p" "pm_tun pb" "scratch pb" v] ends
    by (auto simp: ends_def handshake_sender_def)
  have "receive_handshake_initialization c (tn_handshake (pm_tun pb\<lparr>tn_rate_limiter := rl\<rparr>)) p (scratch pb) v =
      Returns (Inr (resp, sr), hr, v1)" using x(2) by simp
  from answer_initiation [OF this] obtain tb where h: "handle_verified_packet c (pm_tun pb\<lparr>tn_rate_limiter := rl\<rparr>)
        (HandshakeInit p) (scratch pb) v = Returns (WriteToNetwork resp, tb, v1)"
      "sessions tb = (sessions (pm_tun pb))[unat (receiving_index sr) mod 8 := Some sr]" by auto
  note db = pump_decapsulate_of [OF d [unfolded h(1)]] h(2)
  have "\<exists>rl. decapsulate c ta None resp (scratch pa) w1 =
      handle_verified_packet c (ta\<lparr>tn_rate_limiter := rl\<rparr>) (HandshakeResponse m) (scratch pa) w1"
  proof (rule decapsulate_handshake [OF ok x(3) _ received_response_maced [OF x(2)]])
    show "handshake_sender (HandshakeResponse m) = Some (hr_sender_idx m)" by (simp add: handshake_sender_def)
    show "sending_mac1_key (params (tn_handshake (pm_tun pb))) = mac1_key (tn_rate_limiter ta)"
      "rl_count (tn_rate_limiter ta) < rl_limit (tn_rate_limiter ta)"
      using ends unfolding ends_def e(6) by auto
  qed
  then obtain rl' where d: "decapsulate c ta None resp (scratch pa) w1 =
      handle_verified_packet c (ta\<lparr>tn_rate_limiter := rl'\<rparr>) (HandshakeResponse m) (scratch pa) w1" by blast
  have "receive_handshake_response c (tn_handshake (ta\<lparr>tn_rate_limiter := rl'\<rparr>)) m w1 = (Inr si, hi2, w2)"
    "sessions (ta\<lparr>tn_rate_limiter := rl'\<rparr>) ! (current (ta\<lparr>tn_rate_limiter := rl'\<rparr>) mod 8) = None"
    using x(4) idle(1) e(2-4) by simp_all
  then obtain tc where h: "handle_verified_packet c (ta\<lparr>tn_rate_limiter := rl'\<rparr>) (HandshakeResponse m) (scratch pa) w1 =
        Returns (WriteToNetwork (datagram c si 0 []), tc, w2)"
      "sessions tc = (sessions ta)[unat (receiving_index si) mod 8 := Some (si\<lparr>sending_key_counter := 1\<rparr>)]"
      "current tc = unat (receiving_index si)" "packet_queue tc = packet_queue ta"
    using accept_response [OF _ scratch_ge(3) [of pa], of c "ta\<lparr>tn_rate_limiter := rl'\<rparr>" m w1 si hi2 w2] s(2) by auto
  have da: "pump_decapsulate c (pa\<lparr>pm_tun := ta\<rparr>) resp w1 = Returns (Network (datagram c si 0 []), pa\<lparr>pm_tun := tc\<rparr>, w2)"
    using pump_decapsulate_of [of c "pa\<lparr>pm_tun := ta\<rparr>" resp w1] d h(1) by simp
  show ?thesis by (rule that [OF e(1) db(1) da s db(2)]) (use h e(3,5) in simp_all)
qed

section \<open>Properties\<close>

text \<open>
  C6: Delivery. A pump with no session gets a packet to send. Its initiation reaches the pump at the
  other end, the answer comes back, and then draining the first pump sends all the packets that
  waited, in order, the new one last: the other pump hands on each of them, cut to the length its
  header states, after the empty packet that confirms the session.
\<close>

theorem queued_packets_delivered:
  assumes ok: "crypto_ok c" and ends: "ends c (pm_tun pa) (pm_tun pb)" and mtu: "pm_mtu pa = pm_mtu pb"
    and a: "pump_ok ga pa w" and b: "pump_ok gb pb v"
    and idle: "sessions (pm_tun pa) ! (current (pm_tun pa) mod 8) = None"
      "\<not> is_in_progress (tn_handshake (pm_tun pa))" "\<not> is_expired (tn_handshake (pm_tun pa))"
    and fresh: "after (initiation_stamp (tn_handshake (pm_tun pa)) w) (last_handshake_timestamp (tn_handshake (pm_tun pb)))"
    and room: "length (packet_queue (pm_tun pa)) < 256" "length pkt \<le> max (pm_mtu pa) 1500"
  shows "\<exists>init pa1 w1 resp pb1 v1 ka pa2 w2 dgs pa3 w3 pb2.
    pump_encapsulate c pa pkt w = Returns (Some init, pa1, w1) \<and>
    pump_decapsulate c pb init v = Returns (Network resp, pb1, v1) \<and>
    pump_decapsulate c pa1 resp w1 = Returns (Network ka, pa2, w2) \<and>
    drain_loop c pa2 w2 [] = Some (Returns (map Network dgs, pa3, w3)) \<and> packet_queue (pm_tun pa3) = [] \<and>
    receive_all c pb1 (ka # dgs) v1 = Returns (Nothing # map handed_on (packet_queue (pm_tun pa) @ [pkt]), pb2, v1)"
proof -
  let ?q = "packet_queue (pm_tun pa) @ [pkt]"
  have rings: "length (sessions (pm_tun pa)) = 8" "length (sessions (pm_tun pb)) = 8"
    and fits: "\<forall>p \<in> set ?q. length p + 32 \<le> scratch pa"
    using a b room by (auto simp: pump_ok_def tunn_ok_def ring_ok_def slots_ok_def scratch_def)
  have sz: "scratch pb = scratch pa" using mtu by (simp add: scratch_def)
  obtain init ta w1 resp tb v1 si sr tc w2 where e: "pump_encapsulate c pa pkt w = Returns (Some init, pa\<lparr>pm_tun := ta\<rparr>, w1)"
    and db: "pump_decapsulate c pb init v = Returns (Network resp, pb\<lparr>pm_tun := tb\<rparr>, v1)"
      "sessions tb = (sessions (pm_tun pb))[unat (receiving_index sr) mod 8 := Some sr]"
    and da: "pump_decapsulate c (pa\<lparr>pm_tun := ta\<rparr>) resp w1 = Returns (Network (datagram c si 0 []), pa\<lparr>pm_tun := tc\<rparr>, w2)"
      "sessions tc = (sessions (pm_tun pa))[unat (receiving_index si) mod 8 := Some (si\<lparr>sending_key_counter := 1\<rparr>)]"
      "current tc = unat (receiving_index si)" "packet_queue tc = ?q"
    and s: "crossed si sr" "sending_key_counter si = 0" "receiving_key_counter sr = rk_default"
    by (rule pumps_handshake [OF ok ends idle fresh room(1)])
  obtain dgs s' td where dl: "send_all c (si\<lparr>sending_key_counter := 1\<rparr>) ?q (scratch pa) = Returns (dgs, s')"
      "drain_loop c (pa\<lparr>pm_tun := tc\<rparr>) w2 [] = Some (Returns (map Network dgs, pa\<lparr>pm_tun := td\<rparr>, w2))" "packet_queue td = []"
    using drain_loop_with_session [of "pa\<lparr>pm_tun := tc\<rparr>" "si\<lparr>sending_key_counter := 1\<rparr>" c w2 "[]"] da rings fits by auto
  have "\<not> scratch pa < 32" by (simp add: not_less)
  then have "send_all c si ([] # ?q) (scratch pa) = Returns (datagram c si 0 [] # dgs, s')"
    using dl(1) s(2) by (simp add: format_packet_data_eq)
  moreover have "\<forall>p \<in> set ([] # ?q). length p + 16 \<le> scratch (pb\<lparr>pm_tun := tb\<rparr>)"
    using fits sz scratch_ge(3) [of pb] by (auto simp del: scratch_ge)
  moreover have "unat (rk_next (receiving_key_counter sr)) + length ([] # ?q) < 2 ^ 64 - 1024"
    "sending_key_counter si = rk_next (receiving_key_counter sr)"
    using room by (simp_all add: s rk_default_def)
  moreover have "sessions (pm_tun (pb\<lparr>pm_tun := tb\<rparr>)) ! (unat (receiving_index sr) mod 8) = Some sr"
    "length (sessions (pm_tun (pb\<lparr>pm_tun := tb\<rparr>))) = 8"
    using rings by (simp_all add: db(2))
  ultimately obtain pb2 where "receive_all c (pb\<lparr>pm_tun := tb\<rparr>) (datagram c si 0 [] # dgs) v1 =
      Returns (map handed_on ([] # ?q), pb2, v1)"
    using receive_in_order [OF ok s(1)] by blast
  moreover have "handed_on [] = Nothing" by (simp add: handed_on_def decapsulated_header_def)
  ultimately have "receive_all c (pb\<lparr>pm_tun := tb\<rparr>) (datagram c si 0 [] # dgs) v1 =
      Returns (Nothing # map handed_on ?q, pb2, v1)" by simp
  moreover have "packet_queue (pm_tun (pa\<lparr>pm_tun := td\<rparr>)) = []" using dl(3) by simp
  ultimately show ?thesis using e db(1) da(1) dl(2) by blast
qed

definition demo_pump :: "bytes \<Rightarrow> bytes \<Rightarrow> u32 \<Rightarrow> pump" where
  "demo_pump sk peer_sk idx = \<lparr>pm_tun = demo_tunn sk peer_sk idx, pm_mtu = 1280\<rparr>"

lemma tunn_new_fields:
  assumes "tunn_new c sk peer psk k idx None w = (t, w')"
  shows "tn_handshake t = fst (handshake_new c sk (x25519_public c sk) peer (push_bit 8 idx) psk w)"
    "sessions t = replicate 8 None" "current t = 0" "packet_queue t = []"
    "\<exists>v. tn_rate_limiter t = fst (rate_limiter_new c (x25519_public c sk) PEER_HANDSHAKE_RATE_LIMIT v)"
proof -
  obtain h w1 where h: "handshake_new c sk (x25519_public c sk) peer (push_bit 8 idx) psk w = (h, w1)" by fastforce
  obtain tm w2 where tm: "timers_new k (None = (None :: rate_limiter option)) w1 = (tm, w2)" by fastforce
  obtain rl w3 where rl: "rate_limiter_new c (x25519_public c sk) PEER_HANDSHAKE_RATE_LIMIT w2 = (rl, w3)" by fastforce
  have t: "t = \<lparr>tn_handshake = h, sessions = replicate N_SESSIONS None, current = 0, packet_queue = [],
      tn_timers = tm, tx_bytes = 0, rx_bytes = 0, tn_rate_limiter = rl\<rparr>"
    using assms unfolding tunn_new_def Let_def option.case h prod.case tm rl by simp
  show "tn_handshake t = fst (handshake_new c sk (x25519_public c sk) peer (push_bit 8 idx) psk w)"
    "sessions t = replicate 8 None" "current t = 0" "packet_queue t = []"
    by (simp_all add: t h N_SESSIONS_def)
  show "\<exists>v. tn_rate_limiter t = fst (rate_limiter_new c (x25519_public c sk) PEER_HANDSHAKE_RATE_LIMIT v)"
    using rl by (intro exI [of _ w2]) (simp add: t)
qed

lemma limiter_new_fields:
  "mac1_key (fst (rate_limiter_new c pk lim w)) = b2s_hash c LABEL_MAC1 pk"
  "rl_count (fst (rate_limiter_new c pk lim w)) = 0" "rl_limit (fst (rate_limiter_new c pk lim w)) = lim"
  by (simp_all add: rate_limiter_new_def Let_def case_prod_beta)

lemma demo_tunn_fields:
  "tn_handshake (demo_tunn a b i) = demo_end a b (push_bit 8 i)" "sessions (demo_tunn a b i) = replicate 8 None"
  "current (demo_tunn a b i) = 0" "packet_queue (demo_tunn a b i) = []"
  "mac1_key (tn_rate_limiter (demo_tunn a b i)) = b2s_hash demo_crypto LABEL_MAC1 (x25519_public demo_crypto a)"
  "rl_count (tn_rate_limiter (demo_tunn a b i)) < rl_limit (tn_rate_limiter (demo_tunn a b i))"
proof -
  obtain t w' where t: "tunn_new demo_crypto a (x25519_public demo_crypto b) None (Some 5) i None demo_world = (t, w')"
    by fastforce
  have d: "demo_tunn a b i = t" by (simp add: demo_tunn_def t)
  obtain v where v: "tn_rate_limiter t = fst (rate_limiter_new demo_crypto (x25519_public demo_crypto a) PEER_HANDSHAKE_RATE_LIMIT v)"
    using tunn_new_fields(5) [OF t] by blast
  show "tn_handshake (demo_tunn a b i) = demo_end a b (push_bit 8 i)" "sessions (demo_tunn a b i) = replicate 8 None"
    "current (demo_tunn a b i) = 0" "packet_queue (demo_tunn a b i) = []"
    using tunn_new_fields [OF t] by (simp_all add: d demo_end_def)
  show "mac1_key (tn_rate_limiter (demo_tunn a b i)) = b2s_hash demo_crypto LABEL_MAC1 (x25519_public demo_crypto a)"
    "rl_count (tn_rate_limiter (demo_tunn a b i)) < rl_limit (tn_rate_limiter (demo_tunn a b i))"
    by (simp_all add: d v limiter_new_fields PEER_HANDSHAKE_RATE_LIMIT_def)
qed

text \<open>The world after the pump was created.\<close>

definition demo_after :: "bytes \<Rightarrow> bytes \<Rightarrow> u32 \<Rightarrow> world" where
  "demo_after a b i = snd (tunn_new demo_crypto a (x25519_public demo_crypto b) None (Some 5) i None demo_world)"

lemma demo_pump_ok: "pump_ok (drop_bit 8 (push_bit 8 i)) (demo_pump a b i) (demo_after a b i)"
  using tunn_ok_new [OF clock_demo prod.collapse [symmetric]]
  by (simp only: pump_ok_def demo_pump_def demo_tunn_def demo_after_def pump.simps)

lemma demo_after_now: "w_instants (demo_after a b i) 0 = \<lparr>tv_sec = 104, tv_nsec = 0\<rparr>"
  by (simp add: demo_after_def tunn_new_def handshake_new_def stamper_new_def timers_new_def rate_limiter_new_def
      fill_bytes_def instant_now_def system_now_def demo_world_def Let_def case_prod_beta)

lemma demo_ends: "ends demo_crypto (demo_tunn a b i) (demo_tunn b a j)"
proof -
  have "sending_mac1_key (params (demo_end a b k)) = b2s_hash demo_crypto LABEL_MAC1 (x25519_public demo_crypto b)" for a b k
    by (simp add: demo_end_def handshake_new_def noise_params_new_def case_prod_beta Let_def)
  then show ?thesis using demo_paired by (simp add: ends_def demo_tunn_fields)
qed

text \<open>A tunnel created in \<open>demo_world\<close> stamps its initiations later than the zero timestamp of a new peer.\<close>

lemma demo_end_fresh:
  assumes "duration_since (w_instants w 0) \<lparr>tv_sec = 100, tv_nsec = 0\<rparr> < from_secs 1000"
  shows "after (initiation_stamp (demo_end a b i) w) (last_handshake_timestamp (demo_end b a j))"
proof -
  have st: "last_handshake_timestamp (demo_end b a j) = tai64n_zero"
    "duration_at_start (stamper (demo_end a b i)) = from_secs 1700000000"
    "instant_at_start (stamper (demo_end a b i)) = \<lparr>tv_sec = 100, tv_nsec = 0\<rparr>"
    by (simp_all add: demo_end_def handshake_new_def stamper_new_def demo_world_def instant_now_def system_now_def Let_def)
  define d where "d = stamp_duration (stamper (demo_end a b i)) (snd (fill_bytes 32 w))"
  have "w_instants (snd (fill_bytes 32 w)) 0 = w_instants w 0" by (simp add: fill_bytes_def)
  then have "from_secs 1700000000 \<le> d" "d < from_secs 1700001000"
    using assms by (simp_all add: d_def stamp_duration_def st from_secs_def)
  then have "as_secs d < 2 ^ 62" by (simp add: as_secs_def from_secs_def less_mult_imp_div_less)
  then have "unat (of_nat (as_secs d) + TAI64_BASE) = as_secs d + 2 ^ 62 + 37" by (rule unat_tai_secs)
  then show ?thesis
    by (simp add: initiation_stamp_def parsed_stamp after_def tai64n_zero_def word_less_nat_alt st d_def [symmetric])
qed

theorem queued_packets_delivered_witness:
  "\<exists>init pa1 w1 resp pb1 v1 ka pa2 w2 dgs pa3 w3 pb2.
     pump_encapsulate demo_crypto (demo_pump (replicate 32 3) (replicate 32 5) 7) ([0x45, 0, 0, 20] @ replicate 17 0)
       (demo_after (replicate 32 3) (replicate 32 5) 7) = Returns (Some init, pa1, w1) \<and>
     pump_decapsulate demo_crypto (demo_pump (replicate 32 5) (replicate 32 3) 9) init
       (demo_after (replicate 32 5) (replicate 32 3) 9) = Returns (Network resp, pb1, v1) \<and>
     pump_decapsulate demo_crypto pa1 resp w1 = Returns (Network ka, pa2, w2) \<and>
     drain_loop demo_crypto pa2 w2 [] = Some (Returns (map Network dgs, pa3, w3)) \<and>
     receive_all demo_crypto pb1 (ka # dgs) v1 = Returns ([Nothing, Packet ([0x45, 0, 0, 20] @ replicate 16 0)], pb2, v1)"
proof -
  let ?pkt = "[0x45, 0, 0, 20] @ replicate 17 0 :: bytes"
  have "handed_on ?pkt = Packet ([0x45, 0, 0, 20] @ replicate 16 0)"
    by code_simp
  moreover have "\<not> is_in_progress (demo_end a b i)" "\<not> is_expired (demo_end a b i)" for a b i
    by (simp_all add: demo_end_def handshake_new_def is_in_progress_def is_expired_def case_prod_beta Let_def)
  moreover have "duration_since \<lparr>tv_sec = 104, tv_nsec = 0\<rparr> \<lparr>tv_sec = 100, tv_nsec = 0\<rparr> < from_secs 1000"
    by (simp add: duration_since_def checked_duration_since_def duration_new_def NANOSECOND_def from_secs_def)
  ultimately show ?thesis
    using queued_packets_delivered [OF demo_crypto_ok _ _ demo_pump_ok [of 7 "replicate 32 3" "replicate 32 5"]
        demo_pump_ok [of 9 "replicate 32 5" "replicate 32 3"], of ?pkt]
      demo_ends [of "replicate 32 3" "replicate 32 5" 7 9] demo_after_now [of "replicate 32 3" "replicate 32 5" 7]
      demo_end_fresh [of "demo_after (replicate 32 3) (replicate 32 5) 7"]
    by (simp add: demo_pump_def demo_tunn_fields) blast
qed

end
