(* ===== verification/Config.thy ===== *)
theory Config
  imports Rust_Strings Clock
begin

text \<open>
  The configuration of \<open>newt/src/config.rs\<close>: environment variables, then command-line flags, into
  the site role, the client role or both, and the log levels of \<open>log.rs\<close>. The build target enters only through
  the default access mode, a parameter (\<open>linux\<close>). A \<open>usize\<close> has 64 bits.
\<close>

section \<open>Data\<close>

datatype access_mode = Kernel | Userspace

record forward =
  fw_listen_port :: u16
  fw_dest_host :: string
  fw_dest_port :: u16

record site_run =
  sr_endpoint :: string
  sr_id :: string
  sr_secret :: string
  sr_mtu :: nat
  sr_skip_tls_verify :: bool
  sr_udp_idle_timeout :: duration

record client_run =
  cr_endpoint :: string
  cr_id :: string
  cr_secret :: string
  cr_user_token :: string
  cr_org_id :: string
  cr_mtu :: nat
  cr_skip_tls_verify :: bool
  cr_access :: access_mode
  cr_interface :: string
  cr_forwards :: "forward list"
  cr_socks_port :: "u16 option"

record config =
  cf_log_level :: string
  cf_site :: "site_run option"
  cf_client :: "client_run option"

record raw =
  rw_endpoint :: string
  rw_mtu :: nat
  rw_log_level :: string
  rw_skip_tls_verify :: bool
  rw_udp_idle_timeout :: duration
  rw_newt_id :: string
  rw_newt_secret :: string
  rw_olm_id :: string
  rw_olm_secret :: string
  rw_user_token :: string
  rw_org_id :: string
  rw_access :: access_mode
  rw_interface :: string
  rw_forwards :: "forward list"
  rw_socks_port :: "u16 option"

definition default_access :: "bool \<Rightarrow> access_mode" where
  "default_access linux = (if linux then Kernel else Userspace)"

definition raw_default :: "bool \<Rightarrow> raw" where
  "raw_default linux = \<lparr>rw_endpoint = [], rw_mtu = 1280, rw_log_level = ''INFO'', rw_skip_tls_verify = False,
     rw_udp_idle_timeout = from_secs 90, rw_newt_id = [], rw_newt_secret = [], rw_olm_id = [], rw_olm_secret = [],
     rw_user_token = [], rw_org_id = [], rw_access = default_access linux, rw_interface = ''olm'',
     rw_forwards = [], rw_socks_port = None\<rparr>"

section \<open>Values\<close>

definition to_ascii_lowercase :: "string \<Rightarrow> string" where
  "to_ascii_lowercase s = map ascii_lower s"

definition parse_secs :: "string \<Rightarrow> string + duration" where
  "parse_secs v =
     (case parse_u64 (trim_end_matches (CHR ''s'') v) of
        Some n \<Rightarrow> Inr (from_secs (unat n))
      | None \<Rightarrow> Inl ''bad duration'')"

definition truthy :: "string \<Rightarrow> bool" where
  "truthy v = (to_ascii_lowercase v \<in> {''1'', ''true'', ''yes''})"

definition parse_access :: "string \<Rightarrow> string + access_mode" where
  "parse_access v =
     (let l = to_ascii_lowercase v in
      if l = ''kernel'' \<or> l = ''tun'' then Inr Kernel
      else if l = ''userspace'' \<or> l = ''user'' \<or> l = ''socks'' then Inr Userspace
      else Inl (''bad access mode: '' @ v @ '' (kernel|userspace)''))"

definition parse_forward :: "string \<Rightarrow> string + forward" where
  "parse_forward spec =
     (case split_once (CHR '':'') spec of
        None \<Rightarrow> Inl (''bad forward: '' @ spec)
      | Some (listen, rest) \<Rightarrow>
          (case rsplit_once (CHR '':'') rest of
             None \<Rightarrow> Inl (''bad forward: '' @ spec)
           | Some (h, port) \<Rightarrow>
               (case parse_u16 listen of
                  None \<Rightarrow> Inl (''bad listen port: '' @ spec)
                | Some lp \<Rightarrow>
                    (case parse_u16 port of
                       None \<Rightarrow> Inl (''bad dest port: '' @ spec)
                     | Some dp \<Rightarrow> Inr \<lparr>fw_listen_port = lp, fw_dest_host = h, fw_dest_port = dp\<rparr>))))"

text \<open>The loop over the specifications stops at the first error.\<close>

fun collect :: "('a \<Rightarrow> 'e + 'b) \<Rightarrow> 'a list \<Rightarrow> 'e + 'b list" where
  "collect f [] = Inr []"
| "collect f (x # xs) =
     (case f x of
        Inl e \<Rightarrow> Inl e
      | Inr y \<Rightarrow> (case collect f xs of Inl e \<Rightarrow> Inl e | Inr ys \<Rightarrow> Inr (y # ys)))"

definition parse_forwards :: "string \<Rightarrow> string + forward list" where
  "parse_forwards v = collect parse_forward (filter (\<lambda>s. s \<noteq> []) (map trim (split_char (CHR '','') v)))"

section \<open>Sources\<close>

text \<open>A variable that is set updates the accumulator, possibly with an error.\<close>

definition from_env ::
  "(string \<Rightarrow> string option) \<Rightarrow> string \<Rightarrow> (string \<Rightarrow> raw \<Rightarrow> string + raw) \<Rightarrow> string + raw \<Rightarrow> string + raw" where
  "from_env env name f acc =
     (case acc of
        Inl e \<Rightarrow> Inl e
      | Inr r \<Rightarrow> (case env name of None \<Rightarrow> Inr r | Some v \<Rightarrow> f v r))"

definition parse_usize :: "string \<Rightarrow> nat option" where
  "parse_usize s = parse_unsigned (2 ^ 64 - 1) s"

definition set_mtu :: "string \<Rightarrow> string \<Rightarrow> raw \<Rightarrow> string + raw" where
  "set_mtu err v r = (case parse_usize v of None \<Rightarrow> Inl err | Some n \<Rightarrow> Inr (r\<lparr>rw_mtu := n\<rparr>))"

definition set_access :: "string \<Rightarrow> raw \<Rightarrow> string + raw" where
  "set_access v r = (case parse_access v of Inl e \<Rightarrow> Inl e | Inr a \<Rightarrow> Inr (r\<lparr>rw_access := a\<rparr>))"

definition set_forwards :: "string \<Rightarrow> raw \<Rightarrow> string + raw" where
  "set_forwards v r = (case parse_forwards v of Inl e \<Rightarrow> Inl e | Inr f \<Rightarrow> Inr (r\<lparr>rw_forwards := f\<rparr>))"

definition set_socks_port :: "string \<Rightarrow> string \<Rightarrow> raw \<Rightarrow> string + raw" where
  "set_socks_port err v r = (case parse_u16 v of None \<Rightarrow> Inl err | Some p \<Rightarrow> Inr (r\<lparr>rw_socks_port := Some p\<rparr>))"

definition set_timeout :: "string \<Rightarrow> raw \<Rightarrow> string + raw" where
  "set_timeout v r = (case parse_secs v of Inl e \<Rightarrow> Inl e | Inr d \<Rightarrow> Inr (r\<lparr>rw_udp_idle_timeout := d\<rparr>))"

definition org_env :: "(string \<Rightarrow> string option) \<Rightarrow> string option" where
  "org_env env = (case env ''PANGOLIN_ORG_ID'' of Some v \<Rightarrow> Some v | None \<Rightarrow> env ''ORG_ID'')"

definition apply_env :: "(string \<Rightarrow> string option) \<Rightarrow> raw \<Rightarrow> string + raw" where
  "apply_env env r0 =
     (let r = from_env env ''PANGOLIN_ENDPOINT'' (\<lambda>v r. Inr (r\<lparr>rw_endpoint := v\<rparr>)) (Inr r0);
          r = from_env env ''MTU'' (set_mtu ''bad MTU'') r;
          r = from_env env ''LOG_LEVEL'' (\<lambda>v r. Inr (r\<lparr>rw_log_level := v\<rparr>)) r;
          r = from_env env ''SKIP_TLS_VERIFY'' (\<lambda>v r. Inr (r\<lparr>rw_skip_tls_verify := truthy v\<rparr>)) r;
          r = from_env env ''NEWT_UDP_PROXY_IDLE_TIMEOUT'' set_timeout r;
          r = from_env env ''NEWT_ID'' (\<lambda>v r. Inr (r\<lparr>rw_newt_id := v\<rparr>)) r;
          r = from_env env ''NEWT_SECRET'' (\<lambda>v r. Inr (r\<lparr>rw_newt_secret := v\<rparr>)) r;
          r = from_env env ''OLM_ID'' (\<lambda>v r. Inr (r\<lparr>rw_olm_id := v\<rparr>)) r;
          r = from_env env ''OLM_SECRET'' (\<lambda>v r. Inr (r\<lparr>rw_olm_secret := v\<rparr>)) r;
          r = from_env env ''OLM_USER_TOKEN'' (\<lambda>v r. Inr (r\<lparr>rw_user_token := v\<rparr>)) r;
          r = from_env (\<lambda>_. org_env env) ''PANGOLIN_ORG_ID'' (\<lambda>v r. Inr (r\<lparr>rw_org_id := v\<rparr>)) r;
          r = from_env env ''OLM_ACCESS_MODE'' set_access r;
          r = from_env env ''OLM_INTERFACE'' (\<lambda>v r. Inr (r\<lparr>rw_interface := v\<rparr>)) r;
          r = from_env env ''OLM_FORWARDS'' set_forwards r
      in from_env env ''OLM_SOCKS_PORT'' (set_socks_port ''bad OLM_SOCKS_PORT'') r)"

text \<open>The flags that take a value, by what they set.\<close>

definition is_flag :: "string \<Rightarrow> string \<Rightarrow> bool" where
  "is_flag name a \<longleftrightarrow> a = CHR ''-'' # name \<or> a = ''--'' @ name"

definition set_flag :: "string \<Rightarrow> (string \<Rightarrow> raw \<Rightarrow> string + raw) option" where
  "set_flag a =
     (if is_flag ''endpoint'' a then Some (\<lambda>v r. Inr (r\<lparr>rw_endpoint := v\<rparr>))
      else if is_flag ''id'' a then Some (\<lambda>v r. Inr (r\<lparr>rw_newt_id := v\<rparr>))
      else if is_flag ''secret'' a then Some (\<lambda>v r. Inr (r\<lparr>rw_newt_secret := v\<rparr>))
      else if is_flag ''mtu'' a then Some (set_mtu ''bad --mtu'')
      else if is_flag ''log-level'' a then Some (\<lambda>v r. Inr (r\<lparr>rw_log_level := v\<rparr>))
      else if is_flag ''olm-id'' a then Some (\<lambda>v r. Inr (r\<lparr>rw_olm_id := v\<rparr>))
      else if is_flag ''olm-secret'' a then Some (\<lambda>v r. Inr (r\<lparr>rw_olm_secret := v\<rparr>))
      else if is_flag ''olm-user-token'' a then Some (\<lambda>v r. Inr (r\<lparr>rw_user_token := v\<rparr>))
      else if is_flag ''org-id'' a then Some (\<lambda>v r. Inr (r\<lparr>rw_org_id := v\<rparr>))
      else if is_flag ''olm-access'' a then Some set_access
      else if is_flag ''olm-interface'' a then Some (\<lambda>v r. Inr (r\<lparr>rw_interface := v\<rparr>))
      else if is_flag ''olm-forwards'' a then Some set_forwards
      else if is_flag ''olm-socks-port'' a then Some (set_socks_port ''bad --olm-socks-port'')
      else None)"

fun apply_args :: "string list \<Rightarrow> raw \<Rightarrow> string + raw" where
  "apply_args [] r = Inr r"
| "apply_args (a # it) r =
     (if is_flag ''skip-tls-verify'' a then apply_args it (r\<lparr>rw_skip_tls_verify := True\<rparr>)
      else case set_flag a of
             None \<Rightarrow> Inl (''unknown flag: '' @ a)
           | Some f \<Rightarrow>
               (case it of
                  [] \<Rightarrow> Inl (''missing value for '' @ a)
                | v # it' \<Rightarrow> (case f v r of Inl e \<Rightarrow> Inl e | Inr r' \<Rightarrow> apply_args it' r')))"

definition raw_from :: "bool \<Rightarrow> (string \<Rightarrow> string option) \<Rightarrow> string list \<Rightarrow> string + raw" where
  "raw_from linux env args =
     (case apply_env env (raw_default linux) of Inl e \<Rightarrow> Inl e | Inr r \<Rightarrow> apply_args args r)"

section \<open>Roles\<close>

definition site_of :: "raw \<Rightarrow> site_run option" where
  "site_of r =
     (if rw_newt_id r \<noteq> [] \<and> rw_newt_secret r \<noteq> [] then
        Some \<lparr>sr_endpoint = rw_endpoint r, sr_id = rw_newt_id r, sr_secret = rw_newt_secret r, sr_mtu = rw_mtu r,
              sr_skip_tls_verify = rw_skip_tls_verify r, sr_udp_idle_timeout = rw_udp_idle_timeout r\<rparr>
      else None)"

definition client_of :: "raw \<Rightarrow> client_run option" where
  "client_of r =
     (if rw_olm_id r \<noteq> [] \<and> rw_olm_secret r \<noteq> [] then
        Some \<lparr>cr_endpoint = rw_endpoint r, cr_id = rw_olm_id r, cr_secret = rw_olm_secret r,
              cr_user_token = rw_user_token r, cr_org_id = rw_org_id r, cr_mtu = rw_mtu r,
              cr_skip_tls_verify = rw_skip_tls_verify r, cr_access = rw_access r, cr_interface = rw_interface r,
              cr_forwards = rw_forwards r, cr_socks_port = rw_socks_port r\<rparr>
      else None)"

definition from_sources :: "bool \<Rightarrow> (string \<Rightarrow> string option) \<Rightarrow> string list \<Rightarrow> string + config" where
  "from_sources linux env args =
     (case raw_from linux env args of
        Inl e \<Rightarrow> Inl e
      | Inr r \<Rightarrow>
          if rw_endpoint r = [] then Inl ''PANGOLIN_ENDPOINT (or --endpoint) is required''
          else if site_of r = None \<and> client_of r = None then
            Inl ''no role configured: set NEWT_ID/NEWT_SECRET (site) and/or OLM_ID/OLM_SECRET (client)''
          else Inr \<lparr>cf_log_level = rw_log_level r, cf_site = site_of r, cf_client = client_of r\<rparr>)"

section \<open>Log levels\<close>

definition set_level :: "string \<Rightarrow> u8" where
  "set_level name =
     (let u = map ascii_upper name in
      if u = ''DEBUG'' then 1 else if u = ''INFO'' then 2 else if u = ''WARN'' then 3 else if u = ''ERROR'' then 4 else 2)"

definition enabled :: "u8 \<Rightarrow> u8 \<Rightarrow> bool" where
  "enabled level l = (level \<le> l)"

section \<open>Lemmas\<close>

lemma apply_args_append:
  "apply_args xs r = Inr r' \<Longrightarrow> apply_args (xs @ ys) r = apply_args ys r'"
  by (induction xs r arbitrary: r' rule: apply_args.induct) (auto split: if_splits option.splits list.splits sum.splits)

lemma flag_not_skip: "set_flag f \<noteq> None \<Longrightarrow> \<not> is_flag ''skip-tls-verify'' f"
  by (auto simp: set_flag_def is_flag_def)

lemma raw_from_append_flag:
  assumes "raw_from linux env args = Inr r" "set_flag f = Some g"
  shows "raw_from linux env (args @ [f, v]) = g v r"
proof -
  obtain r0 where "apply_env env (raw_default linux) = Inr r0" "apply_args args r0 = Inr r"
    using assms(1) by (auto simp: raw_from_def split: sum.splits)
  then show ?thesis
    using apply_args_append [of args r0 r "[f, v]"] assms(2) flag_not_skip [of f] by (auto simp: raw_from_def split: sum.splits)
qed

section \<open>Properties\<close>

text \<open>
  C27: Flags override the environment and earlier flags: appending a flag and its value to a
  command line that was read sets exactly what that flag names, whatever the environment and the
  earlier flags gave it (the endpoint, credentials, MTU or any other setting), and the
  configuration is then the one of the accumulator so updated: rejected without an endpoint
  or without a complete role, with each role present exactly when its id and secret are.
\<close>

theorem last_flag_wins:
  assumes "raw_from linux env args = Inr r" "set_flag f = Some g" "g v r = Inr r'"
  shows "from_sources linux env (args @ [f, v]) =
     (if rw_endpoint r' = [] then Inl ''PANGOLIN_ENDPOINT (or --endpoint) is required''
      else if (rw_newt_id r' = [] \<or> rw_newt_secret r' = []) \<and> (rw_olm_id r' = [] \<or> rw_olm_secret r' = [])
      then Inl ''no role configured: set NEWT_ID/NEWT_SECRET (site) and/or OLM_ID/OLM_SECRET (client)''
      else Inr \<lparr>cf_log_level = rw_log_level r', cf_site = site_of r', cf_client = client_of r'\<rparr>)
    \<and> (f = ''--endpoint'' \<longrightarrow> r' = r\<lparr>rw_endpoint := v\<rparr>)
    \<and> (f = ''--id'' \<longrightarrow> r' = r\<lparr>rw_newt_id := v\<rparr>)
    \<and> (f = ''--secret'' \<longrightarrow> r' = r\<lparr>rw_newt_secret := v\<rparr>)
    \<and> (f = ''--mtu'' \<longrightarrow> (\<exists>n. parse_usize v = Some n \<and> r' = r\<lparr>rw_mtu := n\<rparr>))
    \<and> (f = ''--olm-id'' \<longrightarrow> r' = r\<lparr>rw_olm_id := v\<rparr>)
    \<and> (f = ''--olm-secret'' \<longrightarrow> r' = r\<lparr>rw_olm_secret := v\<rparr>)"
proof -
  have "raw_from linux env (args @ [f, v]) = Inr r'" using raw_from_append_flag [OF assms(1, 2)] assms(3) by simp
  then show ?thesis
    using assms(2, 3)
    by (auto simp: from_sources_def site_of_def client_of_def set_flag_def is_flag_def set_mtu_def split: option.splits)
qed

definition demo_env :: "string \<Rightarrow> string option" where
  "demo_env = [''PANGOLIN_ENDPOINT'' \<mapsto> ''https://old'', ''MTU'' \<mapsto> ''1400'', ''NEWT_ID'' \<mapsto> ''i'', ''NEWT_SECRET'' \<mapsto> ''s'']"

theorem last_flag_wins_witness:
  "\<exists>cfg site. from_sources True demo_env [''--endpoint'', ''https://a'', ''--mtu'', ''1280''] = Inr cfg
     \<and> cf_site cfg = Some site \<and> sr_endpoint site = ''https://a'' \<and> sr_mtu site = 1280 \<and> cf_client cfg = None"
proof -
  have "\<exists>r. raw_from True demo_env [''--endpoint'', ''https://a''] = Inr r
    \<and> rw_endpoint r = ''https://a'' \<and> rw_newt_id r = ''i'' \<and> rw_newt_secret r = ''s'' \<and> rw_olm_id r = []"
    by (simp add: raw_from_def apply_env_def from_env_def demo_env_def set_mtu_def parse_usize_def digit_val_def
        raw_default_def org_env_def set_flag_def is_flag_def)
  then obtain r where r: "raw_from True demo_env [''--endpoint'', ''https://a''] = Inr r"
    "rw_endpoint r = ''https://a''" "rw_newt_id r = ''i''" "rw_newt_secret r = ''s''" "rw_olm_id r = []" by blast
  have f: "set_flag ''--mtu'' = Some (set_mtu ''bad --mtu'')" by (simp add: set_flag_def is_flag_def)
  have g: "set_mtu ''bad --mtu'' ''1280'' r = Inr (r\<lparr>rw_mtu := 1280\<rparr>)"
    by (simp add: set_mtu_def parse_usize_def digit_val_def)
  show ?thesis using last_flag_wins [OF r(1) f g] r by (simp add: site_of_def client_of_def)
qed

end
