(* ===== verification/Key_Bytes.thy ===== *)
theory Key_Bytes
  imports Rust_Strings
begin

text \<open>
  The textual keys of \<open>boringtun/src/serialization.rs\<close>: 64 hexadecimal digits, or base64, whose decoder is a
  parameter. The lemmas show that hexadecimal text is read back, and that 43 or 44
  characters the decoder rejects are taken for the key of zeros.
\<close>

definition hex_val :: "char \<Rightarrow> nat option" where
  "hex_val c =
     (let n = of_char c :: nat in
      if 48 \<le> n \<and> n \<le> 57 then Some (n - 48)
      else if 97 \<le> n \<and> n \<le> 102 then Some (n - 87)
      else if 65 \<le> n \<and> n \<le> 70 then Some (n - 55)
      else None)"

text \<open>\<open>u8::from_str_radix(s, 16)\<close>, which takes a leading plus sign.\<close>

fun hex_digits :: "nat \<Rightarrow> string \<Rightarrow> nat option" where
  "hex_digits acc [] = Some acc"
| "hex_digits acc (c # cs) =
     (case hex_val c of
        None \<Rightarrow> None
      | Some d \<Rightarrow> if 16 * acc + d < 256 then hex_digits (16 * acc + d) cs else None)"

definition u8_from_hex :: "string \<Rightarrow> u8 option" where
  "u8_from_hex s =
     map_option of_nat
       (case s of
          [] \<Rightarrow> None
        | [c] \<Rightarrow> if c = CHR ''+'' then None else hex_digits 0 [c]
        | c # cs \<Rightarrow> if c = CHR ''+'' then hex_digits 0 cs else hex_digits 0 s)"

text \<open>A slice of a \<open>str\<close> panics unless it begins and ends where a character does.\<close>

definition is_char_boundary :: "string \<Rightarrow> nat \<Rightarrow> bool" where
  "is_char_boundary s i \<longleftrightarrow> i = 0 \<or> i = length s \<or> (i < length s \<and> \<not> (128 \<le> (of_char (s ! i) :: nat) \<and> (of_char (s ! i) :: nat) < 192))"

definition str_slice :: "nat \<Rightarrow> nat \<Rightarrow> string \<Rightarrow> string outcome" where
  "str_slice i j s = (if i \<le> j \<and> is_char_boundary s i \<and> is_char_boundary s j then Returns (slice i j s) else Panics)"

text \<open>The loop over the pairs of digits from the \<open>i\<close>-th on, \<open>n\<close> of them.\<close>

fun hex_pairs :: "nat \<Rightarrow> nat \<Rightarrow> string \<Rightarrow> (string + bytes) outcome" where
  "hex_pairs i 0 s = Returns (Inr [])"
| "hex_pairs i (Suc n) s =
     obind (str_slice (i * 2) (i * 2 + 2) s) (\<lambda>p.
       case u8_from_hex p of
         None \<Rightarrow> Returns (Inl ''Illegal character in key'')
       | Some b \<Rightarrow> obind (hex_pairs (Suc i) n s) (\<lambda>r. Returns (case r of Inl e \<Rightarrow> Inl e | Inr bs \<Rightarrow> Inr (b # bs))))"

definition key_from_str :: "(string \<Rightarrow> bytes option) \<Rightarrow> string \<Rightarrow> (string + bytes) outcome" where
  "key_from_str b64_decode s =
     (if length s = 64 then hex_pairs 0 32 s
      else if length s = 43 \<or> length s = 44 then
        (case b64_decode s of
           Some key \<Rightarrow> if length key = 32 then Returns (Inr key) else Returns (Inl ''Illegal character in key'')
         | None \<Rightarrow> Returns (Inr (replicate 32 0)))
      else Returns (Inl ''Illegal key size''))"

section \<open>Lemmas\<close>

definition hex_char :: "nat \<Rightarrow> char" where
  "hex_char n = char_of (if n < 10 then n + 48 else n + 87)"

definition hex_byte :: "u8 \<Rightarrow> string" where
  "hex_byte b = [hex_char (unat b div 16), hex_char (unat b mod 16)]"

lemma hex_val_char: "n < 16 \<Longrightarrow> hex_val (hex_char n) = Some n" "n < 16 \<Longrightarrow> of_char (hex_char n) < (128 :: nat)"
  "n < 16 \<Longrightarrow> hex_char n \<noteq> CHR ''+''"
proof -
  assume n: "n < 16"
  then have c: "of_char (hex_char n) = (if n < 10 then n + 48 else n + 87)" by (simp add: hex_char_def)
  show "hex_val (hex_char n) = Some n" using n by (auto simp: hex_val_def c Let_def)
  show "of_char (hex_char n) < (128 :: nat)" using n by (simp add: c)
  have "of_char (hex_char n) \<noteq> (of_char (CHR ''+'') :: nat)" using n by (simp add: c)
  then show "hex_char n \<noteq> CHR ''+''" by auto
qed

lemma unat_byte: "unat (b :: u8) < 256"
  using unsigned_less [of b] by simp

lemma u8_from_hex_byte: "u8_from_hex (hex_byte b) = Some b"
proof -
  have "unat b < 256" by (rule unat_byte)
  then have "unat b div 16 < 16" "16 * (unat b div 16) + unat b mod 16 = unat b" by auto
  then show ?thesis using hex_val_char \<open>unat b < 256\<close> by (simp add: u8_from_hex_def hex_byte_def)
qed

lemma hex_text_slice:
  assumes "i < length bs"
  shows "str_slice (i * 2) (i * 2 + 2) (concat (map hex_byte bs)) = Returns (hex_byte (bs ! i))"
proof -
  let ?s = "concat (map hex_byte bs)"
  have len: "length (concat (map hex_byte cs)) = 2 * length cs" for cs by (induction cs) (simp_all add: hex_byte_def)
  have "\<forall>c \<in> set ?s. of_char c < (128 :: nat)" 
    using hex_val_char(2) unat_byte by (auto simp: hex_byte_def less_mult_imp_div_less)
  then have "is_char_boundary ?s j" if "j \<le> length ?s" for j
    using that nth_mem [of j ?s] by (fastforce simp: is_char_boundary_def)
  moreover have "?s = concat (map hex_byte (take i bs)) @ hex_byte (bs ! i) @ concat (map hex_byte (drop (Suc i) bs))"
    using id_take_nth_drop [OF assms] by (metis concat_append concat.simps(2) list.simps(9) map_append)
  then have "slice (i * 2) (i * 2 + 2) ?s = hex_byte (bs ! i)"
    using assms len [of "take i bs"] by (simp add: slice_def mult.commute hex_byte_def)
  ultimately show ?thesis using assms len [of bs] by (simp add: str_slice_def)
qed

lemma key_hex_round_trip:
  assumes "length key = 32"
  shows "key_from_str dec (concat (map hex_byte key)) = Returns (Inr key)"
proof -
  have "length (concat (map hex_byte cs)) = 2 * length cs" for cs by (induction cs) (simp_all add: hex_byte_def)
  moreover have "i + n = length key \<Longrightarrow> hex_pairs i n (concat (map hex_byte key)) = Returns (Inr (drop i key))" for i n
    by (induction n arbitrary: i) (simp_all add: hex_text_slice [simplified] u8_from_hex_byte Cons_nth_drop_Suc)
  ultimately show ?thesis using assms by (simp add: key_from_str_def)
qed

lemma rejected_base64_is_zero_key:
  "length s = 43 \<or> length s = 44 \<Longrightarrow> dec s = None \<Longrightarrow> key_from_str dec s = Returns (Inr (replicate 32 0))"
  by (auto simp: key_from_str_def)

end
