(* ===== verification/Bridge.thy ===== *)
theory Bridge
  imports Packets "HOL-Library.Sublist"
begin

text \<open>
  One bridged TCP connection: the virtual device and stack of \<open>newt/src/netstack.rs\<close>, the channels
  and the bridge task of \<open>newt/src/proxy.rs\<close>, and the per-connection part of the \<open>shuttle\<close> that
  \<open>tunnel.rs\<close> and \<open>olm/userspace.rs\<close> share. smoltcp is a parameter: a record of its operations,
  with the documented behaviour the code relies on as \<open>smol_ok\<close>. The process runs on one thread
  and the shuttle does not await, so it is one atomic step between steps of the bridge
  task; the main result is that in every interleaving the bytes of both directions pass unchanged.
\<close>

section \<open>The device\<close>

record device =
  dv_rx :: "bytes list"
  dv_tx :: "bytes list"
  dv_mtu :: nat

definition device_new :: "nat \<Rightarrow> device" where
  "device_new mtu = \<lparr>dv_rx = [], dv_tx = [], dv_mtu = mtu\<rparr>"

definition device_receive :: "device \<Rightarrow> bytes option \<times> device" where
  "device_receive d = (case dv_rx d of [] \<Rightarrow> (None, d) | pkt # rest \<Rightarrow> (Some pkt, d\<lparr>dv_rx := rest\<rparr>))"

text \<open>Consuming a transmit token with a function that fills the buffer.\<close>

definition tx_consume :: "nat \<Rightarrow> (bytes \<Rightarrow> bytes) \<Rightarrow> device \<Rightarrow> device" where
  "tx_consume len f d = d\<lparr>dv_tx := dv_tx d @ [f (replicate len 0)]\<rparr>"

section \<open>smoltcp\<close>

text \<open>
  The operations of a TCP socket, of the socket set (the handle \<open>add\<close> gives) and of the interface. A failing
  \<open>listen\<close> or \<open>connect\<close> leaves the socket as it was. \<open>sk_rx\<close> and \<open>sk_tx\<close> are the contents of
  the socket's buffers, which only the laws mention.
\<close>

type_synonym 'sk sockets = "nat \<rightharpoonup> 'sk"

record ('i, 'sk) smol =
  sk_new :: "nat \<Rightarrow> nat \<Rightarrow> 'sk"
  sk_listen :: "u16 \<Rightarrow> 'sk \<Rightarrow> 'sk"
  sk_connect :: "'i \<Rightarrow> ip_addr \<Rightarrow> u16 \<Rightarrow> u16 \<Rightarrow> 'sk \<Rightarrow> 'sk option"
  sk_is_active :: "'sk \<Rightarrow> bool"
  sk_is_open :: "'sk \<Rightarrow> bool"
  sk_can_recv :: "'sk \<Rightarrow> bool"
  sk_can_send :: "'sk \<Rightarrow> bool"
  sk_recv :: "'sk \<Rightarrow> (bytes \<times> 'sk) option"
  sk_send_slice :: "bytes \<Rightarrow> 'sk \<Rightarrow> (nat \<times> 'sk) option"
  sk_close :: "'sk \<Rightarrow> 'sk"
  ss_add :: "'sk sockets \<Rightarrow> nat"
  if_new :: "(ip_addr \<times> nat) list \<Rightarrow> device \<Rightarrow> 'i"
  if_routes :: "ip_addr list \<Rightarrow> 'i \<Rightarrow> 'i"
  if_poll :: "nat \<Rightarrow> 'i \<Rightarrow> device \<Rightarrow> 'sk sockets \<Rightarrow> 'i \<times> device \<times> 'sk sockets"
  sk_rx :: "'sk \<Rightarrow> bytes"
  sk_tx :: "'sk \<Rightarrow> bytes"

definition smol_ok :: "('i, 'sk) smol \<Rightarrow> bool" where
  "smol_ok m \<longleftrightarrow>
     (\<forall>S. finite (dom S) \<longrightarrow> ss_add m S \<notin> dom S) \<and>
     (\<forall>t i d S i' d' S'. if_poll m t i d S = (i', d', S') \<longrightarrow>
        dom S' = dom S \<and> dv_mtu d' = dv_mtu d \<and> (\<exists>out. dv_tx d' = dv_tx d @ out \<and> (\<forall>p \<in> set out. length p \<le> dv_mtu d))) \<and>
     (\<forall>s c s'. sk_recv m s = Some (c, s') \<longrightarrow> sk_rx m s = c @ sk_rx m s' \<and> sk_tx m s' = sk_tx m s) \<and>
     (\<forall>b s n s'. sk_send_slice m b s = Some (n, s') \<longrightarrow>
        n \<le> length b \<and> sk_tx m s' = sk_tx m s @ take n b \<and> sk_rx m s' = sk_rx m s) \<and>
     (\<forall>s. sk_rx m (sk_close m s) = sk_rx m s \<and> sk_tx m (sk_close m s) = sk_tx m s)"

lemma smol_ok_add: "smol_ok m \<Longrightarrow> finite (dom S) \<Longrightarrow> ss_add m S \<notin> dom S"
  by (simp add: smol_ok_def)

lemma smol_ok_poll:
  "smol_ok m \<Longrightarrow> if_poll m t i d S = (i', d', S') \<Longrightarrow>
     dom S' = dom S \<and> dv_mtu d' = dv_mtu d \<and> (\<exists>out. dv_tx d' = dv_tx d @ out \<and> (\<forall>p \<in> set out. length p \<le> dv_mtu d))"
  unfolding smol_ok_def by blast

lemma smol_ok_recv: "smol_ok m \<Longrightarrow> sk_recv m s = Some (c, s') \<Longrightarrow> sk_rx m s = c @ sk_rx m s' \<and> sk_tx m s' = sk_tx m s"
  unfolding smol_ok_def by blast

lemma smol_ok_send:
  "smol_ok m \<Longrightarrow> sk_send_slice m b s = Some (n, s') \<Longrightarrow>
     n \<le> length b \<and> sk_tx m s' = sk_tx m s @ take n b \<and> sk_rx m s' = sk_rx m s"
  unfolding smol_ok_def by blast

lemma smol_ok_close: "smol_ok m \<Longrightarrow> sk_rx m (sk_close m s) = sk_rx m s \<and> sk_tx m (sk_close m s) = sk_tx m s"
  unfolding smol_ok_def by blast

section \<open>The stack\<close>

record ('i, 'sk) stack =
  sk_device :: device
  sk_iface :: 'i
  sk_sockets :: "'sk sockets"

definition stack_new :: "('i, 'sk) smol \<Rightarrow> ip_addr \<Rightarrow> nat \<Rightarrow> ('i, 'sk) stack" where
  "stack_new m tunnel_ip mtu =
     (let device = device_new mtu;
          prefix = (case tunnel_ip of V4 _ \<Rightarrow> 32 | V6 _ \<Rightarrow> 128)
      in \<lparr>sk_device = device, sk_iface = if_new m [(tunnel_ip, prefix)] device, sk_sockets = Map.empty\<rparr>)"

text \<open>One poll at a time in milliseconds; the packets the device collected are taken out.\<close>

definition stack_poll :: "('i, 'sk) smol \<Rightarrow> nat \<Rightarrow> ('i, 'sk) stack \<Rightarrow> bytes list \<times> ('i, 'sk) stack" where
  "stack_poll m now st =
     (let (i, d, S) = if_poll m now (sk_iface st) (sk_device st) (sk_sockets st)
      in (dv_tx d, \<lparr>sk_device = d\<lparr>dv_tx := []\<rparr>, sk_iface = i, sk_sockets = S\<rparr>))"

definition add_default_routes :: "('i, 'sk) smol \<Rightarrow> ip_addr \<Rightarrow> ip_addr \<Rightarrow> ('i, 'sk) stack \<Rightarrow> ('i, 'sk) stack" where
  "add_default_routes m gw4 gw6 st = st\<lparr>sk_iface := if_routes m [gw4, gw6] (sk_iface st)\<rparr>"

text \<open>Getting a socket by a handle the set does not have panics.\<close>

definition stack_connect ::
  "('i, 'sk) smol \<Rightarrow> nat \<Rightarrow> ip_addr \<Rightarrow> u16 \<Rightarrow> u16 \<Rightarrow> ('i, 'sk) stack \<Rightarrow> (bool \<times> ('i, 'sk) stack) outcome" where
  "stack_connect m handle ip port local_port st =
     (case sk_sockets st handle of
        None \<Rightarrow> Panics
      | Some s \<Rightarrow>
          (case sk_connect m (sk_iface st) ip port local_port s of
             None \<Rightarrow> Returns (False, st)
           | Some s' \<Rightarrow> Returns (True, st\<lparr>sk_sockets := (sk_sockets st)(handle \<mapsto> s')\<rparr>)))"

text \<open>\<open>SocketSet::remove\<close>\<close>

definition sockets_remove :: "nat \<Rightarrow> ('i, 'sk) stack \<Rightarrow> ('i, 'sk) stack outcome" where
  "sockets_remove h st =
     (case sk_sockets st h of
        None \<Rightarrow> Panics
      | Some _ \<Rightarrow> Returns (st\<lparr>sk_sockets := (sk_sockets st)(h := None)\<rparr>))"

section \<open>Channels\<close>

text \<open>A bounded channel, with whether its sender and its receiver still exist.\<close>

record chan =
  ch_queue :: "bytes list"
  ch_sender :: bool
  ch_receiver :: bool

definition capacity :: nat where "capacity = 16"

definition chan_new :: chan where
  "chan_new = \<lparr>ch_queue = [], ch_sender = True, ch_receiver = True\<rparr>"

definition try_reserve :: "chan \<Rightarrow> bool" where
  "try_reserve ch \<longleftrightarrow> ch_receiver ch \<and> length (ch_queue ch) < capacity"

definition chan_send :: "bytes \<Rightarrow> chan \<Rightarrow> chan" where
  "chan_send b ch = ch\<lparr>ch_queue := ch_queue ch @ [b]\<rparr>"

datatype try_recv_error = Empty | TryDisconnected

definition try_recv :: "chan \<Rightarrow> (try_recv_error + bytes) \<times> chan" where
  "try_recv ch =
     (case ch_queue ch of
        b # q \<Rightarrow> (Inr b, ch\<lparr>ch_queue := q\<rparr>)
      | [] \<Rightarrow> (Inl (if ch_sender ch then Empty else TryDisconnected), ch))"

record conn =
  to_target :: chan
  from_target :: chan

text \<open>What \<open>spawn_tcp\<close> and \<open>bridge_stream\<close> return to the loop.\<close>

definition conn_new :: conn where
  "conn_new = \<lparr>to_target = chan_new, from_target = chan_new\<rparr>"

record bridge =
  b_conn :: conn
  b_pending :: bytes
  b_target_done :: bool

definition bridge_new :: "conn \<Rightarrow> bridge" where
  "bridge_new c = \<lparr>b_conn = c, b_pending = [], b_target_done = False\<rparr>"

section \<open>The shuttle of one connection\<close>

text \<open>smoltcp to target: the channel has room for at most 16 chunks, so the loop ends.\<close>

function pull :: "('i, 'sk) smol \<Rightarrow> 'sk \<Rightarrow> chan \<Rightarrow> 'sk \<times> chan" where
  "pull m s ch =
     (if \<not> try_reserve ch then (s, ch)
      else if \<not> sk_can_recv m s then (s, ch)
      else case sk_recv m s of
             None \<Rightarrow> (s, ch)
           | Some (chunk, s') \<Rightarrow> if chunk = [] then (s', ch) else pull m s' (chan_send chunk ch))"
  by pat_completeness auto

termination
  by (relation "measure (\<lambda>(_, _, ch). capacity - length (ch_queue ch))") (auto simp: try_reserve_def chan_send_def)

declare pull.simps [simp del]

text \<open>Target to smoltcp: the next chunk once nothing is pending, and the flush of what is.\<close>

definition fetch :: "bridge \<Rightarrow> bridge" where
  "fetch b =
     (if b_pending b = [] then
        (case try_recv (from_target (b_conn b)) of
           (Inr d, ch) \<Rightarrow> b\<lparr>b_pending := d, b_conn := (b_conn b)\<lparr>from_target := ch\<rparr>\<rparr>
         | (Inl Empty, _) \<Rightarrow> b
         | (Inl TryDisconnected, _) \<Rightarrow> b\<lparr>b_target_done := True\<rparr>)
      else b)"

definition flush :: "('i, 'sk) smol \<Rightarrow> 'sk \<Rightarrow> bridge \<Rightarrow> 'sk \<times> bridge" where
  "flush m s b =
     (if b_pending b \<noteq> [] \<and> sk_can_send m s then
        (case sk_send_slice m (b_pending b) s of
           None \<Rightarrow> (s, b)
         | Some (sent, s') \<Rightarrow> (s', b\<lparr>b_pending := drop sent (b_pending b)\<rparr>))
      else (s, b))"

definition half_close :: "('i, 'sk) smol \<Rightarrow> bridge \<Rightarrow> 'sk \<Rightarrow> 'sk" where
  "half_close m b s = (if b_target_done b \<and> b_pending b = [] \<and> sk_is_open m s then sk_close m s else s)"

definition shuttle_conn :: "('i, 'sk) smol \<Rightarrow> 'sk \<Rightarrow> bridge \<Rightarrow> 'sk \<times> bridge" where
  "shuttle_conn m s b =
     (let (s, ch) = pull m s (to_target (b_conn b));
          b = fetch (b\<lparr>b_conn := (b_conn b)\<lparr>to_target := ch\<rparr>\<rparr>);
          (s, b) = flush m s b
      in (half_close m b s, b))"

section \<open>What the shuttle conserves\<close>

lemma pull_conserves:
  "smol_ok m \<Longrightarrow> pull m s ch = (s', ch') \<Longrightarrow>
     concat (ch_queue ch') @ sk_rx m s' = concat (ch_queue ch) @ sk_rx m s \<and> sk_tx m s' = sk_tx m s
     \<and> ch_sender ch' = ch_sender ch \<and> ch_receiver ch' = ch_receiver ch"
proof (induction m s ch rule: pull.induct)
  case (1 m s ch)
  show ?case
  proof (cases "try_reserve ch \<and> sk_can_recv m s \<and> sk_recv m s \<noteq> None")
    case True
    then obtain c t where r: "sk_recv m s = Some (c, t)" by auto
    note law = smol_ok_recv [OF "1.prems"(1) r]
    show ?thesis
    proof (cases "c = []")
      case True
      then show ?thesis using "1.prems"(2) r \<open>try_reserve ch \<and> _\<close> law by (auto simp: pull.simps [of m s])
    next
      case False
      then show ?thesis
        using "1.IH" [of "(c, t)" c t] "1.prems" r \<open>try_reserve ch \<and> _\<close> law
        by (auto simp: pull.simps [of m s] chan_send_def)
    qed
  next
    case False
    then show ?thesis using "1.prems"(2) by (auto simp: pull.simps [of m s] split: if_splits option.splits)
  qed
qed

lemma fetch_conserves:
  "b_pending (fetch b) @ concat (ch_queue (from_target (b_conn (fetch b)))) = b_pending b @ concat (ch_queue (from_target (b_conn b)))
   \<and> to_target (b_conn (fetch b)) = to_target (b_conn b)"
  by (auto simp: fetch_def try_recv_def split: list.splits try_recv_error.splits)

lemma flush_conserves:
  "smol_ok m \<Longrightarrow> flush m s b = (s', b') \<Longrightarrow>
     sk_tx m s' @ b_pending b' = sk_tx m s @ b_pending b \<and> sk_rx m s' = sk_rx m s \<and> b_conn b' = b_conn b"
  by (auto simp: flush_def dest: smol_ok_send split: if_splits option.splits)

text \<open>The bytes in flight in each direction, as seen from the loop.\<close>

definition inflight_to :: "('i, 'sk) smol \<Rightarrow> 'sk \<Rightarrow> bridge \<Rightarrow> bytes" where
  "inflight_to m s b = concat (ch_queue (to_target (b_conn b))) @ sk_rx m s"

definition inflight_from :: "('i, 'sk) smol \<Rightarrow> 'sk \<Rightarrow> bridge \<Rightarrow> bytes" where
  "inflight_from m s b = sk_tx m s @ b_pending b @ concat (ch_queue (from_target (b_conn b)))"

lemma shuttle_conn_conserves:
  assumes "smol_ok m" "shuttle_conn m s b = (s', b')"
  shows "inflight_to m s' b' = inflight_to m s b \<and> inflight_from m s' b' = inflight_from m s b"
proof -
  obtain s1 ch where p: "pull m s (to_target (b_conn b)) = (s1, ch)" by fastforce
  let ?b = "b\<lparr>b_conn := (b_conn b)\<lparr>to_target := ch\<rparr>\<rparr>"
  obtain s2 b2 where f: "flush m s1 (fetch ?b) = (s2, b2)" by fastforce
  have e: "s' = half_close m b2 s2" "b' = b2" using assms(2) p f by (auto simp: shuttle_conn_def)
  note laws = pull_conserves [OF assms(1) p] fetch_conserves [of ?b] flush_conserves [OF assms(1) f]
  have "sk_rx m s' = sk_rx m s2" "sk_tx m s' = sk_tx m s2"
    using smol_ok_close [OF assms(1)] by (simp_all add: e half_close_def)
  then show ?thesis using laws e(2) by (simp add: inflight_to_def inflight_from_def) (metis append.assoc)
qed

text \<open>
  With nothing to receive and nothing from the target, the shuttle changes nothing, also when the
  peer has closed its half: the channel to the target stays open, so the target learns of a
  peer's half-close only after it has closed itself.
\<close>

lemma half_closed_peer_unnoticed:
  assumes "\<not> sk_can_recv m s" "b_pending b = []" "ch_queue (from_target (b_conn b)) = []"
    and "ch_sender (from_target (b_conn b))" "\<not> b_target_done b"
  shows "shuttle_conn m s b = (s, b)"
  using assms by (simp add: shuttle_conn_def pull.simps [of m s] fetch_def try_recv_def flush_def half_close_def)

section \<open>The bridge task\<close>

text \<open>
  The task \<open>spawn_tcp\<close> spawns (\<open>bridge_stream\<close> starts it connected): it dials, then forwards what
  arrives on the one channel and sends what it reads on the other, waiting while that one is full. When
  it ends, both its channel ends are dropped, and with the receiver whatever is still queued.
  \<open>t_out\<close> is what the target stream was given, \<open>t_read\<close> what was read from it.
\<close>

datatype task_state = Dialing | Running | Sending bytes | Finished

record task =
  t_state :: task_state
  t_out :: bytes
  t_read :: bytes

definition spawn_tcp :: task where
  "spawn_tcp = \<lparr>t_state = Dialing, t_out = [], t_read = []\<rparr>"

definition bridge_stream :: task where
  "bridge_stream = \<lparr>t_state = Running, t_out = [], t_read = []\<rparr>"

definition finish :: "conn \<Rightarrow> conn" where
  "finish c = \<lparr>to_target = (to_target c)\<lparr>ch_receiver := False, ch_queue := []\<rparr>,
               from_target = (from_target c)\<lparr>ch_sender := False\<rparr>\<rparr>"

inductive task_step :: "task \<times> conn \<Rightarrow> task \<times> conn \<Rightarrow> bool" where
  dialed: "t_state t = Dialing \<Longrightarrow> task_step (t, c) (t\<lparr>t_state := Running\<rparr>, c)"
| dial_failed: "t_state t = Dialing \<Longrightarrow> task_step (t, c) (t\<lparr>t_state := Finished\<rparr>, finish c)"
| forwarded: "t_state t = Running \<Longrightarrow> ch_queue (to_target c) = d # q \<Longrightarrow>
    task_step (t, c) (t\<lparr>t_out := t_out t @ d\<rparr>, c\<lparr>to_target := (to_target c)\<lparr>ch_queue := q\<rparr>\<rparr>)"
| write_failed: "t_state t = Running \<Longrightarrow> ch_queue (to_target c) = d # q \<Longrightarrow>
    task_step (t, c) (t\<lparr>t_state := Finished, t_out := t_out t @ take n d\<rparr>, finish c)"
| loop_gone: "t_state t = Running \<Longrightarrow> ch_queue (to_target c) = [] \<Longrightarrow> \<not> ch_sender (to_target c) \<Longrightarrow>
    task_step (t, c) (t\<lparr>t_state := Finished\<rparr>, finish c)"
| target_read: "t_state t = Running \<Longrightarrow> ds \<noteq> [] \<Longrightarrow> length ds \<le> 8192 \<Longrightarrow>
    task_step (t, c) (t\<lparr>t_state := Sending ds, t_read := t_read t @ ds\<rparr>, c)"
| target_end: "t_state t = Running \<Longrightarrow> task_step (t, c) (t\<lparr>t_state := Finished\<rparr>, finish c)"
| sent: "t_state t = Sending ds \<Longrightarrow> try_reserve (from_target c) \<Longrightarrow>
    task_step (t, c) (t\<lparr>t_state := Running\<rparr>, c\<lparr>from_target := chan_send ds (from_target c)\<rparr>)"
| send_failed: "t_state t = Sending ds \<Longrightarrow> \<not> ch_receiver (from_target c) \<Longrightarrow>
    task_step (t, c) (t\<lparr>t_state := Finished\<rparr>, finish c)"

section \<open>A connection over time\<close>

text \<open>
  A connection: its socket and bridge while the loop has them, its channels and task. \<open>k_in\<close> is
  every byte TCP put into the receive buffer and \<open>k_acked\<close> every byte it took from the transmit
  buffer. Between steps of the code the network moves: TCP appends to the receive buffer and
  takes from the front of the transmit buffer. When the loop reaps the socket the channels lose
  their loop ends.
\<close>

record 'sk link =
  k_live :: "('sk \<times> bridge) option"
  k_conn :: conn
  k_task :: task
  k_in :: bytes
  k_acked :: bytes

definition abandon :: "conn \<Rightarrow> conn" where
  "abandon c = \<lparr>to_target = (to_target c)\<lparr>ch_sender := False\<rparr>,
                from_target = (from_target c)\<lparr>ch_receiver := False, ch_queue := []\<rparr>\<rparr>"

definition opened :: "task \<Rightarrow> 'sk \<Rightarrow> 'sk link" where
  "opened t s = \<lparr>k_live = Some (s, bridge_new conn_new), k_conn = conn_new, k_task = t, k_in = [], k_acked = []\<rparr>"

text \<open>The bridge's channels are the connection's.\<close>

definition with_conn :: "conn \<Rightarrow> ('sk \<times> bridge) option \<Rightarrow> ('sk \<times> bridge) option" where
  "with_conn c l = map_option (\<lambda>(s, b). (s, b\<lparr>b_conn := c\<rparr>)) l"

inductive link_step :: "('i, 'sk) smol \<Rightarrow> 'sk link \<Rightarrow> 'sk link \<Rightarrow> bool" for m where
  shuttled: "k_live k = Some (s, b) \<Longrightarrow> shuttle_conn m s b = (s', b') \<Longrightarrow> sk_is_open m s' \<Longrightarrow>
    link_step m k (k\<lparr>k_live := Some (s', b'), k_conn := b_conn b'\<rparr>)"
| reaped: "k_live k = Some (s, b) \<Longrightarrow> shuttle_conn m s b = (s', b') \<Longrightarrow> \<not> sk_is_open m s' \<Longrightarrow>
    link_step m k (k\<lparr>k_live := None, k_conn := abandon (b_conn b'), k_acked := k_acked k @ sk_tx m s'\<rparr>)"
| task_moved: "task_step (k_task k, k_conn k) (t', c') \<Longrightarrow>
    link_step m k (k\<lparr>k_task := t', k_conn := c', k_live := with_conn c' (k_live k)\<rparr>)"
| network: "k_live k = Some (s, b) \<Longrightarrow> sk_rx m s' = sk_rx m s @ bs \<Longrightarrow> sk_tx m s = ack @ sk_tx m s' \<Longrightarrow>
    link_step m k (k\<lparr>k_live := Some (s', b), k_in := k_in k @ bs, k_acked := k_acked k @ ack\<rparr>)"

definition sending :: "task \<Rightarrow> bytes" where
  "sending t = (case t_state t of Sending ds \<Rightarrow> ds | _ \<Rightarrow> [])"

text \<open>
  The invariant. Towards the target: while both ends live, what the target was given, what is
  queued and what is in the receive buffer make up what TCP delivered; once an end is gone, what
  arrived is still a prefix. From the target: as long as the loop has the connection, what TCP took,
  what waits in the transmit buffer, as pending chunk, in the channel and in the task's hands make up what was read.
\<close>

definition link_inv :: "('i, 'sk) smol \<Rightarrow> 'sk link \<Rightarrow> bool" where
  "link_inv m k \<longleftrightarrow>
     prefix (t_out (k_task k)) (k_in k) \<and>
     (case k_live k of
        Some (s, b) \<Rightarrow>
          b_conn b = k_conn k \<and> ch_receiver (from_target (k_conn k)) \<and>
          (t_state (k_task k) \<noteq> Finished \<longrightarrow> t_out (k_task k) @ inflight_to m s b = k_in k) \<and>
          k_acked k @ inflight_from m s b @ sending (k_task k) = t_read (k_task k)
      | None \<Rightarrow>
          (t_state (k_task k) \<noteq> Finished \<longrightarrow>
             prefix (t_out (k_task k) @ concat (ch_queue (to_target (k_conn k)))) (k_in k)) \<and>
          prefix (k_acked k) (t_read (k_task k)))"

lemma shuttle_conn_receiver:
  "shuttle_conn m s b = (s', b') \<Longrightarrow> ch_receiver (from_target (b_conn b')) = ch_receiver (from_target (b_conn b))"
  by (auto simp: shuttle_conn_def flush_def fetch_def try_recv_def Let_def
      split: prod.splits if_splits option.splits list.splits)

lemma prefix_take: "prefix (a @ d @ r) z \<Longrightarrow> prefix (a @ take n d) z"
  by (rule prefix_order.trans [of _ "a @ d @ r"]) (simp_all add: take_is_prefix prefix_prefix)

lemma split_prefix: "a @ d @ r = z \<Longrightarrow> prefix (a @ d) z" "a @ d @ r = z \<Longrightarrow> prefix (a @ take n d) z"
  using prefix_take [of a d r z n] by (auto simp: prefix_def)

lemma link_inv_task:
  assumes "task_step (k_task k, k_conn k) (t', c')" "link_inv m k"
  shows "link_inv m (k\<lparr>k_task := t', k_conn := c', k_live := with_conn c' (k_live k)\<rparr>)"
proof (cases "k_live k")
  case None
  from assms(1) show ?thesis
    by cases (use assms(2) None in
      \<open>auto simp: link_inv_def with_conn_def finish_def inflight_to_def
         intro: append_prefixD prefix_take\<close>)
next
  case (Some sb)
  then obtain s b where sb: "k_live k = Some (s, b)" by (cases sb) auto
  from assms(1) show ?thesis
    by cases (use assms(2) sb in
      \<open>auto simp: link_inv_def with_conn_def finish_def inflight_to_def inflight_from_def sending_def chan_send_def
         intro: split_prefix\<close>)
qed

lemma link_inv_step: "link_step m k k' \<Longrightarrow> smol_ok m \<Longrightarrow> link_inv m k \<Longrightarrow> link_inv m k'"
proof (induction rule: link_step.induct)
  case (shuttled k s b s' b')
  then show ?case
    using shuttle_conn_conserves [of m s b s' b'] shuttle_conn_receiver [of m s b s' b'] by (simp add: link_inv_def)
next
  case (reaped k s b s' b')
  let ?c = "b_conn b'"
  have "t_state (k_task k) \<noteq> Finished \<Longrightarrow> t_out (k_task k) @ inflight_to m s' b' = k_in k"
    and "k_acked k @ inflight_from m s' b' @ sending (k_task k) = t_read (k_task k)"
    using shuttle_conn_conserves [OF reaped(4, 2)] reaped(1, 5) by (simp_all add: link_inv_def)
  then have "t_state (k_task k) \<noteq> Finished \<Longrightarrow> prefix (t_out (k_task k) @ concat (ch_queue (to_target ?c))) (k_in k)"
    and "prefix (k_acked k @ sk_tx m s') (t_read (k_task k))"
    by (auto simp: inflight_to_def inflight_from_def intro: split_prefix)
  then show ?case using reaped(5) by (simp add: link_inv_def abandon_def)
next
  case (task_moved k t' c')
  then show ?case using link_inv_task by blast
next
  case (network k s b s' bs ack)
  then have "link_inv m k" "k_live k = Some (s, b)" by simp_all
  then show ?case using network(2, 3)
    by (auto simp: link_inv_def inflight_to_def inflight_from_def intro: prefix_order.trans)
qed

lemma link_inv_opened:
  "sk_rx m s = [] \<Longrightarrow> sk_tx m s = [] \<Longrightarrow> t = spawn_tcp \<or> t = bridge_stream \<Longrightarrow> link_inv m (opened t s)"
  by (auto simp: link_inv_def opened_def bridge_new_def conn_new_def chan_new_def inflight_to_def inflight_from_def
      sending_def spawn_tcp_def bridge_stream_def)

section \<open>A stack to run on\<close>

text \<open>
  A minimal stack for the examples: sockets are two buffers and whether they listen, are
  connected or closed; a poll turns nothing into nothing.
\<close>

record demo_sock =
  ds_rx :: bytes
  ds_tx :: bytes
  ds_active :: bool
  ds_open :: bool

definition free_handle :: "'sk sockets \<Rightarrow> nat" where
  "free_handle S = (if S 0 = None then 0 else if S 1 = None then 1 else if S 2 = None then 2 else Suc (Max (dom S)))"

definition demo_smol :: "(unit, demo_sock) smol" where
  "demo_smol = \<lparr>sk_new = \<lambda>_ _. \<lparr>ds_rx = [], ds_tx = [], ds_active = False, ds_open = False\<rparr>,
     sk_listen = \<lambda>_ s. s\<lparr>ds_open := True\<rparr>, sk_connect = \<lambda>_ _ _ _ s. Some (s\<lparr>ds_active := True, ds_open := True\<rparr>),
     sk_is_active = ds_active, sk_is_open = ds_open, sk_can_recv = \<lambda>s. ds_rx s \<noteq> [], sk_can_send = ds_active,
     sk_recv = \<lambda>s. Some (ds_rx s, s\<lparr>ds_rx := []\<rparr>), sk_send_slice = \<lambda>b s. Some (length b, s\<lparr>ds_tx := ds_tx s @ b\<rparr>),
     sk_close = \<lambda>s. s\<lparr>ds_open := False\<rparr>, ss_add = free_handle, if_new = \<lambda>_ _. (), if_routes = \<lambda>_ i. i,
     if_poll = \<lambda>_ i d S. (i, d\<lparr>dv_rx := []\<rparr>, S), sk_rx = ds_rx, sk_tx = ds_tx\<rparr>"

lemma free_handle: "finite (dom S) \<Longrightarrow> free_handle S \<notin> dom S"
proof -
  assume "finite (dom S)"
  then have "Suc (Max (dom S)) \<notin> dom S" using Max_ge [of "dom S"] Suc_n_not_le_n by blast
  then show ?thesis by (auto simp: free_handle_def)
qed

lemma demo_smol_ok: "smol_ok demo_smol"
  by (auto simp: smol_ok_def demo_smol_def free_handle)

section \<open>Properties\<close>

text \<open>
  C8: However the tunnel loop's shuttle, the bridge task and the network interleave, a bridged
  connection moves bytes unchanged: what the target was given is a prefix of what TCP delivered,
  what TCP took to the peer is a prefix of what was read from the target, and while the loop
  has the connection nothing is lost in between (backpressure): every byte read from the target is sent, in the
  transmit buffer, pending, queued or in the task's hands, in order, and as long as
  the task runs every byte delivered is with the target, queued or still in the receive buffer.
\<close>

theorem bridge_streams_exact:
  assumes "smol_ok m" "sk_rx m s = []" "sk_tx m s = []" "t = spawn_tcp \<or> t = bridge_stream"
    and "(link_step m)\<^sup>*\<^sup>* (opened t s) k"
  shows "prefix (t_out (k_task k)) (k_in k) \<and> prefix (k_acked k) (t_read (k_task k))
    \<and> (\<forall>s' b. k_live k = Some (s', b) \<longrightarrow>
         k_acked k @ sk_tx m s' @ b_pending b @ concat (ch_queue (from_target (k_conn k))) @ sending (k_task k) = t_read (k_task k)
         \<and> (t_state (k_task k) \<noteq> Finished \<longrightarrow>
              t_out (k_task k) @ concat (ch_queue (to_target (k_conn k))) @ sk_rx m s' = k_in k))"
proof -
  from assms(5) have "link_inv m k"
    by (induction rule: rtranclp_induct) (use link_inv_opened [OF assms(2-4)] link_inv_step [OF _ assms(1)] in blast)+
  then show ?thesis
    by (auto simp: link_inv_def inflight_to_def inflight_from_def split: option.splits intro: prefixI [OF sym])
qed

definition demo_socket :: demo_sock where
  "demo_socket = \<lparr>ds_rx = [], ds_tx = [], ds_active = True, ds_open = True\<rparr>"

theorem bridge_streams_exact_witness:
  "\<exists>k. (link_step demo_smol)\<^sup>*\<^sup>* (opened bridge_stream demo_socket) k \<and> t_out (k_task k) = [1, 2] \<and> prefix [1, 2] (k_in k)"
proof -
  let ?k0 = "opened bridge_stream demo_socket"
  let ?s1 = "demo_socket\<lparr>ds_rx := [1, 2]\<rparr>" and ?b0 = "bridge_new conn_new"
  let ?k1 = "?k0\<lparr>k_live := Some (?s1, ?b0), k_in := [1, 2]\<rparr>"
  let ?c2 = "conn_new\<lparr>to_target := chan_send [1, 2] chan_new\<rparr>"
  let ?k2 = "?k1\<lparr>k_live := Some (demo_socket, ?b0\<lparr>b_conn := ?c2\<rparr>), k_conn := ?c2\<rparr>"
  let ?t3 = "bridge_stream\<lparr>t_out := [1, 2]\<rparr>"
  let ?k3 = "?k2\<lparr>k_task := ?t3, k_conn := conn_new, k_live := with_conn conn_new (k_live ?k2)\<rparr>"
  have 1: "link_step demo_smol ?k0 ?k1"
    using link_step.network [of ?k0 demo_socket ?b0 demo_smol ?s1 "[1, 2]" "[]"]
    by (simp add: opened_def demo_smol_def demo_socket_def)
  have p: "pull demo_smol ?s1 chan_new = (demo_socket, chan_send [1, 2] chan_new)"
    by (simp add: pull.simps demo_smol_def demo_socket_def try_reserve_def chan_new_def chan_send_def capacity_def)
  have 2: "link_step demo_smol ?k1 ?k2"
    using link_step.shuttled [of ?k1 ?s1 ?b0 demo_smol demo_socket "?b0\<lparr>b_conn := ?c2\<rparr>"] p
    by (simp add: shuttle_conn_def fetch_def flush_def half_close_def try_recv_def bridge_new_def conn_new_def
        chan_new_def chan_send_def demo_socket_def demo_smol_def)
  have "task_step (bridge_stream, ?c2) (?t3, conn_new)"
    using task_step.forwarded [of bridge_stream ?c2 "[1, 2]" "[]"]
    by (simp add: bridge_stream_def conn_new_def chan_new_def chan_send_def)
  then have 3: "link_step demo_smol ?k2 ?k3"
    using link_step.task_moved [of ?k2 ?t3 conn_new demo_smol] by (simp add: opened_def)
  from 1 2 3 have run: "(link_step demo_smol)\<^sup>*\<^sup>* ?k0 ?k3" by (meson converse_rtranclp_into_rtranclp rtranclp.rtrancl_refl)
  have "prefix (t_out (k_task ?k3)) (k_in ?k3)"
    using bridge_streams_exact [OF demo_smol_ok _ _ _ run] by (simp add: demo_smol_def demo_socket_def)
  then show ?thesis using run by (intro exI [of _ ?k3]) simp
qed

end
