(* ===== verification/Icmp.thy ===== *)
theory Icmp
  imports Packets
begin

text \<open>
  The keepalive ping of \<open>newt/src/tunnel.rs\<close>: the Internet checksum (RFC 1071) and the IPv4 ICMP
  echo request, with the sum kept in a 32-bit word as in the code. The lemmas reduce the folding loop to
  arithmetic modulo 65535 and show that a packet with its checksum filled in sums to zero.
\<close>

section \<open>The checksum\<close>

fun sum_pairs :: "u32 \<Rightarrow> bytes \<Rightarrow> u32" where
  "sum_pairs acc (a # b # rest) = sum_pairs (acc + ucast (of_be_bytes [a, b] :: u16)) rest"
| "sum_pairs acc [l] = acc + push_bit 8 (ucast l)"
| "sum_pairs acc [] = acc"

text \<open>\<open>while (sum >> 16) != 0 { sum = (sum & 0xffff) + (sum >> 16); }\<close>\<close>

lemma and_ffff: "unat ((s :: u32) AND 0xffff) = unat s mod 65536"
proof -
  have "s AND mask 16 = take_bit 16 s" by (simp only: take_bit_eq_mask)
  then have "s AND 0xffff = take_bit 16 s" by (simp add: mask_eq_exp_minus_1)
  then show ?thesis by (simp add: take_bit_eq_mod unat_mod_distrib)
qed

lemma shr_16: "unat (drop_bit 16 (s :: u32)) = unat s div 65536"
  by (simp add: drop_bit_eq_div unat_div_distrib)

lemma fold_step: "unat ((s AND 0xffff) + drop_bit 16 (s :: u32)) = unat s mod 65536 + unat s div 65536"
proof -
  have "unat s < 2 ^ 32" using unsigned_less [of s, where ?'a = nat] by simp
  then have "unat s mod 65536 + unat s div 65536 < 2 ^ 32" by linarith
  then show ?thesis by (simp add: unat_word_ariths and_ffff shr_16)
qed

function fold16 :: "u32 \<Rightarrow> u32" where
  "fold16 s = (if drop_bit 16 s \<noteq> 0 then fold16 ((s AND 0xffff) + drop_bit 16 s) else s)"
  by pat_completeness auto

termination
proof (relation "measure unat")
  fix s :: u32 assume "drop_bit 16 s \<noteq> 0"
  then have "0 < unat s div 65536" by (metis shr_16 unat_gt_0)
  moreover have "unat s = 65536 * (unat s div 65536) + unat s mod 65536" by simp
  ultimately have "unat s mod 65536 + unat s div 65536 < unat s" by linarith
  then show "((s AND 0xffff) + drop_bit 16 s, s) \<in> measure unat" by (simp add: fold_step)
qed simp

declare fold16.simps [simp del]

definition checksum :: "bytes \<Rightarrow> u16" where
  "checksum data = NOT (ucast (fold16 (sum_pairs 0 data)))"

section \<open>The echo request\<close>

definition newtping :: bytes where
  "newtping = [0x6E, 0x65, 0x77, 0x74, 0x70, 0x69, 0x6E, 0x67]"

definition icmp_echo :: "bytes \<Rightarrow> bytes \<Rightarrow> u16 \<Rightarrow> u16 \<Rightarrow> bytes" where
  "icmp_echo src dst ident seq =
     (let icmp = [8, 0, 0, 0] @ be16 ident @ be16 seq @ newtping;
          icmp = take 2 icmp @ be16 (checksum icmp) @ drop 4 icmp;
          total = 20 + length icmp;
          ip = [0x45, 0x00] @ be16 (of_nat total) @ [0, 0, 0x40, 0x00] @ [64, 1, 0, 0] @ src @ dst;
          ip = take 10 ip @ be16 (checksum ip) @ drop 12 ip
      in ip @ icmp)"

section \<open>Lemmas\<close>

text \<open>Folding keeps the residue modulo 65535 and is zero only for zero.\<close>

lemma fold16_spec:
  "unat (fold16 s) mod 65535 = unat s mod 65535 \<and> unat (fold16 s) < 65536 \<and> (unat (fold16 s) = 0 \<longleftrightarrow> unat s = 0)"
proof (induction s rule: fold16.induct)
  case (1 s)
  show ?case
  proof (cases "drop_bit 16 s = 0")
    case True
    then have "unat s div 65536 = 0" by (metis shr_16 unat_0)
    then show ?thesis using True by (simp add: fold16.simps [of s] div_eq_0_iff)
  next
    case False
    have "unat s = 65536 * (unat s div 65536) + unat s mod 65536" by simp
    then have "unat s = 65535 * (unat s div 65536) + (unat s mod 65536 + unat s div 65536)" by linarith
    then have "unat s mod 65535 = (unat s mod 65536 + unat s div 65536) mod 65535"
      by (metis mod_mult_self4)
    moreover have "unat s mod 65536 + unat s div 65536 = 0 \<longleftrightarrow> unat s = 0"
      by (metis add_is_0 div_mult_mod_eq mult_is_0 div_0 mod_0)
    ultimately show ?thesis using 1 [OF False] False by (simp add: fold16.simps [of s] fold_step)
  qed
qed

fun pair_sum :: "bytes \<Rightarrow> nat" where
  "pair_sum (a # b # rest) = 256 * unat a + unat b + pair_sum rest"
| "pair_sum [l] = 256 * unat l"
| "pair_sum [] = 0"

lemma byte_less: "unat (b :: u8) < 256"
  using unsigned_less [of b, where ?'a = nat] by simp

lemma unat_be_pair: "unat (of_be_bytes [a, b] :: u16) = 256 * unat a + unat b"
proof -
  have "ucast b AND push_bit 8 (ucast a :: u16) = (0 :: u16)"
    by (rule bit_eqI) (auto simp: bit_simps dest: bit_imp_le_length)
  then have "(of_be_bytes [a, b] :: u16) = ucast b + push_bit 8 (ucast a)"
    by (simp add: of_be_bytes_def disjunctive_add_eq_or)
  also have "unat \<dots> = unat b + 256 * unat a"
    using byte_less [of a] byte_less [of b]
    by (simp add: push_bit_eq_mult unat_word_ariths unsigned_ucast_eq take_bit_nat_eq_self)
  finally show ?thesis by simp
qed

lemma sum_pairs_unat:
  "unat acc + pair_sum d < 2 ^ 32 \<Longrightarrow> unat (sum_pairs acc d) = unat acc + pair_sum d"
proof (induction acc d rule: sum_pairs.induct)
  case (1 acc a b rest)
  have "256 * unat a + unat b < 65536" using byte_less [of a] byte_less [of b] by simp
  then have "unat (ucast (of_be_bytes [a, b] :: u16) :: u32) = 256 * unat a + unat b"
    by (simp add: unsigned_ucast_eq unat_be_pair take_bit_nat_eq_self)
  then have "unat (acc + ucast (of_be_bytes [a, b] :: u16)) = unat acc + 256 * unat a + unat b"
    using 1 by (simp add: unat_word_ariths)
  then show ?case using 1 by simp
next
  case (2 acc l)
  then show ?case using byte_less [of l]
    by (simp add: push_bit_eq_mult unat_word_ariths unsigned_ucast_eq take_bit_nat_eq_self)
qed simp

lemma pair_sum_append: "even (length xs) \<Longrightarrow> pair_sum (xs @ ys) = pair_sum xs + pair_sum ys"
  by (induction xs rule: pair_sum.induct) simp_all

lemma pair_sum_be16: "pair_sum (be16 c) = unat c"
proof -
  have "be16 c = [ucast (drop_bit 8 c), ucast c]" by (simp add: be_bytes_def le_bytes_def upt_rec)
  moreover have "(of_be_bytes (be16 c) :: u16) = c" by simp
  ultimately show ?thesis using unat_be_pair [of "ucast (drop_bit 8 c)" "ucast c"] by simp
qed

lemma pair_sum_bound: "pair_sum d \<le> 65536 * length d"
proof (induction d rule: pair_sum.induct)
  case (1 a b rest)
  then show ?case using byte_less [of a] byte_less [of b] by simp
next
  case (2 l)
  then show ?case using byte_less [of l] by simp
qed simp

lemma unat_not_u16: "unat (NOT (c :: u16)) = 65535 - unat c"
proof -
  have "unat (- 1 - c) = unat (- 1 :: u16) - unat c"
    by (rule unat_sub) (simp add: word_order.extremum)
  moreover have "unat (- 1 :: u16) = 65535" by (simp add: unsigned_minus_1_eq_mask mask_eq_exp_minus_1)
  moreover have "- 1 - c = - c - 1" by (simp add: algebra_simps)
  ultimately show ?thesis by (metis not_eq_complement)
qed

lemma checksum_unat:
  assumes "length d < 65536"
  shows "unat (checksum d) = 65535 - unat (fold16 (sum_pairs 0 d))" "unat (sum_pairs 0 d) = pair_sum d"
proof -
  have "65536 * length d < 2 ^ 32" using assms by simp
  then show "unat (sum_pairs 0 d) = pair_sum d"
    using sum_pairs_unat [of 0 d] pair_sum_bound [of d] by simp
  have "unat (ucast (fold16 (sum_pairs 0 d)) :: u16) = unat (fold16 (sum_pairs 0 d))"
    using fold16_spec [of "sum_pairs 0 d"] by (simp add: unsigned_ucast_eq take_bit_nat_eq_self)
  then show "unat (checksum d) = 65535 - unat (fold16 (sum_pairs 0 d))"
    by (simp add: checksum_def unat_not_u16)
qed

text \<open>A message whose checksum field was zero when the checksum was taken verifies once it is filled in.\<close>

lemma residue_zero: "q mod 65535 = 0 \<Longrightarrow> q < 65536 \<Longrightarrow> q \<noteq> 0 \<Longrightarrow> q = (65535 :: nat)"
proof -
  assume q: "q mod 65535 = 0" "q < 65536" "q \<noteq> 0"
  then have "\<not> q < 65535" by (metis mod_less)
  then show ?thesis using q(2) by linarith
qed

lemma checksum_verifies:
  assumes "even (length pre)" "length (pre @ [0, 0] @ post) < 65536" "0 < pair_sum (pre @ [0, 0] @ post)"
  shows "checksum (pre @ be16 (checksum (pre @ [0, 0] @ post)) @ post) = 0"
proof -
  let ?d = "pre @ [0, 0] @ post" and ?c = "checksum (pre @ [0, 0] @ post)"
  let ?e = "pre @ be16 ?c @ post"
  let ?r = "unat (fold16 (sum_pairs 0 ?d))" and ?q = "unat (fold16 (sum_pairs 0 ?e))"
  have r: "?r mod 65535 = pair_sum ?d mod 65535" "?r < 65536"
    using fold16_spec [of "sum_pairs 0 ?d"] unfolding checksum_unat(2) [OF assms(2)] by blast+
  have len: "length ?e < 65536" using assms(2) by simp
  have sum_e: "pair_sum ?e = pair_sum ?d + unat ?c"
    using assms(1) by (simp add: pair_sum_append pair_sum_be16)
  have c: "unat ?c + ?r = 65535" using checksum_unat(1) [OF assms(2)] r(2) by linarith
  note f = fold16_spec [of "sum_pairs 0 ?e", unfolded checksum_unat(2) [OF len]]
  have pos: "pair_sum ?e \<noteq> 0" using sum_e assms(3) by (metis add_is_0 less_irrefl)
  have q: "?q mod 65535 = pair_sum ?e mod 65535" "?q < 65536" "?q \<noteq> 0"
    using f pos by blast+
  have "pair_sum ?e mod 65535 = (unat ?c + ?r) mod 65535"
    unfolding sum_e by (subst add.commute) (rule mod_add_cong [OF refl r(1) [symmetric]])
  then have "?q mod 65535 = 0" using q(1) c by simp
  then have "?q = 65535" using q(2, 3) by (rule residue_zero)
  then have "unat (checksum ?e) = 0" using checksum_unat(1) [OF len] by simp
  then show ?thesis by (simp add: unat_eq_zero)
qed

lemma length_icmp_echo: "length src = 4 \<Longrightarrow> length dst = 4 \<Longrightarrow> length (icmp_echo src dst ident seq) = 36"
  by (simp add: icmp_echo_def Let_def newtping_def)

section \<open>Properties\<close>

text \<open>
  C40: For every pair of IPv4 addresses, identifier and sequence number, the keepalive ping is a
  36-byte IPv4 packet from the one address to the other whose header checksum and ICMP checksum
  both verify (the Internet checksum over the header, and over the ICMP message, is zero), and it carries
  the identifier and the sequence number.
\<close>

theorem icmp_echo_valid:
  assumes "length src = 4" "length dst = 4"
  shows "length (icmp_echo src dst ident seq) = 36
    \<and> checksum (take 20 (icmp_echo src dst ident seq)) = 0
    \<and> checksum (drop 20 (icmp_echo src dst ident seq)) = 0
    \<and> slice 12 16 (icmp_echo src dst ident seq) = src
    \<and> dst_address (icmp_echo src dst ident seq) = Some (V4 (of_be_bytes dst))
    \<and> slice 24 28 (icmp_echo src dst ident seq) = be16 ident @ be16 seq"
proof -
  let ?post = "be16 ident @ be16 seq @ newtping"
  let ?icmp = "[8, 0] @ be16 (checksum ([8, 0] @ [0, 0] @ ?post)) @ ?post"
  let ?pre = "[0x45, 0x00, 0, 36, 0, 0, 0x40, 0x00, 64, 1 :: u8]"
  let ?ip = "?pre @ be16 (checksum (?pre @ [0, 0] @ src @ dst)) @ src @ dst"
  have ping: "length newtping = 8" by (simp add: newtping_def)
  have total: "be16 36 = [0, 36]" by code_simp
  have eq: "icmp_echo src dst ident seq = ?ip @ ?icmp"
    using ping total by (simp add: icmp_echo_def Let_def numeral_eq_Suc)
  have len: "length ?ip = 20" "length ?icmp = 16" using assms ping by simp_all
  have "checksum ?icmp = 0"
    by (rule checksum_verifies) (simp_all add: ping)
  moreover have "checksum ?ip = 0"
    by (rule checksum_verifies) (use assms in simp_all)
  moreover have "slice 12 16 (?ip @ ?icmp) = src" "slice 24 28 (?ip @ ?icmp) = be16 ident @ be16 seq"
    using assms ping by (simp_all add: slice_def numeral_eq_Suc)
  moreover have "slice 16 20 (?ip @ ?icmp) = dst" using assms by (simp add: slice_def numeral_eq_Suc)
  then have "dst_address (?ip @ ?icmp) = Some (V4 (of_be_bytes dst))"
    using assms by (simp add: dst_address_def)
  ultimately show ?thesis unfolding eq using len by simp
qed

theorem icmp_echo_valid_witness:
  "length (icmp_echo [100, 89, 0, 2] [100, 89, 0, 1] 1 0xFFFF) = 36
   \<and> checksum (take 20 (icmp_echo [100, 89, 0, 2] [100, 89, 0, 1] 1 0xFFFF)) = 0"
  using icmp_echo_valid [of "[100, 89, 0, 2]" "[100, 89, 0, 1]" 1 "0xFFFF"] by simp

end
