(* ===== verification/Ip_Addr.thy ===== *)
theory Ip_Addr
  imports Packets Rust_Strings
begin

text \<open>
  The address parsers of \<open>core::net\<close> the programs call through \<open>str::parse\<close>: a reader consumes a
  prefix of the text and returns the value with the rest, or \<open>None\<close> and leaves the text alone
  (\<open>read_atomically\<close>); \<open>parse_with\<close> asks that nothing is left. Lemmas: a printed IPv4 address
  parses back.
\<close>

type_synonym 'a reader = "string \<Rightarrow> ('a \<times> string) option"

definition to_digit :: "nat \<Rightarrow> char \<Rightarrow> nat option" where
  "to_digit radix c =
     (let n = of_char c;
          d = (if 48 \<le> n \<and> n \<le> 57 then n - 48
               else if 97 \<le> n \<and> n \<le> 122 then n - 87
               else if 65 \<le> n \<and> n \<le> 90 then n - 55 else radix)
      in if d < radix then Some d else None)"

text \<open>The loop of \<open>read_number\<close>: value, number of digits and the rest.\<close>

fun read_digits :: "nat \<Rightarrow> nat \<Rightarrow> nat \<Rightarrow> nat \<Rightarrow> string \<Rightarrow> (nat \<times> nat \<times> string) option" where
  "read_digits radix max_digits val cnt [] = Some (val, cnt, [])"
| "read_digits radix max_digits val cnt (c # cs) =
     (case to_digit radix c of
        None \<Rightarrow> Some (val, cnt, c # cs)
      | Some d \<Rightarrow> if max_digits < cnt + 1 then None else read_digits radix max_digits (val * radix + d) (cnt + 1) cs)"

definition read_number :: "nat \<Rightarrow> nat \<Rightarrow> bool \<Rightarrow> nat \<Rightarrow> nat reader" where
  "read_number radix max_digits allow_zero_prefix mx s =
     (case read_digits radix max_digits 0 0 s of
        None \<Rightarrow> None
      | Some (val, cnt, rest) \<Rightarrow>
          if cnt = 0 then None
          else if \<not> allow_zero_prefix \<and> hd s = CHR ''0'' \<and> 1 < cnt then None
          else if mx < val then None else Some (val, rest))"

fun read_given_char :: "char \<Rightarrow> unit reader" where
  "read_given_char c [] = None"
| "read_given_char c (d # ds) = (if c = d then Some ((), ds) else None)"

definition read_separator :: "char \<Rightarrow> nat \<Rightarrow> 'a reader \<Rightarrow> 'a reader" where
  "read_separator sep i inner s =
     (if 0 < i then (case read_given_char sep s of None \<Rightarrow> None | Some (_, rest) \<Rightarrow> inner rest) else inner s)"

fun read_octets :: "nat \<Rightarrow> nat \<Rightarrow> nat list reader" where
  "read_octets i 0 s = Some ([], s)"
| "read_octets i (Suc n) s =
     (case read_separator (CHR ''.'') i (read_number 10 3 False 255) s of
        None \<Rightarrow> None
      | Some (x, rest) \<Rightarrow>
          (case read_octets (Suc i) n rest of None \<Rightarrow> None | Some (xs, rest) \<Rightarrow> Some (x # xs, rest)))"

definition read_ipv4_addr :: "u32 reader" where
  "read_ipv4_addr s =
     map_option (\<lambda>(xs, rest). (of_be_bytes (map of_nat xs), rest)) (read_octets 0 4 s)"

text \<open>
  \<open>read_groups\<close>: groups \<open>i\<close> to \<open>limit - 1\<close>, with an embedded IPv4 address where two groups are left.
  The result is the groups read, whether they end in an IPv4 address, and the rest.
\<close>

function read_groups :: "nat \<Rightarrow> nat \<Rightarrow> string \<Rightarrow> u16 list \<times> bool \<times> string" where
  "read_groups i limit s =
     (if limit \<le> i then ([], False, s)
      else
        case (if i < limit - 1 then read_separator (CHR '':'') i read_ipv4_addr s else None) of
          Some (a, rest) \<Rightarrow> ([ucast (drop_bit 16 a), ucast a], True, rest)
        | None \<Rightarrow>
            (case read_separator (CHR '':'') i (read_number 16 4 True 65535) s of
               None \<Rightarrow> ([], False, s)
             | Some (g, rest) \<Rightarrow>
                 (case read_groups (Suc i) limit rest of (gs, v4, rest) \<Rightarrow> (of_nat g # gs, v4, rest))))"
  by pat_completeness auto

termination by (relation "measure (\<lambda>(i, limit, s). limit - i)") auto

declare read_groups.simps [simp del]

definition of_groups :: "u16 list \<Rightarrow> 128 word" where
  "of_groups gs = of_be_bytes (concat (map be16 gs))"

definition read_ipv6_addr :: "(128 word) reader" where
  "read_ipv6_addr s =
     (case read_groups 0 8 s of
        (head, head_ipv4, rest) \<Rightarrow>
          if length head = 8 then Some (of_groups head, rest)
          else if head_ipv4 then None
          else
            case read_given_char (CHR '':'') rest of
              None \<Rightarrow> None
            | Some (_, rest) \<Rightarrow>
                (case read_given_char (CHR '':'') rest of
                   None \<Rightarrow> None
                 | Some (_, rest) \<Rightarrow>
                     (case read_groups 0 (8 - (length head + 1)) rest of
                        (tail, _, rest) \<Rightarrow>
                          Some (of_groups (head @ replicate (8 - length tail - length head) 0 @ tail), rest))))"

definition read_ip_addr :: "ip_addr reader" where
  "read_ip_addr s =
     (case read_ipv4_addr s of
        Some (a, rest) \<Rightarrow> Some (V4 a, rest)
      | None \<Rightarrow> map_option (\<lambda>(a, rest). (V6 a, rest)) (read_ipv6_addr s))"

definition parse_with :: "'a reader \<Rightarrow> string \<Rightarrow> 'a option" where
  "parse_with p s = (case p s of Some (x, []) \<Rightarrow> Some x | _ \<Rightarrow> None)"

definition parse_ip_addr :: "string \<Rightarrow> ip_addr option" where
  "parse_ip_addr s = parse_with read_ip_addr s"

definition parse_ipv4_addr :: "string \<Rightarrow> u32 option" where
  "parse_ipv4_addr s = (if 15 < length s then None else parse_with read_ipv4_addr s)"

text \<open>\<open>Display for Ipv4Addr\<close>.\<close>

definition show_ipv4 :: "u32 \<Rightarrow> string" where
  "show_ipv4 a =
     (case map (\<lambda>b. show_nat (unat b)) (be32 a) of
        [x, y, z, t] \<Rightarrow> x @ ''.'' @ y @ ''.'' @ z @ ''.'' @ t
      | _ \<Rightarrow> [])"

section \<open>A printed IPv4 address parses back\<close>

lemma to_digit_10: "to_digit 10 c = digit_val c"
  by (auto simp: to_digit_def digit_val_def Let_def)

definition no_digit :: "string \<Rightarrow> bool" where
  "no_digit s \<longleftrightarrow> (case s of [] \<Rightarrow> True | c # _ \<Rightarrow> digit_val c = None)"

lemma read_digits_append:
  "parse_digits mx v ds = Some n \<Longrightarrow> k + length ds \<le> m \<Longrightarrow> no_digit rest \<Longrightarrow>
     read_digits 10 m v k (ds @ rest) = Some (n, k + length ds, rest)"
proof (induction ds arbitrary: v k)
  case Nil
  then show ?case by (cases rest) (auto simp: no_digit_def to_digit_10)
next
  case (Cons c ds)
  then obtain d where "digit_val c = Some d" "parse_digits mx (v * 10 + d) ds = Some n"
    by (auto split: option.splits if_splits)
  then show ?case using Cons by (simp add: to_digit_10)
qed

lemma show_nat_len: "n < 10 ^ Suc k \<Longrightarrow> length (show_nat n) \<le> Suc k"
proof (induction k arbitrary: n)
  case 0
  then show ?case by (simp add: show_nat.simps)
next
  case (Suc k)
  have "n div 10 < 10 ^ Suc k" using Suc.prems by (simp add: less_mult_imp_div_less)
  then show ?case using Suc.IH [of "n div 10"] by (subst show_nat.simps) simp
qed

lemma show_nat_hd: "0 < n \<Longrightarrow> hd (show_nat n) \<noteq> CHR ''0''"
proof (induction n rule: show_nat.induct)
  case (1 n)
  show ?case
  proof (cases "n < 10")
    case True
    have "of_char (char_of (48 + n)) \<noteq> (of_char CHR ''0'' :: nat)" using True 1 by simp
    then show ?thesis using True by (subst show_nat.simps) (metis list.sel(1))
  next
    case False
    then show ?thesis using 1 by (subst show_nat.simps) (simp add: hd_append)
  qed
qed

lemma read_number_show:
  assumes "n \<le> 255" "no_digit rest"
  shows "read_number 10 3 False 255 (show_nat n @ rest) = Some (n, rest)"
proof -
  have len: "length (show_nat n) \<le> 3" using assms show_nat_len [of n 2] by simp
  have "read_digits 10 3 0 0 (show_nat n @ rest) = Some (n, length (show_nat n), rest)"
    using read_digits_append [OF parse_digits_show_nat [OF assms(1)]] assms len by simp
  moreover have "hd (show_nat n) \<noteq> CHR ''0'' \<or> length (show_nat n) = 1"
    using show_nat_hd [of n] by (cases "n = 0") (simp_all add: show_nat.simps)
  ultimately show ?thesis using assms by (auto simp: read_number_def hd_append)
qed

lemma read_octets_show:
  "list_all (\<lambda>n. n \<le> 255) ns \<Longrightarrow> no_digit rest \<Longrightarrow>
     read_octets (Suc i) (length ns) (concat (map (\<lambda>n. CHR ''.'' # show_nat n) ns) @ rest) = Some (ns, rest)"
proof (induction ns arbitrary: i)
  case Nil
  then show ?case by simp
next
  case (Cons n ns)
  have "no_digit (concat (map (\<lambda>n. CHR ''.'' # show_nat n) ns) @ rest)"
    using Cons.prems by (cases ns) (auto simp: no_digit_def digit_val_def)
  then show ?case using Cons read_number_show [of n] by (simp add: read_separator_def)
qed

lemma parse_show_ipv4: "parse_ip_addr (show_ipv4 a) = Some (V4 a) \<and> parse_ipv4_addr (show_ipv4 a) = Some a"
proof -
  obtain w x y z where b: "be32 a = [w, x, y, z]"
    using length_be_bytes [of 4 a] by (auto simp: length_Suc_conv numeral_eq_Suc simp del: length_be_bytes)
  let ?ns = "[unat x, unat y, unat z]"
  have u: "unat (v :: u8) \<le> 255" for v using unsigned_less [of v, where ?'a = nat] by simp
  have s: "show_ipv4 a = show_nat (unat w) @ concat (map (\<lambda>n. CHR ''.'' # show_nat n) ?ns)"
    by (simp add: show_ipv4_def b)
  let ?rest = "concat (map (\<lambda>n. CHR ''.'' # show_nat n) ?ns)"
  have l3: "length ?ns = 3" by simp
  have "no_digit ?rest" "no_digit []" by (simp_all add: no_digit_def digit_val_def)
  moreover have "read_octets (Suc 0) 3 ?rest = Some (?ns, [])"
    using read_octets_show [of ?ns "[]" 0, unfolded l3] u \<open>no_digit []\<close> by (simp del: read_octets.simps)
  ultimately have "read_octets 0 (Suc 3) (show_ipv4 a) = Some (unat w # ?ns, [])"
    unfolding s read_octets.simps(2) using read_number_show [OF u, of ?rest w]
    by (simp add: read_separator_def del: read_octets.simps concat.simps list.map)
  then have "read_octets 0 4 (show_ipv4 a) = Some (unat w # ?ns, [])" by (simp del: read_octets.simps)
  then have r: "read_ipv4_addr (show_ipv4 a) = Some (a, [])"
    using of_be_bytes_be_bytes [of 4 a] by (simp add: read_ipv4_addr_def b)
  have "length (show_nat (unat v)) \<le> 3" for v :: u8 using show_nat_len [of "unat v" 2] u [of v] by simp
  note l = this [of w] this [of x] this [of y] this [of z]
  have "length (show_ipv4 a) \<le> 15" unfolding s using l by simp
  then show ?thesis using r by (simp add: parse_ip_addr_def parse_with_def read_ip_addr_def parse_ipv4_addr_def)
qed

end
