(* ===== verification/Site_Sm.thy ===== *)
theory Site_Sm
  imports Rust_Strings
begin

text \<open>
  \<open>newt-core/src/proto.rs\<close> (the control-channel messages) and \<open>newt-core/src/sm.rs\<close> (the site
  connector's control state machine), with \<open>to_event\<close> of \<open>newt/src/tunnel.rs\<close>. A JSON value is a
  datatype, an \<open>f64\<close> its 64-bit pattern; turning a JSON value into a message struct is serde's
  work and an argument of \<open>to_event\<close>. The lemmas give the machine's invariant, the discipline of
  its tunnel actions over every run, and when its resend timer fires.
\<close>

section \<open>Messages\<close>

datatype json =
    JNull
  | JBool bool
  | JInt int
  | JFloat u64
  | JString string
  | JArray "json list"
  | JObject "(string \<times> json) list"

record ws_message =
  msg_typ :: string
  msg_data :: json
  config_version :: "int option"

definition PING_REQUEST :: string where "PING_REQUEST = ''newt/ping/request''"
definition PING_EXIT_NODES :: string where "PING_EXIT_NODES = ''newt/ping/exitNodes''"
definition PING :: string where "PING = ''newt/ping''"
definition WG_REGISTER :: string where "WG_REGISTER = ''newt/wg/register''"
definition WG_CONNECT :: string where "WG_CONNECT = ''newt/wg/connect''"
definition WG_RECONNECT :: string where "WG_RECONNECT = ''newt/wg/reconnect''"
definition WG_TERMINATE :: string where "WG_TERMINATE = ''newt/wg/terminate''"
definition TCP_ADD :: string where "TCP_ADD = ''newt/tcp/add''"
definition TCP_REMOVE :: string where "TCP_REMOVE = ''newt/tcp/remove''"
definition SYNC :: string where "SYNC = ''newt/sync''"

lemmas topics =
  PING_REQUEST_def PING_EXIT_NODES_def PING_def WG_REGISTER_def WG_CONNECT_def WG_RECONNECT_def
  WG_TERMINATE_def TCP_ADD_def TCP_REMOVE_def SYNC_def

record exit_node =
  en_id :: int
  en_name :: string
  en_endpoint :: string
  en_weight :: u64
  en_was_previously_connected :: bool

record exit_node_data =
  exit_nodes :: "exit_node list"
  end_chain_id :: string

record ping_result =
  exit_node_id :: int
  latency_ms :: u64
  pr_weight :: u64
  pr_error :: string
  pr_name :: string
  pr_endpoint :: string
  pr_was_previously_connected :: bool

record targets_by_type =
  tcp :: "string list"
  udp :: "string list"

record wg_data =
  wd_endpoint :: string
  wd_public_key :: string
  wd_server_ip :: string
  wd_tunnel_ip :: string
  wd_relay_port :: u16
  wd_targets :: targets_by_type
  wd_chain_id :: string

text \<open>An \<open>f64\<close> in JSON: a number when it is finite (exponent bits not all ones), else null.\<close>

definition f64_to_json :: "u64 \<Rightarrow> json" where
  "f64_to_json x = (if drop_bit 52 x AND 0x7FF = 0x7FF then JNull else JFloat x)"

definition ping_result_to_json :: "ping_result \<Rightarrow> json" where
  "ping_result_to_json r = JObject
     [(''exitNodeId'', JInt (exit_node_id r)),
      (''latencyMs'', f64_to_json (latency_ms r)),
      (''weight'', f64_to_json (pr_weight r)),
      (''error'', JString (pr_error r)),
      (''name'', JString (pr_name r)),
      (''endpoint'', JString (pr_endpoint r)),
      (''wasPreviouslyConnected'', JBool (pr_was_previously_connected r))]"

section \<open>The state machine\<close>

datatype sm_state = Disconnected | RequestingExitNodes | Registering | Connected | Stopped

datatype event =
    WsConnected
  | ExitNodes exit_node_data
  | WgConnect wg_data
  | Reconnect
  | Terminate
  | Tick u64

datatype action = Send ws_message | BringUp wg_data | Teardown | Stop

record sm =
  state :: sm_state
  public_key_b64 :: string
  newt_version :: string
  no_cloud :: bool
  pending_chain_id :: string
  resend_due_ms :: u64

definition PING_RESEND_MS :: u64 where "PING_RESEND_MS = 3000"
definition REGISTER_RESEND_MS :: u64 where "REGISTER_RESEND_MS = 2000"

definition sm_new :: "string \<Rightarrow> string \<Rightarrow> bool \<Rightarrow> sm" where
  "sm_new pk ver nc =
     \<lparr>state = Disconnected, public_key_b64 = pk, newt_version = ver, no_cloud = nc,
      pending_chain_id = [], resend_due_ms = 0\<rparr>"

definition ping_request_msg :: "sm \<Rightarrow> ws_message" where
  "ping_request_msg sm =
     \<lparr>msg_typ = PING_REQUEST,
      msg_data = JObject [(''noCloud'', JBool (no_cloud sm)), (''chainId'', JString (pending_chain_id sm))],
      config_version = None\<rparr>"

definition register_msg :: "sm \<Rightarrow> ping_result list \<Rightarrow> ws_message" where
  "register_msg sm results =
     \<lparr>msg_typ = WG_REGISTER,
      msg_data = JObject
        [(''publicKey'', JString (public_key_b64 sm)),
         (''pingResults'', JArray (map ping_result_to_json results)),
         (''newtVersion'', JString (newt_version sm)),
         (''chainId'', JString (pending_chain_id sm))],
      config_version = None\<rparr>"

fun step_impl :: "sm \<Rightarrow> event \<Rightarrow> action list \<times> sm" where
  "step_impl sm WsConnected =
     (let sm' = sm\<lparr>state := RequestingExitNodes, resend_due_ms := PING_RESEND_MS\<rparr>
      in ([Send (ping_request_msg sm')], sm'))"
| "step_impl sm (ExitNodes d) =
     (if state sm \<noteq> RequestingExitNodes then ([], sm)
      else (case exit_nodes d of
              [] \<Rightarrow> ([], sm)
            | node # _ \<Rightarrow>
                let results = [\<lparr>exit_node_id = en_id node, latency_ms = 0, pr_weight = en_weight node,
                      pr_error = [], pr_name = en_name node, pr_endpoint = en_endpoint node,
                      pr_was_previously_connected = en_was_previously_connected node\<rparr>];
                    sm' = sm\<lparr>state := Registering, resend_due_ms := REGISTER_RESEND_MS\<rparr>
                in ([Send (register_msg sm' results)], sm')))"
| "step_impl sm (WgConnect wg) =
     ((if state sm = Connected then [Teardown] else []) @ [BringUp wg],
      sm\<lparr>state := Connected, resend_due_ms := 0\<rparr>)"
| "step_impl sm Reconnect =
     (let sm' = sm\<lparr>state := RequestingExitNodes, resend_due_ms := PING_RESEND_MS\<rparr>
      in ((if state sm = Connected then [Teardown] else []) @ [Send (ping_request_msg sm')], sm'))"
| "step_impl sm Terminate = ([Teardown, Stop], sm\<lparr>state := Stopped\<rparr>)"
| "step_impl sm (Tick elapsed) =
     (if resend_due_ms sm = 0 then ([], sm)
      else if resend_due_ms sm \<le> elapsed then
        (case state sm of
           RequestingExitNodes \<Rightarrow>
             (let sm' = sm\<lparr>resend_due_ms := PING_RESEND_MS\<rparr> in ([Send (ping_request_msg sm')], sm'))
         | Registering \<Rightarrow>
             (let sm' = sm\<lparr>resend_due_ms := REGISTER_RESEND_MS\<rparr> in ([Send (register_msg sm' [])], sm'))
         | _ \<Rightarrow> ([], sm))
      else ([], sm\<lparr>resend_due_ms := resend_due_ms sm - elapsed\<rparr>))"

text \<open>\<open>to_event\<close> of \<open>tunnel.rs\<close>; \<open>de_nodes\<close> and \<open>de_wg\<close> are serde's \<open>from_value\<close> at the two types.\<close>

definition to_event ::
  "(json \<Rightarrow> exit_node_data option) \<Rightarrow> (json \<Rightarrow> wg_data option) \<Rightarrow> ws_message \<Rightarrow> event option" where
  "to_event de_nodes de_wg msg =
     (if msg_typ msg = PING_EXIT_NODES then map_option ExitNodes (de_nodes (msg_data msg))
      else if msg_typ msg = WG_CONNECT then map_option WgConnect (de_wg (msg_data msg))
      else if msg_typ msg = WG_RECONNECT then Some Reconnect
      else if msg_typ msg = WG_TERMINATE then Some Terminate
      else None)"

text \<open>A whole run: the actions emitted by a sequence of events, and the final state.\<close>

fun sm_run :: "sm \<Rightarrow> event list \<Rightarrow> action list \<times> sm" where
  "sm_run sm [] = ([], sm)"
| "sm_run sm (e # es) =
     (let s = step_impl sm e; r = sm_run (snd s) es in (fst s @ fst r, snd r))"

text \<open>
  What one session of \<open>tunnel.rs\<close> feeds the machine: \<open>WsConnected\<close> once, then the events of the
  received messages and the one-second ticks, in the order they arrive.
\<close>

datatype session_input = Received ws_message | OneSecond

definition session_events ::
  "(json \<Rightarrow> exit_node_data option) \<Rightarrow> (json \<Rightarrow> wg_data option) \<Rightarrow> session_input list \<Rightarrow> event list" where
  "session_events de_nodes de_wg ins =
     WsConnected # List.map_filter (\<lambda>i. case i of Received m \<Rightarrow> to_event de_nodes de_wg m | OneSecond \<Rightarrow> Some (Tick 1000)) ins"

section \<open>Invariant\<close>

text \<open>
  The resend timer is armed, within its period, exactly in the two states that wait for an
  answer; it is off while disconnected or connected.
\<close>

definition sm_inv :: "sm \<Rightarrow> bool" where
  "sm_inv sm \<longleftrightarrow>
     (case state sm of
        Disconnected \<Rightarrow> resend_due_ms sm = 0
      | RequestingExitNodes \<Rightarrow> 0 < resend_due_ms sm \<and> resend_due_ms sm \<le> PING_RESEND_MS
      | Registering \<Rightarrow> 0 < resend_due_ms sm \<and> resend_due_ms sm \<le> REGISTER_RESEND_MS
      | Connected \<Rightarrow> resend_due_ms sm = 0
      | Stopped \<Rightarrow> True)"

lemma sub_keeps_due:
  fixes due e m :: u64
  assumes "due \<noteq> 0" "due \<le> m" "\<not> due \<le> e"
  shows "0 < due - e \<and> due - e \<le> m"
proof -
  have "unat (due - e) = unat due - unat e" using assms by (simp add: unat_sub)
  then show ?thesis using assms by (auto simp: word_less_nat_alt word_le_nat_alt)
qed

lemma tick_inv: "sm_inv sm \<Longrightarrow> sm_inv (snd (step_impl sm (Tick e)))"
  by (auto simp: sm_inv_def PING_RESEND_MS_def REGISTER_RESEND_MS_def word_gt_0 Let_def sub_keeps_due
      split: sm_state.splits)

lemma step_inv [inv_rules]: "sm_inv sm \<Longrightarrow> sm_inv (snd (step_impl sm e))"
proof (cases e)
  case (Tick x)
  then show "sm_inv sm \<Longrightarrow> ?thesis" using tick_inv by simp
next
  case (ExitNodes d)
  then show "sm_inv sm \<Longrightarrow> ?thesis"
    by (cases "exit_nodes d"; cases "state sm") (auto simp: sm_inv_def REGISTER_RESEND_MS_def Let_def)
qed (auto simp: sm_inv_def PING_RESEND_MS_def Let_def)

interpretation site_sm: invariant_system "\<lambda>e sm. snd (step_impl sm e)" sm_inv
  by unfold_locales (rule step_inv)

lemma sm_run_state: "snd (sm_run sm es) = fold (\<lambda>e sm. snd (step_impl sm e)) es sm"
  by (induction es arbitrary: sm) (auto simp: Let_def)

lemma sm_inv_new: "sm_inv (sm_new pk ver nc)"
  by (simp add: sm_inv_def sm_new_def)

section \<open>The tunnel is torn down before it is brought up\<close>

text \<open>
  The state of the tunnel after a list of actions, as \<open>exec\<close> applies them; \<open>None\<close> when a tunnel
  would be brought up while one is still there.
\<close>

fun tunnel_after :: "bool \<Rightarrow> action list \<Rightarrow> bool option" where
  "tunnel_after up [] = Some up"
| "tunnel_after up (Send m # as) = tunnel_after up as"
| "tunnel_after up (BringUp w # as) = (if up then None else tunnel_after True as)"
| "tunnel_after up (Teardown # as) = tunnel_after False as"
| "tunnel_after up (Stop # as) = tunnel_after up as"

lemma tunnel_after_append:
  "tunnel_after up (as @ bs) = Option.bind (tunnel_after up as) (\<lambda>u. tunnel_after u bs)"
  by (induction up as rule: tunnel_after.induct) auto

lemma step_tunnel:
  "e \<noteq> WsConnected \<or> state sm \<noteq> Connected \<Longrightarrow>
     tunnel_after (state sm = Connected) (fst (step_impl sm e)) =
       Some (state (snd (step_impl sm e)) = Connected)"
  by (cases e) (auto simp: Let_def split: list.splits sm_state.splits)

lemma run_tunnel:
  "WsConnected \<notin> set es \<Longrightarrow>
     tunnel_after (state sm = Connected) (fst (sm_run sm es)) = Some (state (snd (sm_run sm es)) = Connected)"
proof (induction es arbitrary: sm)
  case Nil
  then show ?case by simp
next
  case (Cons e es)
  then have "e \<noteq> WsConnected" by auto
  then show ?case using step_tunnel [of e sm] Cons by (simp add: tunnel_after_append Let_def)
qed

lemma to_event_not_connected [simp]: "to_event de_nodes de_wg m \<noteq> Some WsConnected"
  by (auto simp: to_event_def)

lemma session_events_tail:
  "\<exists>es. session_events de_nodes de_wg ins = WsConnected # es \<and> WsConnected \<notin> set es"
  by (auto simp: session_events_def map_filter_def split: session_input.splits)

section \<open>The resend timer\<close>

definition resend_msg :: "sm \<Rightarrow> ws_message" where
  "resend_msg sm = (if state sm = RequestingExitNodes then ping_request_msg sm else register_msg sm [])"

definition waiting :: "sm \<Rightarrow> bool" where
  "waiting sm \<longleftrightarrow> state sm = RequestingExitNodes \<or> state sm = Registering"

lemma ticks_quiet:
  "waiting sm \<Longrightarrow> (\<Sum>e\<leftarrow>es. unat e) < unat (resend_due_ms sm) \<Longrightarrow>
     sm_run sm (map Tick es) = ([], sm\<lparr>resend_due_ms := resend_due_ms sm - sum_list es\<rparr>)"
proof (induction es arbitrary: sm)
  case Nil
  then show ?case by simp
next
  case (Cons e es)
  let ?sm = "sm\<lparr>resend_due_ms := resend_due_ms sm - e\<rparr>"
  have e: "\<not> resend_due_ms sm \<le> e" using Cons.prems by (simp add: word_le_nat_alt)
  then have "unat (resend_due_ms sm - e) = unat (resend_due_ms sm) - unat e" by (simp add: unat_sub)
  then have "(\<Sum>e\<leftarrow>es. unat e) < unat (resend_due_ms ?sm)" using Cons.prems by simp
  moreover have "waiting ?sm" using Cons.prems by (simp add: waiting_def)
  moreover have "resend_due_ms sm \<noteq> 0" using Cons.prems by auto
  ultimately show ?case using Cons.IH [of ?sm] e by (simp add: Let_def diff_diff_eq)
qed

lemma resend_msg_due [simp]: "resend_msg (sm\<lparr>resend_due_ms := t\<rparr>) = resend_msg sm"
  by (simp add: resend_msg_def ping_request_msg_def register_msg_def)

lemma tick_fires:
  "waiting sm \<Longrightarrow> resend_due_ms sm \<noteq> 0 \<Longrightarrow> resend_due_ms sm \<le> e \<Longrightarrow>
     fst (step_impl sm (Tick e)) = [Send (resend_msg sm)]"
  by (auto simp: waiting_def resend_msg_def Let_def ping_request_msg_def register_msg_def)

lemma sm_run_snoc:
  "fst (sm_run sm (es @ [e])) = fst (sm_run sm es) @ fst (step_impl (snd (sm_run sm es)) e)"
  by (induction es arbitrary: sm) (auto simp: Let_def)

section \<open>Properties\<close>

text \<open>
  C24: Over everything a session can receive, in any order, the machine's actions bring a tunnel up
  only when none is up, a tunnel is up at the end exactly when the machine is in \<open>Connected\<close>, and
  the resend timer keeps its invariant (armed, within its period, exactly while an answer is
  awaited).
\<close>

theorem tunnel_discipline:
  "let r = sm_run (sm_new pk ver nc) (session_events de_nodes de_wg ins) in
     tunnel_after False (fst r) = Some (state (snd r) = Connected) \<and> sm_inv (snd r)"
proof -
  obtain es where es: "session_events de_nodes de_wg ins = WsConnected # es" "WsConnected \<notin> set es"
    using session_events_tail by blast
  have "sm_inv (snd (sm_run (sm_new pk ver nc) (WsConnected # es)))"
    unfolding sm_run_state by (rule site_sm.run_inv [OF sm_inv_new])
  then show ?thesis
    using run_tunnel [OF es(2), of "snd (step_impl (sm_new pk ver nc) WsConnected)"] es(1)
    by (simp add: Let_def)
qed

text \<open>
  C29: The resend timer is exact. A machine that waits for an answer, ticked with any sequence of
  elapsed times, sends nothing while their sum stays below the armed delay, and sends exactly the
  message of its state at the tick that reaches it.
\<close>

theorem resend_exactly_when_due:
  assumes "sm_inv sm" and "state sm = RequestingExitNodes \<or> state sm = Registering"
    and "(\<Sum>x\<leftarrow>es. unat x) < unat (resend_due_ms sm)"
  shows "fst (sm_run sm (map Tick es)) = [] \<and>
    (unat (resend_due_ms sm) \<le> (\<Sum>x\<leftarrow>es. unat x) + unat e \<longrightarrow>
       fst (sm_run sm (map Tick (es @ [e]))) = [Send (resend_msg sm)])"
proof -
  have w: "waiting sm" using assms(2) by (simp add: waiting_def)
  let ?sm = "sm\<lparr>resend_due_ms := resend_due_ms sm - sum_list es\<rparr>"
  have run: "sm_run sm (map Tick es) = ([], ?sm)" by (rule ticks_quiet [OF w assms(3)])
  have "unat (sum_list es) = (\<Sum>x\<leftarrow>es. unat x)" using assms(3)
  proof (induction es)
    case (Cons a es)
    then show ?case using unsigned_less [of "resend_due_ms sm", where ?'a = nat]
      by (simp add: unat_word_ariths)
  qed simp
  then have left: "unat (resend_due_ms ?sm) = unat (resend_due_ms sm) - (\<Sum>x\<leftarrow>es. unat x)"
    using assms(3) by (simp add: unat_sub word_le_nat_alt)
  have "fst (sm_run sm (map Tick (es @ [e]))) = [Send (resend_msg sm)]"
    if "unat (resend_due_ms sm) \<le> (\<Sum>x\<leftarrow>es. unat x) + unat e"
  proof -
    have "resend_due_ms ?sm \<le> e" using that left by (simp add: word_le_nat_alt)
    moreover have "resend_due_ms ?sm \<noteq> 0"
      using left assms(3) by (metis diff_is_0_eq not_le unsigned_0)
    moreover have "waiting ?sm" using w by (simp add: waiting_def)
    ultimately show ?thesis using tick_fires [of ?sm e] run by (simp add: sm_run_snoc)
  qed
  then show ?thesis using run by simp
qed

definition waiting_sm :: sm where
  "waiting_sm = snd (step_impl (sm_new ''pk'' ''v'' False) WsConnected)"

theorem resend_exactly_when_due_witness:
  "sm_inv waiting_sm \<and> fst (sm_run waiting_sm (map Tick [1000, 1000])) = [] \<and>
   fst (sm_run waiting_sm (map Tick ([1000, 1000] @ [1000]))) = [Send (resend_msg waiting_sm)]"
proof -
  have s: "state waiting_sm = RequestingExitNodes" "resend_due_ms waiting_sm = 3000"
    by (simp_all add: waiting_sm_def PING_RESEND_MS_def Let_def)
  have "sm_inv waiting_sm" using s by (simp add: sm_inv_def PING_RESEND_MS_def)
  then show ?thesis using resend_exactly_when_due [of waiting_sm "[1000, 1000]" 1000] s by simp
qed

end
