(* ===== verification/Ws_Frames.thy ===== *)
theory Ws_Frames
  imports Clock Site_Sm
begin

text \<open>
  The WebSocket client of \<open>newt/src/transport/ws.rs\<close> over a byte stream. The connection is the bytes still to come from the
  server, the bytes written so far, for each write to come whether it succeeds, and how the stream
  ends: with an error of the transport, or by closing, when reading past the end is the
  end-of-file error. serde is a parameter (\<open>de_msg\<close>, \<open>ser_msg\<close>). The plain and the TLS stream
  behave alike here, so the two variants of \<open>Inner\<close> are one.
\<close>

section \<open>Streams\<close>

datatype io_error = Other string | UnexpectedEof | OsError

record stream =
  st_in :: bytes
  st_out :: bytes
  st_ok :: "nat \<Rightarrow> bool"
  st_end :: "io_error option"

definition read_exact :: "nat \<Rightarrow> stream \<Rightarrow> (io_error + bytes) \<times> stream" where
  "read_exact n s =
     (if length (st_in s) < n then (Inl (case st_end s of Some e \<Rightarrow> e | None \<Rightarrow> UnexpectedEof), s\<lparr>st_in := []\<rparr>)
      else (Inr (take n (st_in s)), s\<lparr>st_in := drop n (st_in s)\<rparr>))"

text \<open>\<open>write_all\<close> followed by \<open>flush\<close>.\<close>

definition write_all :: "bytes \<Rightarrow> stream \<Rightarrow> (io_error + unit) \<times> stream" where
  "write_all b s =
     (let s' = s\<lparr>st_ok := (\<lambda>k. st_ok s (k + 1))\<rparr>
      in if st_ok s 0 then (Inr (), s'\<lparr>st_out := st_out s @ b\<rparr>) else (Inl OsError, s'))"

definition str_bytes :: "string \<Rightarrow> bytes" where
  "str_bytes s = map (\<lambda>c. of_nat (of_char c)) s"

section \<open>Frames\<close>

definition MAX_FRAME :: nat where "MAX_FRAME = 16 * 1024 * 1024"

definition masked :: "bytes \<Rightarrow> bytes \<Rightarrow> bytes" where
  "masked m p = map (\<lambda>(i, x). x XOR m ! (i mod 4)) (enumerate 0 p)"

definition frame_head :: "bool \<Rightarrow> u8 \<Rightarrow> u8 \<Rightarrow> nat \<Rightarrow> bytes" where
  "frame_head fin opcode mask_bit len =
     (if fin then 0x80 OR opcode else opcode) #
     (if len < 126 then [mask_bit OR of_nat len]
      else if len \<le> 65535 then (mask_bit OR 126) # be16 (of_nat len)
      else (mask_bit OR 127) # be64 (of_nat len))"

definition write_frame :: "u8 \<Rightarrow> bytes \<Rightarrow> stream \<Rightarrow> world \<Rightarrow> (io_error + unit) \<times> stream \<times> world" where
  "write_frame opcode payload s w =
     (let (m, w) = fill_bytes 4 w;
          frame = frame_head True opcode 0x80 (length payload) @ m @ masked m payload;
          (r, s) = write_all frame s
      in (r, s, w))"

text \<open>The length field of a frame, whose second byte is \<open>h1\<close>.\<close>

definition read_len :: "u8 \<Rightarrow> stream \<Rightarrow> (io_error + nat) \<times> stream" where
  "read_len h1 s =
     (let n = h1 AND 0x7f in
      if n = 126 then (case read_exact 2 s of (Inl e, s) \<Rightarrow> (Inl e, s) | (Inr l, s) \<Rightarrow> (Inr (unat (of_be_bytes l :: u16)), s))
      else if n = 127 then (case read_exact 8 s of (Inl e, s) \<Rightarrow> (Inl e, s) | (Inr l, s) \<Rightarrow> (Inr (unat (of_be_bytes l :: u64)), s))
      else (Inr (unat n), s))"

definition read_frame :: "stream \<Rightarrow> (io_error + bool \<times> u8 \<times> bytes) \<times> stream" where
  "read_frame s =
     (case read_exact 2 s of
        (Inl e, s) \<Rightarrow> (Inl e, s)
      | (Inr h, s) \<Rightarrow>
          let fin = (h ! 0 AND 0x80 \<noteq> 0); opcode = h ! 0 AND 0x0f; mskd = (h ! 1 AND 0x80 \<noteq> 0) in
          case read_len (h ! 1) s of
            (Inl e, s) \<Rightarrow> (Inl e, s)
          | (Inr len, s) \<Rightarrow>
              if MAX_FRAME < len then (Inl (Other ''websocket frame too large''), s)
              else
                case (if mskd then (case read_exact 4 s of (Inl e, s) \<Rightarrow> (Inl e, s) | (Inr m, s) \<Rightarrow> (Inr (Some m), s))
                      else (Inr None, s)) of
                  (Inl e, s) \<Rightarrow> (Inl e, s)
                | (Inr mk, s) \<Rightarrow>
                    (case read_exact len s of
                       (Inl e, s) \<Rightarrow> (Inl e, s)
                     | (Inr p, s) \<Rightarrow> (Inr (fin, opcode, case mk of Some m \<Rightarrow> masked m p | None \<Rightarrow> p), s)))"

definition ws_send :: "(ws_message \<Rightarrow> string + string) \<Rightarrow> ws_message \<Rightarrow> stream \<Rightarrow> world \<Rightarrow> (io_error + unit) \<times> stream \<times> world" where
  "ws_send ser_msg m s w =
     (case ser_msg m of
        Inl e \<Rightarrow> (Inl (Other e), s, w)
      | Inr text \<Rightarrow> write_frame 0x1 (str_bytes text) s w)"

lemma read_exact_shrinks: "read_exact n s = (r, s') \<Longrightarrow> length (st_in s') \<le> length (st_in s)"
  by (auto simp: read_exact_def split: if_splits)

lemma read_len_shrinks: "read_len h s = (r, s') \<Longrightarrow> length (st_in s') \<le> length (st_in s)"
  by (auto simp: read_len_def Let_def dest!: read_exact_shrinks split: if_splits prod.splits sum.splits)

lemma read_frame_shrinks:
  assumes "read_frame s = (Inr x, s')"
  shows "length (st_in s') < length (st_in s)"
proof -
  obtain h s1 where 1: "read_exact 2 s = (Inr h, s1)"
    using assms by (cases "read_exact 2 s"; cases "fst (read_exact 2 s)") (auto simp: read_frame_def)
  have "length (st_in s1) + 2 = length (st_in s)" using 1 by (auto simp: read_exact_def split: if_splits)
  moreover have "length (st_in s') \<le> length (st_in s1)"
    using assms 1
    by (auto simp: read_frame_def Let_def dest!: read_exact_shrinks read_len_shrinks split: if_splits prod.splits sum.splits)
  ultimately show ?thesis by simp
qed

lemma write_frame_in: "write_frame opc p s w = (r, s', w') \<Longrightarrow> st_in s' = st_in s"
  by (auto simp: write_frame_def write_all_def Let_def case_prod_beta split: if_splits)

text \<open>The loop of \<open>recv\<close>, with the message collected so far and whether it is text.\<close>

function recv_loop ::
  "(bytes \<Rightarrow> string + ws_message) \<Rightarrow> bytes \<Rightarrow> bool \<Rightarrow> stream \<Rightarrow> world \<Rightarrow> (io_error + ws_message option) \<times> stream \<times> world" where
  "recv_loop de_msg msg is_text s w =
     (case read_frame s of
        (Inl e, s) \<Rightarrow> (Inl e, s, w)
      | (Inr (fin, opcode, payload), s) \<Rightarrow>
          if opcode = 0x9 then
            (case write_frame 0xA payload s w of
               (Inl e, s, w) \<Rightarrow> (Inl e, s, w)
             | (Inr _, s, w) \<Rightarrow> recv_loop de_msg msg is_text s w)
          else if opcode = 0xA then recv_loop de_msg msg is_text s w
          else if opcode = 0x8 then (Inr None, s, w)
          else if opcode = 0x0 \<or> opcode = 0x1 \<or> opcode = 0x2 then
            let (msg, is_text) = (if opcode = 0x1 then ([], True) else if opcode = 0x2 then ([], False) else (msg, is_text));
                msg = msg @ payload
            in if fin then
                 if is_text then
                   (case de_msg msg of Inl e \<Rightarrow> (Inl (Other e), s, w) | Inr m \<Rightarrow> (Inr (Some m), s, w))
                 else recv_loop de_msg [] is_text s w
               else recv_loop de_msg msg is_text s w
          else (Inl (Other ''unknown websocket opcode''), s, w))"
  by pat_completeness auto

termination
  by (relation "measure (\<lambda>(_, _, _, s, _). length (st_in s))")
     (auto dest!: sym [where t = "read_frame _"] sym [where t = "write_frame _ _ _ _"] read_frame_shrinks write_frame_in)

declare recv_loop.simps [simp del]

definition recv :: "(bytes \<Rightarrow> string + ws_message) \<Rightarrow> stream \<Rightarrow> world \<Rightarrow> (io_error + ws_message option) \<times> stream \<times> world" where
  "recv de_msg s w = recv_loop de_msg [] False s w"

text \<open>
  \<open>recv\<close> as a branch of a \<open>select!\<close> that another branch wins when \<open>k\<close> bytes have arrived: it was still
  waiting for the rest of a frame and is dropped, with all it has read, after answering the pings
  among it. If the \<open>k\<close> bytes are enough for it to return, it is not dropped.
\<close>

definition recv_dropped :: "(bytes \<Rightarrow> string + ws_message) \<Rightarrow> nat \<Rightarrow> stream \<Rightarrow> world \<Rightarrow> stream \<times> world" where
  "recv_dropped de_msg k s w =
     (case recv de_msg (s\<lparr>st_end := None, st_in := take k (st_in s)\<rparr>) w of
        (Inl UnexpectedEof, s', w') \<Rightarrow> (s'\<lparr>st_end := st_end s, st_in := drop k (st_in s)\<rparr>, w')
      | _ \<Rightarrow> (s, w))"

section \<open>One frame\<close>

lemma masked_masked [simp]: "masked m (masked m p) = p"
  by (intro nth_equalityI) (simp_all add: masked_def nth_enumerate_eq xor.assoc)

lemma length_masked [simp]: "length (masked m p) = length p"
  by (simp add: masked_def)

lemma small_and_7f: "n < 128 \<Longrightarrow> (of_nat n :: u8) AND 0x7f = of_nat n"
proof -
  assume n: "n < 128"
  have "(of_nat n :: u8) AND mask 7 = take_bit 7 (of_nat n)" by (simp only: take_bit_eq_mask)
  also have "\<dots> = of_nat (take_bit 7 n)" by (simp add: take_bit_of_nat)
  also have "take_bit 7 n = n" using n by (simp add: take_bit_nat_eq_self)
  finally show ?thesis by (simp add: mask_eq_exp_minus_1)
qed

lemma small_and_80: "n < 128 \<Longrightarrow> (of_nat n :: u8) AND 0x80 = 0"
  using arg_cong [OF small_and_7f, of n "\<lambda>w. w AND 0x80"] by (simp add: and.assoc)

lemma opcode_bits:
  assumes "op AND 0x0f = (op :: u8)"
  shows "op AND 0x80 = 0" "(0x80 OR op) AND 0x80 = 0x80" "(0x80 OR op) AND 0x0f = op"
proof -
  show 0: "op AND 0x80 = 0" using arg_cong [OF assms, of "\<lambda>w. w AND 0x80"] by (simp add: and.assoc)
  show "(0x80 OR op) AND 0x80 = 0x80" "(0x80 OR op) AND 0x0f = op"
    using 0 assms by (simp_all add: bit.conj_disj_distrib2)
qed

lemma read_exact_append [simp]: "length xs = n \<Longrightarrow> read_exact n (s\<lparr>st_in := xs @ ys\<rparr>) = (Inr xs, s\<lparr>st_in := ys\<rparr>)"
  by (auto simp: read_exact_def)

text \<open>The length field, up to the largest frame accepted.\<close>

definition len_bytes :: "nat \<Rightarrow> bytes" where
  "len_bytes len = (if len < 126 then [] else if len \<le> 65535 then be16 (of_nat len) else be64 (of_nat len))"

definition len_byte :: "u8 \<Rightarrow> nat \<Rightarrow> u8" where
  "len_byte mask_bit len = mask_bit OR (if len < 126 then of_nat len else if len \<le> 65535 then 126 else 127)"

lemma frame_head_eq:
  "frame_head fin opc mask_bit len = [if fin then 0x80 OR opc else opc, len_byte mask_bit len] @ len_bytes len"
  by (simp add: frame_head_def len_byte_def len_bytes_def)

lemma len_byte_bits:
  assumes "mask_bit = 0 \<or> mask_bit = 0x80"
  shows "len_byte mask_bit len AND 0x80 = mask_bit"
    "len_byte mask_bit len AND 0x7f = (if len < 126 then of_nat len else if len \<le> 65535 then 126 else 127)"
  using assms by (auto simp: len_byte_def bit.conj_disj_distrib2 small_and_7f small_and_80)

lemma read_len_bytes:
  assumes "mask_bit = 0 \<or> mask_bit = 0x80" "len \<le> MAX_FRAME"
  shows "read_len (len_byte mask_bit len) (s\<lparr>st_in := len_bytes len @ rest\<rparr>) = (Inr len, s\<lparr>st_in := rest\<rparr>)"
proof -
  have small: "of_nat len \<noteq> (126 :: u8)" "of_nat len \<noteq> (127 :: u8)" if "len < 126"
    using that by (simp_all add: word_unat_eq_iff unat_of_nat_small)
  have "len < 2 ^ 64" using assms(2) by (simp add: MAX_FRAME_def)
  then have "unat (of_nat len :: u64) = len" by (simp add: unat_of_nat_small)
  moreover have "unat (of_nat len :: u16) = len" if "len \<le> 65535" using that by (simp add: unat_of_nat_small)
  moreover have "unat (of_nat len :: u8) = len" if "len < 126" using that by (simp add: unat_of_nat_small)
  ultimately show ?thesis
    using small by (auto simp: read_len_def Let_def len_byte_bits [OF assms(1)] len_bytes_def)
qed

lemma read_frame_unmasked:
  assumes "opc AND 0x0f = opc" "length p \<le> MAX_FRAME"
  shows "read_frame (s\<lparr>st_in := frame_head fin opc 0 (length p) @ p @ rest\<rparr>) = (Inr (fin, opc, p), s\<lparr>st_in := rest\<rparr>)"
proof -
  have "read_exact 2 (s\<lparr>st_in := frame_head fin opc 0 (length p) @ p @ rest\<rparr>) =
    (Inr [if fin then 0x80 OR opc else opc, len_byte 0 (length p)], s\<lparr>st_in := len_bytes (length p) @ p @ rest\<rparr>)"
    unfolding frame_head_eq append_assoc by (rule read_exact_append) simp
  then show ?thesis
    using assms read_len_bytes [where mask_bit = 0 and len = "length p" and s = s and rest = "p @ rest"]
    by (simp add: read_frame_def Let_def len_byte_bits opcode_bits)
qed

lemma read_frame_masked:
  assumes "opc AND 0x0f = opc" "length p \<le> MAX_FRAME" "length m = 4"
  shows "read_frame (s\<lparr>st_in := frame_head fin opc 0x80 (length p) @ m @ masked m p @ rest\<rparr>) = (Inr (fin, opc, p), s\<lparr>st_in := rest\<rparr>)"
proof -
  have "read_exact 2 (s\<lparr>st_in := frame_head fin opc 0x80 (length p) @ m @ masked m p @ rest\<rparr>) =
    (Inr [if fin then 0x80 OR opc else opc, len_byte 0x80 (length p)], s\<lparr>st_in := len_bytes (length p) @ m @ masked m p @ rest\<rparr>)"
    unfolding frame_head_eq append_assoc by (rule read_exact_append) simp
  then show ?thesis
    using assms read_len_bytes [where mask_bit = "0x80" and len = "length p" and s = s and rest = "m @ masked m p @ rest"]
    by (simp add: read_frame_def Let_def len_byte_bits opcode_bits)
qed

section \<open>Messages\<close>

text \<open>
  A frame as the server sends it (unmasked), and a text message in fragments with control frames
  between them: \<open>items\<close> are the fragments but the last and the control frames before it.
\<close>

definition server_frame :: "bool \<Rightarrow> u8 \<Rightarrow> bytes \<Rightarrow> bytes" where
  "server_frame fin opc p = frame_head fin opc 0 (length p) @ p"

datatype item = Part bytes | PingFrame bytes | PongFrame bytes

fun item_payload :: "item \<Rightarrow> bytes" where
  "item_payload (Part p) = p"
| "item_payload (PingFrame p) = p"
| "item_payload (PongFrame p) = p"

fun fragmented :: "bool \<Rightarrow> item list \<Rightarrow> bytes \<Rightarrow> bytes" where
  "fragmented started [] lst = server_frame True (if started then 0 else 1) lst"
| "fragmented started (Part p # its) lst = server_frame False (if started then 0 else 1) p @ fragmented True its lst"
| "fragmented started (PingFrame p # its) lst = server_frame True 9 p @ fragmented started its lst"
| "fragmented started (PongFrame p # its) lst = server_frame True 10 p @ fragmented started its lst"

definition msg_parts :: "item list \<Rightarrow> bytes" where
  "msg_parts its = concat (map (\<lambda>i. case i of Part p \<Rightarrow> p | _ \<Rightarrow> []) its)"

definition pings :: "item list \<Rightarrow> bytes list" where
  "pings its = concat (map (\<lambda>i. case i of PingFrame p \<Rightarrow> [p] | _ \<Rightarrow> []) its)"

text \<open>What a peer reads from a stream of frames that are all complete.\<close>

function frames_of :: "bytes \<Rightarrow> (bool \<times> u8 \<times> bytes) list option" where
  "frames_of bs =
     (if bs = [] then Some []
      else case read_frame \<lparr>st_in = bs, st_out = [], st_ok = \<lambda>_. True, st_end = None\<rparr> of
             (Inl _, _) \<Rightarrow> None
           | (Inr f, s) \<Rightarrow> map_option (Cons f) (frames_of (st_in s)))"
  by pat_completeness auto

termination
  by (relation "measure length") (auto dest!: sym [where t = "read_frame _"] read_frame_shrinks)

declare frames_of.simps [simp del]

lemma frames_of_Nil [simp]: "frames_of [] = Some []"
  by (simp add: frames_of.simps)

lemma frames_of_client_frame:
  assumes "opc AND 0x0f = opc" "length p \<le> MAX_FRAME" "length m = 4"
  shows "frames_of (frame_head True opc 0x80 (length p) @ m @ masked m p @ rest) = map_option (Cons (True, opc, p)) (frames_of rest)"
  using read_frame_masked [OF assms, where s = "\<lparr>st_in = [], st_out = [], st_ok = \<lambda>_. True, st_end = None\<rparr>" and fin = True and rest = rest]
  by (subst frames_of.simps) (simp add: frame_head_eq)

text \<open>A successful write appends one frame with a fresh mask.\<close>

definition client_frame :: "u8 \<Rightarrow> bytes \<Rightarrow> world \<Rightarrow> bytes" where
  "client_frame opc p w = (let m = fst (fill_bytes 4 w) in frame_head True opc 0x80 (length p) @ m @ masked m p)"

lemma write_frame_ok:
  assumes "\<forall>k. st_ok s k"
  shows "write_frame opc p s w = (Inr (), s\<lparr>st_out := st_out s @ client_frame opc p w\<rparr>, snd (fill_bytes 4 w))"
  using assms by (simp add: write_frame_def write_all_def client_frame_def Let_def case_prod_beta fun_eq_iff)

fun pongs :: "bytes list \<Rightarrow> world \<Rightarrow> bytes \<times> world" where
  "pongs [] w = ([], w)"
| "pongs (p # ps) w = (let (out, w') = pongs ps (snd (fill_bytes 4 w)) in (client_frame 0xA p w @ out, w'))"

lemma frames_of_pongs:
  assumes "\<forall>p \<in> set ps. length p \<le> MAX_FRAME"
  shows "frames_of (fst (pongs ps w)) = Some (map (\<lambda>p. (True, 0xA, p)) ps)"
  using assms
  by (induction ps arbitrary: w) (simp_all add: case_prod_beta client_frame_def Let_def frames_of_client_frame)

lemma out_in_commute: "s\<lparr>st_out := b, st_in := a\<rparr> = s\<lparr>st_in := a, st_out := b\<rparr>"
  by simp

lemma recv_loop_fragmented:
  assumes "\<forall>k. st_ok s k" "\<forall>i \<in> set its. length (item_payload i) \<le> MAX_FRAME" "length lst \<le> MAX_FRAME"
    and "started \<Longrightarrow> is_text"
    and "de_msg ((if started then msg else []) @ msg_parts its @ lst) = Inr m"
  shows "recv_loop de_msg msg is_text (s\<lparr>st_in := fragmented started its lst @ rest\<rparr>) w =
    (Inr (Some m), s\<lparr>st_in := rest, st_out := st_out s @ fst (pongs (pings its) w)\<rparr>, snd (pongs (pings its) w))"
  using assms
proof (induction its arbitrary: started is_text msg s w)
  case Nil
  then show ?case
    by (subst recv_loop.simps) (cases started; simp add: server_frame_def read_frame_unmasked msg_parts_def pings_def)
next
  case (Cons i its)
  note frame = read_frame_unmasked [where p = "item_payload i" and s = s]
  show ?case
  proof (cases i)
    case (Part p)
    then have "de_msg ((if True then (if started then msg else []) @ p else []) @ msg_parts its @ lst) = Inr m"
      using Cons.prems(5) by (simp add: msg_parts_def)
    from Cons.IH [OF Cons.prems(1) _ Cons.prems(3) _ this, of True w] Part Cons.prems(2, 4) frame
    show ?thesis
      by (subst recv_loop.simps) (cases started; simp add: server_frame_def pings_def)
  next
    case (PingFrame p)
    let ?s = "s\<lparr>st_out := st_out s @ client_frame 10 p w\<rparr>"
    have "de_msg ((if started then msg else []) @ msg_parts its @ lst) = Inr m"
      using Cons.prems(5) PingFrame by (simp add: msg_parts_def)
    from Cons.IH [OF _ _ Cons.prems(3, 4) this, of ?s] PingFrame Cons.prems(1, 2) frame
    show ?thesis
      by (subst recv_loop.simps) (simp add: server_frame_def pings_def write_frame_ok case_prod_beta out_in_commute)
  next
    case (PongFrame p)
    have "de_msg ((if started then msg else []) @ msg_parts its @ lst) = Inr m"
      using Cons.prems(5) PongFrame by (simp add: msg_parts_def)
    from Cons.IH [OF Cons.prems(1) _ Cons.prems(3, 4) this] PongFrame Cons.prems(2) frame
    show ?thesis
      by (subst recv_loop.simps) (simp add: server_frame_def pings_def)
  qed
qed

section \<open>Properties\<close>

text \<open>
  C26: A frame the client writes (\<open>write_frame\<close>, any four-bit opcode, a payload of at most
  \<open>MAX_FRAME\<close> bytes, every length encoding) is read back by \<open>read_frame\<close> as a final frame of that
  opcode and payload, whatever the mask drawn, and the bytes that follow it stay unread.
\<close>

theorem frame_round_trip:
  assumes "write_frame opc p s w = (Inr (), s', w')"
    and "opc AND 0x0f = opc" "length p \<le> MAX_FRAME"
  shows "\<exists>f. st_out s' = st_out s @ f \<and> length f \<le> length p + 14
    \<and> read_frame (t\<lparr>st_in := f @ rest\<rparr>) = (Inr (True, opc, p), t\<lparr>st_in := rest\<rparr>)"
proof -
  let ?m = "fst (fill_bytes 4 w)"
  let ?f = "frame_head True opc 0x80 (length p) @ ?m @ masked ?m p"
  have "st_out s' = st_out s @ ?f"
    using assms(1) by (auto simp: write_frame_def write_all_def Let_def case_prod_beta split: if_splits)
  moreover have "length ?f \<le> length p + 14" by (simp add: frame_head_eq len_bytes_def)
  moreover have "read_frame (t\<lparr>st_in := ?f @ rest\<rparr>) = (Inr (True, opc, p), t\<lparr>st_in := rest\<rparr>)"
    using read_frame_masked [OF assms(2, 3), where m = ?m and s = t and rest = rest] by simp
  ultimately show ?thesis by blast
qed

definition ws_world :: world where
  "ws_world = \<lparr>w_instants = \<lambda>_. \<lparr>tv_sec = 0, tv_nsec = 0\<rparr>, w_system = \<lambda>_. 0, w_random = of_nat\<rparr>"

definition demo_stream :: stream where
  "demo_stream = \<lparr>st_in = [], st_out = [], st_ok = \<lambda>_. True, st_end = None\<rparr>"

theorem frame_round_trip_witness:
  "\<exists>f. st_out (fst (snd (write_frame 1 (replicate 200 7) demo_stream ws_world))) = f \<and> length f \<le> 214
    \<and> read_frame (demo_stream\<lparr>st_in := f @ [5]\<rparr>) = (Inr (True, 1, replicate 200 7), demo_stream\<lparr>st_in := [5]\<rparr>)"
proof -
  let ?r = "write_frame 1 (replicate 200 7) demo_stream ws_world"
  have "?r = (Inr (), fst (snd ?r), snd (snd ?r))"
    by (subst (1) write_frame_ok) (simp_all add: demo_stream_def write_frame_ok)
  from frame_round_trip [OF this, where t = demo_stream and rest = "[5]"] show ?thesis
    by (simp add: demo_stream_def MAX_FRAME_def)
qed

text \<open>
  C11: A text message the server sends in any number of fragments, with pings and pongs between
  them, is received whole: \<open>recv\<close> returns what serde makes of the concatenated fragments, reads
  nothing past the last one, and meanwhile has written exactly one pong for each ping, in
  order and with the ping's payload, each readable by the server.
\<close>

theorem recv_reassembles:
  assumes "\<forall>k. st_ok s k"
    and "\<forall>i \<in> set its. length (item_payload i) \<le> MAX_FRAME" "length lst \<le> MAX_FRAME"
    and "de_msg (msg_parts its @ lst) = Inr m"
  shows "\<exists>out w'. recv de_msg (s\<lparr>st_in := fragmented False its lst @ rest\<rparr>) w
      = (Inr (Some m), s\<lparr>st_in := rest, st_out := st_out s @ out\<rparr>, w')
    \<and> frames_of out = Some (map (\<lambda>p. (True, 0xA, p)) (pings its))"
proof -
  have "\<forall>p \<in> set (pings its). length p \<le> MAX_FRAME"
    using assms(2) by (fastforce simp: pings_def split: item.splits)
  then show ?thesis
    using recv_loop_fragmented [OF assms(1-3), of False False de_msg "[]" m rest w] assms(4) frames_of_pongs
    by (auto simp: recv_def)
qed

definition demo_message :: ws_message where
  "demo_message = \<lparr>msg_typ = ''newt/wg/terminate'', msg_data = JNull, config_version = None\<rparr>"

theorem recv_reassembles_witness:
  "\<exists>out w'. recv (\<lambda>b. if b = [1, 2, 3] then Inr demo_message else Inl [])
      (demo_stream\<lparr>st_in := fragmented False [PingFrame [9], Part [1], PingFrame [8], Part []] [2, 3] @ [6]\<rparr>) ws_world
      = (Inr (Some demo_message), demo_stream\<lparr>st_in := [6], st_out := out\<rparr>, w')
    \<and> frames_of out = Some [(True, 0xA, [9]), (True, 0xA, [8])]"
  using recv_reassembles [where s = demo_stream and its = "[PingFrame [9], Part [1], PingFrame [8], Part []]" and lst = "[2, 3]"
      and de_msg = "\<lambda>b. if b = [1, 2, 3] then Inr demo_message else Inl []" and m = demo_message and rest = "[6]" and w = ws_world]
  by (simp add: demo_stream_def MAX_FRAME_def msg_parts_def pings_def)

text \<open>
  C23: A dropped receive loses the connection. A text frame that carries a message of at least 36 bytes, beginning with
  \<open>{"\<close> as every JSON object does, is received as that message; but when another branch wins after the head of
  the frame has arrived, the next receive takes the payload for a frame and fails, which ends the session.
\<close>

theorem dropped_receive_loses_session:
  assumes "take 2 p = [0x7b, 0x22]" "36 \<le> length p" "length p \<le> MAX_FRAME" "de_msg p = Inr m"
    and "st_in s = server_frame True 1 p @ rest" "recv_dropped de_msg (length (frame_head True 1 0 (length p))) s w = (s', w')"
  shows "fst (recv de_msg s w) = Inr (Some m) \<and> st_in s' = p @ rest
    \<and> fst (recv de_msg s' w'') = Inl (Other ''unknown websocket opcode'')"
proof -
  have "s = s\<lparr>st_in := frame_head True 1 0 (length p) @ p @ rest\<rparr>"
    using assms(5) by (cases s) (simp add: server_frame_def)
  then have whole: "read_frame s = (Inr (True, 1, p), s\<lparr>st_in := rest\<rparr>)"
    using read_frame_unmasked [where opc = 1 and p = p and s = s and fin = True and rest = rest] assms(3) by simp
  let ?t = "s\<lparr>st_end := None, st_in := frame_head True 1 0 (length p)\<rparr>"
  have head: "read_frame ?t = (Inl UnexpectedEof, ?t\<lparr>st_in := []\<rparr>)"
  proof -
    have "read_exact 2 ?t = (Inr [0x80 OR 1, len_byte 0 (length p)], ?t\<lparr>st_in := len_bytes (length p)\<rparr>)"
      using read_exact_append [where xs = "[0x80 OR 1, len_byte 0 (length p)]" and n = 2 and s = ?t and ys = "len_bytes (length p)"] by (simp add: frame_head_eq)
    moreover have "read_len (len_byte 0 (length p)) (?t\<lparr>st_in := len_bytes (length p)\<rparr>) = (Inr (length p), ?t\<lparr>st_in := []\<rparr>)"
      using read_len_bytes [where mask_bit = 0 and len = "length p" and s = ?t and rest = "[]"] assms(3) by simp
    moreover have "read_exact (length p) (?t\<lparr>st_in := []\<rparr>) = (Inl UnexpectedEof, ?t\<lparr>st_in := []\<rparr>)"
      using assms(2) by (cases p) (auto simp: read_exact_def)
    ultimately show ?thesis using assms(3) by (simp add: read_frame_def Let_def len_byte_bits)
  qed
  have s': "s' = s\<lparr>st_in := p @ rest\<rparr>"
    using assms(5,6) head by (auto simp: recv_dropped_def recv_def recv_loop.simps [of de_msg "[]" False ?t] server_frame_def)
  obtain q where q: "p = 0x7b # 0x22 # q" "34 \<le> length q"
    using assms(1,2) by (cases p; cases "tl p") auto
  have "read_exact 2 s' = (Inr [0x7b, 0x22], s\<lparr>st_in := q @ rest\<rparr>)"
    using read_exact_append [where xs = "[0x7b, 0x22]" and n = 2 and s = s and ys = "q @ rest"] by (simp add: s' q(1))
  moreover have "read_len 0x22 t = (Inr 34, t)" for t by (simp add: read_len_def)
  moreover have "read_exact 34 (s\<lparr>st_in := q @ rest\<rparr>) = (Inr (take 34 q), s\<lparr>st_in := drop 34 q @ rest\<rparr>)"
    using q(2) by (simp add: read_exact_def)
  ultimately have "read_frame s' = (Inr (False, 0xb, take 34 q), s'\<lparr>st_in := drop 34 q @ rest\<rparr>)"
    by (simp add: read_frame_def s' MAX_FRAME_def)
  then have "recv_loop de_msg [] False s' w'' = (Inl (Other ''unknown websocket opcode''), s'\<lparr>st_in := drop 34 q @ rest\<rparr>, w'')"
    by (subst recv_loop.simps) simp
  then show ?thesis using whole assms(4) s'
    by (simp add: recv_def recv_loop.simps [of de_msg "[]" False s])
qed

theorem dropped_receive_loses_session_witness:
  "fst (recv (\<lambda>_. Inr demo_message) (fst (recv_dropped (\<lambda>_. Inr demo_message) 2
      (demo_stream\<lparr>st_in := server_frame True 1 (0x7b # 0x22 # replicate 40 0x61)\<rparr>) ws_world)) ws_world)
     = Inl (Other ''unknown websocket opcode'')"
  using dropped_receive_loses_session [where p = "0x7b # 0x22 # replicate 40 0x61" and de_msg = "\<lambda>_. Inr demo_message" and rest = "[]"
      and s = "demo_stream\<lparr>st_in := server_frame True 1 (0x7b # 0x22 # replicate 40 0x61)\<rparr>" and w = ws_world and w'' = ws_world,
      OF _ _ _ _ _ prod.collapse [symmetric]]
  by (simp add: MAX_FRAME_def frame_head_def numeral_2_eq_2)

end
