(* ===== verification/Transport.thy ===== *)
theory Transport
  imports Ws_Frames Rust_Strings
begin

text \<open>
  Reaching the server: \<open>transport/token.rs\<close> (splitting the endpoint, the token request and its
  answer) and the WebSocket upgrade of \<open>transport/ws.rs\<close>. Connecting a socket, the TLS handshake
  and its server names, base64 and serde are parameters; the lossy UTF-8 decoding of the standard
  library is modelled.
\<close>

section \<open>Standard library: lossy UTF-8\<close>

text \<open>
  \<open>String::from_utf8_lossy\<close>: the length of the next sequence and whether it is a valid character.
  An invalid sequence, taken as long as it could still have been completed, becomes U+FFFD.
\<close>

definition cont :: "u8 list \<Rightarrow> nat \<Rightarrow> u8 \<Rightarrow> u8 \<Rightarrow> bool" where
  "cont bs i lo hi = (i < length bs \<and> lo \<le> bs ! i \<and> bs ! i \<le> hi)"

definition utf8_next :: "bytes \<Rightarrow> nat \<times> bool" where
  "utf8_next bs =
     (let b = bs ! 0 in
      if b < 0x80 then (1, True)
      else if 0xC2 \<le> b \<and> b \<le> 0xDF then (if cont bs 1 0x80 0xBF then (2, True) else (1, False))
      else if 0xE0 \<le> b \<and> b \<le> 0xEF then
        (if \<not> cont bs 1 (if b = 0xE0 then 0xA0 else 0x80) (if b = 0xED then 0x9F else 0xBF) then (1, False)
         else if cont bs 2 0x80 0xBF then (3, True) else (2, False))
      else if 0xF0 \<le> b \<and> b \<le> 0xF4 then
        (if \<not> cont bs 1 (if b = 0xF0 then 0x90 else 0x80) (if b = 0xF4 then 0x8F else 0xBF) then (1, False)
         else if \<not> cont bs 2 0x80 0xBF then (2, False)
         else if cont bs 3 0x80 0xBF then (4, True) else (3, False))
      else (1, False))"

definition bytes_str :: "bytes \<Rightarrow> string" where
  "bytes_str bs = map (\<lambda>b. char_of (unat b)) bs"

lemma utf8_next_pos: "0 < fst (utf8_next bs)"
  by (simp add: utf8_next_def Let_def)

function from_utf8_lossy :: "bytes \<Rightarrow> string" where
  "from_utf8_lossy bs =
     (if bs = [] then []
      else let (n, valid) = utf8_next bs
           in bytes_str (if valid then take n bs else [0xEF, 0xBF, 0xBD]) @ from_utf8_lossy (drop n bs))"
  by pat_completeness auto

termination
proof (relation "measure length")
  fix bs :: bytes and x n valid
  assume "bs \<noteq> []" "x = utf8_next bs" "(n, valid) = x"
  then have "0 < n" using utf8_next_pos [of bs] by (metis fst_conv)
  then show "(drop n bs, bs) \<in> measure length" using \<open>bs \<noteq> []\<close> by simp
qed simp

declare from_utf8_lossy.simps [simp del]

lemma from_utf8_lossy_ascii: "\<forall>b \<in> set bs. b < 0x80 \<Longrightarrow> from_utf8_lossy bs = bytes_str bs"
proof (induction bs)
  case Nil
  then show ?case by (simp add: from_utf8_lossy.simps bytes_str_def)
next
  case (Cons b bs)
  then show ?case by (simp add: from_utf8_lossy.simps [of "b # bs"] utf8_next_def bytes_str_def)
qed

section \<open>The endpoint\<close>

definition split_endpoint :: "string \<Rightarrow> io_error + string \<times> string \<times> string \<times> u16" where
  "split_endpoint endpoint =
     (case (case split_once_str ''://'' endpoint of
              Some (sch, r) \<Rightarrow>
                if sch = ''https'' then Inr (''https'', r)
                else if sch = ''http'' then Inr (''http'', r)
                else Inl (Other ''unsupported scheme'')
            | None \<Rightarrow> Inr (''https'', endpoint)) of
        Inl e \<Rightarrow> Inl e
      | Inr (scheme, rest) \<Rightarrow>
          let rest = trim_end_matches (CHR ''/'') rest;
              (host, port) =
                (case rsplit_once (CHR '':'') rest of
                   Some (h, p) \<Rightarrow>
                     (case parse_u16 p of
                        Some port \<Rightarrow> if h \<noteq> [] then (h, port) else (rest, if scheme = ''https'' then 443 else 80)
                      | None \<Rightarrow> (rest, if scheme = ''https'' then 443 else 80))
                 | None \<Rightarrow> (rest, if scheme = ''https'' then 443 else 80))
          in Inr (scheme, host @ '':'' @ show_u16 port, host, port))"

section \<open>Reaching the server\<close>

text \<open>What dialling needs of the operating system and of rustls.\<close>

record dialer =
  tcp_connect :: "string \<Rightarrow> u16 \<Rightarrow> io_error + stream"
  server_name :: "string \<Rightarrow> string option"
  tls_connect :: "string \<Rightarrow> stream \<Rightarrow> io_error + stream"

definition dial :: "dialer \<Rightarrow> string \<Rightarrow> string \<Rightarrow> u16 \<Rightarrow> io_error + stream" where
  "dial d scheme host port =
     (case tcp_connect d host port of
        Inl e \<Rightarrow> Inl e
      | Inr conn \<Rightarrow>
          if scheme = ''https'' then
            (case server_name d host of
               None \<Rightarrow> Inl (Other ''bad server name'')
             | Some dns \<Rightarrow> tls_connect d dns conn)
          else Inr conn)"

section \<open>The token\<close>

definition crlf :: string where "crlf = [CHR 0x0D, CHR 0x0A]"

definition token_request :: "string \<Rightarrow> string \<Rightarrow> string \<Rightarrow> string" where
  "token_request kind hostport body =
     ''POST /api/v1/auth/'' @ kind @ ''/get-token HTTP/1.1'' @ crlf @ ''Host: '' @ hostport @ crlf
     @ ''Content-Type: application/json'' @ crlf @ ''X-CSRF-Token: x-csrf-protection'' @ crlf
     @ ''Content-Length: '' @ show_nat (length body) @ crlf @ ''Connection: close'' @ crlf @ crlf @ body"

definition read_to_end :: "stream \<Rightarrow> io_error + bytes" where
  "read_to_end s = (case st_end s of Some e \<Rightarrow> Inl e | None \<Rightarrow> Inr (st_in s))"

text \<open>\<open>Value\<close> indexed by a key: null when it is no object or has no such key.\<close>

fun index_json :: "json \<Rightarrow> string \<Rightarrow> json" where
  "index_json (JObject kvs) k = (case map_of kvs k of Some v \<Rightarrow> v | None \<Rightarrow> JNull)"
| "index_json _ k = JNull"

fun as_str :: "json \<Rightarrow> string option" where
  "as_str (JString s) = Some s"
| "as_str _ = None"

definition token_answer :: "(string \<Rightarrow> string + json) \<Rightarrow> bytes \<Rightarrow> io_error + json" where
  "token_answer de_json raw =
     (let text = from_utf8_lossy raw;
          body = (case split_once_str (crlf @ crlf) text of Some (_, b) \<Rightarrow> b | None \<Rightarrow> text)
      in case de_json (trim body) of
           Inl e \<Rightarrow> Inl (Other (''token json: '' @ e))
         | Inr v \<Rightarrow> Inr (index_json v ''data''))"

text \<open>Also what was written, for the properties.\<close>

definition get_token_data ::
  "dialer \<Rightarrow> (string \<Rightarrow> string + json) \<Rightarrow> (json \<Rightarrow> string) \<Rightarrow> string \<Rightarrow> string \<Rightarrow> json \<Rightarrow> (io_error + json) \<times> bytes" where
  "get_token_data d de_json ser_json endpoint kind body =
     (case split_endpoint endpoint of
        Inl e \<Rightarrow> (Inl e, [])
      | Inr (scheme, hostport, host, port) \<Rightarrow>
          let req = token_request kind hostport (ser_json body) in
          case dial d scheme host port of
            Inl e \<Rightarrow> (Inl e, [])
          | Inr s \<Rightarrow>
              (case write_all (str_bytes req) s of
                 (Inl e, s) \<Rightarrow> (Inl e, st_out s)
               | (Inr _, s) \<Rightarrow>
                   (case read_to_end s of
                      Inl e \<Rightarrow> (Inl e, st_out s)
                    | Inr raw \<Rightarrow> (token_answer de_json raw, st_out s))))"

definition get_token ::
  "dialer \<Rightarrow> (string \<Rightarrow> string + json) \<Rightarrow> (json \<Rightarrow> string) \<Rightarrow> string \<Rightarrow> string \<Rightarrow> json \<Rightarrow> io_error + string" where
  "get_token d de_json ser_json endpoint kind body =
     (case fst (get_token_data d de_json ser_json endpoint kind body) of
        Inl e \<Rightarrow> Inl e
      | Inr v \<Rightarrow> (case as_str (index_json v ''token'') of
                   None \<Rightarrow> Inl (Other ''no token in response'')
                 | Some t \<Rightarrow> Inr t))"

section \<open>The upgrade\<close>

definition upgrade_request :: "string \<Rightarrow> string \<Rightarrow> string \<Rightarrow> string \<Rightarrow> string" where
  "upgrade_request token client_type hostport key_b64 =
     ''GET /api/v1/ws?token='' @ token @ ''&clientType='' @ client_type @ '' HTTP/1.1'' @ crlf
     @ ''Host: '' @ hostport @ crlf @ ''Upgrade: websocket'' @ crlf @ ''Connection: Upgrade'' @ crlf
     @ ''Sec-WebSocket-Key: '' @ key_b64 @ crlf @ ''Sec-WebSocket-Version: 13'' @ crlf @ crlf"

definition ends_with :: "bytes \<Rightarrow> bytes \<Rightarrow> bool" where
  "ends_with xs suf = (length suf \<le> length xs \<and> drop (length xs - length suf) xs = suf)"

definition blank_line :: bytes where "blank_line = [13, 10, 13, 10]"

function read_head :: "bytes \<Rightarrow> stream \<Rightarrow> (io_error + bytes) \<times> stream" where
  "read_head head s =
     (case read_exact 1 s of
        (Inl e, s) \<Rightarrow> (Inl e, s)
      | (Inr b, s) \<Rightarrow>
          let head = head @ b in
          if ends_with head blank_line then (Inr head, s)
          else if 8192 < length head then (Inl (Other ''websocket upgrade headers too large''), s)
          else read_head head s)"
  by pat_completeness auto

termination
  by (relation "measure (\<lambda>(_, s). length (st_in s))") (auto simp: read_exact_def split: if_splits)

declare read_head.simps [simp del]

definition connect ::
  "dialer \<Rightarrow> (bytes \<Rightarrow> string) \<Rightarrow> string \<Rightarrow> string \<Rightarrow> string \<Rightarrow> world \<Rightarrow> (io_error + stream) \<times> world" where
  "connect d b64_encode endpoint token client_type w =
     (case split_endpoint endpoint of
        Inl e \<Rightarrow> (Inl e, w)
      | Inr (scheme, hostport, host, port) \<Rightarrow>
          (case dial d scheme host port of
             Inl e \<Rightarrow> (Inl e, w)
           | Inr s \<Rightarrow>
               let (key, w) = fill_bytes 16 w;
                   req = upgrade_request token client_type hostport (b64_encode key)
               in case write_all (str_bytes req) s of
                    (Inl e, s) \<Rightarrow> (Inl e, w)
                  | (Inr _, s) \<Rightarrow>
                      (case read_head [] s of
                         (Inl e, s) \<Rightarrow> (Inl e, w)
                       | (Inr head, s) \<Rightarrow>
                           let status = takeWhile (\<lambda>c. c \<noteq> 13) head in
                           if take 12 status = str_bytes ''HTTP/1.1 101'' then (Inr s, w)
                           else (Inl (Other (''websocket upgrade failed: '' @ from_utf8_lossy status)), w))))"

section \<open>Lemmas\<close>

text \<open>A head whose first blank line ends it is read exactly.\<close>

lemma read_head_exact:
  assumes "xs \<noteq> []" "ends_with (pre @ xs) blank_line"
    and "\<forall>k. 0 < k \<and> k < length xs \<longrightarrow> \<not> ends_with (pre @ take k xs) blank_line"
    and "length (pre @ xs) \<le> 8193"
  shows "read_head pre (s\<lparr>st_in := xs @ rest\<rparr>) = (Inr (pre @ xs), s\<lparr>st_in := rest\<rparr>)"
  using assms
proof (induction xs arbitrary: pre)
  case Nil
  then show ?case by simp
next
  case (Cons x xs)
  have 1: "read_exact 1 (s\<lparr>st_in := (x # xs) @ rest\<rparr>) = (Inr [x], s\<lparr>st_in := xs @ rest\<rparr>)"
    by (simp add: read_exact_def)
  show ?case
  proof (cases "xs = []")
    case True
    then show ?thesis using Cons.prems 1 by (subst read_head.simps) simp
  next
    case False
    then have "\<not> ends_with (pre @ [x]) blank_line" using Cons.prems(3) [rule_format, of 1] by simp
    moreover have "\<not> ends_with ((pre @ [x]) @ take k xs) blank_line" if "0 < k" "k < length xs" for k
      using Cons.prems(3) [rule_format, of "Suc k"] that by simp
    ultimately show ?thesis
      using False Cons.prems Cons.IH [of "pre @ [x]"] 1 by (subst read_head.simps) (cases xs; simp)
  qed
qed

lemma trim_end_slashes:
  "b \<noteq> [] \<Longrightarrow> last b \<noteq> c \<Longrightarrow> trim_end_matches c (b @ replicate n c) = b"
  by (cases b rule: rev_cases) (simp_all add: trim_end_matches_def dropWhile_append)

lemma last_show_u16: "last (show_u16 p) \<noteq> CHR ''/''"
  using show_nat_digits [of "last (show_u16 p)" "unat p"] by (auto simp: show_u16_def digit_val_def)

lemma show_u16_nonempty [simp]: "show_u16 p \<noteq> []"
  by (simp add: show_u16_def)

lemma split_endpoint_url:
  assumes "scheme = ''https'' \<or> scheme = ''http''" "h \<noteq> []"
  shows "split_endpoint (scheme @ ''://'' @ h @ '':'' @ show_u16 p @ replicate n (CHR ''/'')) =
    Inr (scheme, h @ '':'' @ show_u16 p, h, p)"
proof -
  have "split_once_str ''://'' (scheme @ ''://'' @ t) = Some (scheme, t)" for t
    using assms(1) by auto
  moreover have "trim_end_matches (CHR ''/'') (h @ CHR '':'' # show_u16 p @ replicate n (CHR ''/'')) = h @ CHR '':'' # show_u16 p"
    using trim_end_slashes [of "h @ CHR '':'' # show_u16 p" "CHR ''/''" n] by (simp add: last_show_u16)
  ultimately show ?thesis using assms by (auto simp: split_endpoint_def)
qed

lemma split_endpoint_bare:
  assumes "split_once_str ''://'' h = None" "CHR '':'' \<notin> set h" "h \<noteq> []" "last h \<noteq> CHR ''/''"
  shows "split_endpoint h = Inr (''https'', h @ '':443'', h, 443)"
proof -
  have "rsplit_once (CHR '':'') h = None" using assms(2) by (simp add: rsplit_once_None_iff)
  moreover have "trim_end_matches (CHR ''/'') h = h" using trim_end_slashes [of h "CHR ''/''" 0] assms by simp
  ultimately show ?thesis using assms by (simp add: split_endpoint_def show_u16_def show_nat_eval)
qed

section \<open>Properties\<close>

text \<open>
  C25: Connecting to \<open>http(s)://host:port\<close> dials that host and port, sends the upgrade request and,
  when the server answers with a 101 head of at most 8193 bytes, hands over the connection with
  exactly the bytes after the head's blank line unread: no frame the server sent right behind the
  head is lost.
\<close>

theorem upgrade_keeps_frames:
  assumes "scheme = ''https'' \<or> scheme = ''http''" "host \<noteq> []"
    and "dial d scheme host port = Inr s" "\<forall>k. st_ok s k" "st_in s = head @ frames"
    and "ends_with head blank_line" "\<forall>k < length head. \<not> ends_with (take k head) blank_line" "length head \<le> 8193"
    and "take 12 (takeWhile (\<lambda>c. c \<noteq> 13) head) = str_bytes ''HTTP/1.1 101''"
  shows "\<exists>s' key. fst (connect d b64_encode (scheme @ ''://'' @ host @ '':'' @ show_u16 port @ replicate n (CHR ''/'')) token ct w) = Inr s'
    \<and> length key = 16 \<and> st_in s' = frames
    \<and> st_out s' = st_out s @ str_bytes (upgrade_request token ct (host @ '':'' @ show_u16 port) (b64_encode key))"
proof -
  let ?key = "fst (fill_bytes 16 w)"
  let ?req = "str_bytes (upgrade_request token ct (host @ '':'' @ show_u16 port) (b64_encode ?key))"
  let ?s = "s\<lparr>st_out := st_out s @ ?req\<rparr>"
  have sent: "write_all ?req s = (Inr (), ?s)"
    using assms(4) by (simp add: write_all_def fun_eq_iff)
  have "head \<noteq> []" using assms(6) by (auto simp: ends_with_def blank_line_def)
  then have "read_head [] (?s\<lparr>st_in := head @ frames\<rparr>) = (Inr head, ?s\<lparr>st_in := frames\<rparr>)"
    using read_head_exact [where xs = head and pre = "[]" and s = ?s and rest = frames] assms(6-8) by simp
  moreover have "?s\<lparr>st_in := head @ frames\<rparr> = ?s" using assms(5) by (cases s) simp
  ultimately have "read_head [] ?s = (Inr head, ?s\<lparr>st_in := frames\<rparr>)" by simp
  then have "fst (connect d b64_encode (scheme @ ''://'' @ host @ '':'' @ show_u16 port @ replicate n (CHR ''/'')) token ct w)
    = Inr (?s\<lparr>st_in := frames\<rparr>)"
    using assms(3, 9) sent by (simp only: connect_def split_endpoint_url [OF assms(1, 2)]) (simp add: case_prod_beta)
  then show ?thesis by (intro exI [of _ "?s\<lparr>st_in := frames\<rparr>"] exI [of _ ?key]) simp
qed

definition demo_head :: bytes where
  "demo_head = str_bytes (''HTTP/1.1 101 S'' @ crlf @ crlf)"

definition demo_dialer :: dialer where
  "demo_dialer = \<lparr>tcp_connect = \<lambda>_ _. Inr (demo_stream\<lparr>st_in := demo_head @ [0x89, 0]\<rparr>), server_name = Some,
     tls_connect = \<lambda>_. Inr\<rparr>"

theorem upgrade_keeps_frames_witness:
  "\<exists>s'. fst (connect demo_dialer (\<lambda>_. ''k'') ''https://a:8080/'' ''t'' ''newt'' ws_world) = Inr s' \<and> st_in s' = [0x89, 0]"
proof -
  have port: "show_u16 8080 = ''8080''" by (simp add: show_u16_def show_nat_eval)
  have head: "ends_with demo_head blank_line \<and> (\<forall>k < length demo_head. \<not> ends_with (take k demo_head) blank_line)
    \<and> length demo_head \<le> 8193 \<and> take 12 (takeWhile (\<lambda>c. c \<noteq> 13) demo_head) = str_bytes ''HTTP/1.1 101''"
    by code_simp
  have dial: "dial demo_dialer ''https'' ''a'' 8080 = Inr (demo_stream\<lparr>st_in := demo_head @ [0x89, 0]\<rparr>)"
    by (simp add: dial_def demo_dialer_def)
  show ?thesis
    using upgrade_keeps_frames [OF _ _ dial, where head = demo_head and frames = "[0x89, 0]" and n = 1
        and b64_encode = "\<lambda>_. ''k''" and token = "''t''" and ct = "''newt''" and w = ws_world] head
    by (simp add: port demo_stream_def) blast
qed

end
