(* ===== verification/Site_Plane.thy ===== *)
theory Site_Plane
  imports Bridge Icmp Wg_Pump Ip_Addr Target Site_Sm Transport Config
begin

text \<open>
  The data plane of the site, \<open>newt/src/tunnel.rs\<close>: bringing the tunnel up, the listeners for the
  TCP targets and how the server's messages change them, accepting connections, the shuttle over
  all connections, the keepalive ping, and the hole punch of \<open>holepunch.rs\<close>. smoltcp is the record of \<^theory_text>\<open>Bridge\<close>; name
  resolution, binding a socket, base64, serde and smoltcp's address parser are parameters. A hash
  map is a map with an iteration order given by the parameter \<open>iter\<close>. Logging is left out.
\<close>

section \<open>The UDP socket\<close>

type_synonym sock_addr = "ip_addr \<times> u16"

text \<open>The datagrams sent, and for each send to come whether it succeeds.\<close>

record udp =
  u_sent :: "(bytes \<times> sock_addr) list"
  u_ok :: "nat \<Rightarrow> bool"

definition send_to :: "bytes \<Rightarrow> sock_addr \<Rightarrow> udp \<Rightarrow> (io_error + unit) \<times> udp" where
  "send_to b a u =
     (let u' = u\<lparr>u_ok := (\<lambda>k. u_ok u (k + 1))\<rparr>
      in if u_ok u 0 then (Inr (), u'\<lparr>u_sent := u_sent u @ [(b, a)]\<rparr>) else (Inl OsError, u'))"

section \<open>The hole punch\<close>

definition holepunch_build ::
  "crypto \<Rightarrow> (string \<Rightarrow> string + bytes) \<Rightarrow> (bytes \<Rightarrow> string) \<Rightarrow> (json \<Rightarrow> string) \<Rightarrow>
     string \<Rightarrow> string \<Rightarrow> string \<Rightarrow> string \<Rightarrow> string \<Rightarrow> world \<Rightarrow> bytes option \<times> world" where
  "holepunch_build c b64_decode b64_encode ser_json id_field ident token pub_b64 server_pub_b64 w =
     (case b64_decode (trim server_pub_b64) of
        Inl _ \<Rightarrow> (None, w)
      | Inr raw \<Rightarrow>
          if length raw \<noteq> 32 then (None, w)
          else
            let (eph, w) = fill_bytes 32 w;
                eph_pub = x25519_public c eph;
                shared = x25519_dh c eph raw;
                (nonce, w) = fill_bytes 12 w;
                plaintext = ser_json (JObject [(id_field, JString ident), (''token'', JString token), (''publicKey'', JString pub_b64)]);
                (ct, tag) = chacha_encrypt c shared nonce [] (str_bytes plaintext);
                envelope = JObject [(''ephemeralPublicKey'', JString (b64_encode eph_pub)),
                  (''nonce'', JString (b64_encode nonce)), (''ciphertext'', JString (b64_encode (ct @ tag)))]
            in (Some (str_bytes (ser_json envelope)), w))"

section \<open>The data plane\<close>

record listener =
  l_port :: u16
  l_target :: string
  l_handle :: nat

record ('i, 'sk) dataplane =
  dp_udp :: udp
  dp_pump :: pump
  dp_stack :: "('i, 'sk) stack"
  dp_listeners :: "listener list"
  dp_conns :: "nat \<rightharpoonup> bridge"
  dp_udp_buf :: nat
  dp_endpoint :: sock_addr
  dp_relay_addr :: sock_addr
  dp_server_ip :: bytes
  dp_tunnel_ip4 :: bytes
  dp_ping_seq :: u16
  dp_newt_id :: string
  dp_token :: string
  dp_newt_pub :: string
  dp_server_pub :: string

definition TCP_RX :: nat where "TCP_RX = 4096"
definition TCP_TX :: nat where "TCP_TX = 4096"

definition add_listener :: "('i, 'sk) smol \<Rightarrow> u16 \<Rightarrow> ('i, 'sk) stack \<Rightarrow> nat \<times> ('i, 'sk) stack" where
  "add_listener m port st =
     (let s = sk_new m TCP_RX TCP_TX;
          handle = ss_add m (sk_sockets st)
      in (handle, st\<lparr>sk_sockets := (sk_sockets st)(handle \<mapsto> sk_listen m port s)\<rparr>))"

text \<open>A new listener at the end of the vector.\<close>

definition push_listener ::
  "('i, 'sk) smol \<Rightarrow> u16 \<Rightarrow> string \<Rightarrow> listener list \<times> ('i, 'sk) stack \<Rightarrow> listener list \<times> ('i, 'sk) stack" where
  "push_listener m port tgt ls_st =
     (let (ls, st) = ls_st;
          (handle, st) = add_listener m port st
      in (ls @ [\<lparr>l_port = port, l_target = tgt, l_handle = handle\<rparr>], st))"

record os =
  lookup_host :: "string \<Rightarrow> u16 \<Rightarrow> io_error + sock_addr list"
  udp_bind :: "io_error + udp"
  parse_smol_ip :: "string \<Rightarrow> ip_addr option"

definition bring_up ::
  "crypto \<Rightarrow> ('i, 'sk) smol \<Rightarrow> os \<Rightarrow> (string \<Rightarrow> string + bytes) \<Rightarrow> wg_data \<Rightarrow> site_run \<Rightarrow> keys \<Rightarrow> string \<Rightarrow> world \<Rightarrow>
     (io_error + ('i, 'sk) dataplane) \<times> world" where
  "bring_up c m os b64_decode wg cfg keys token w =
     (case Option.bind (rsplit_once (CHR '':'') (wd_endpoint wg)) (\<lambda>(h, p). map_option (\<lambda>p. (h, p)) (parse_u16 p)) of
        None \<Rightarrow> (Inl (Other ''bad endpoint''), w)
      | Some (h, port) \<Rightarrow>
        (case lookup_host os h port of
           Inl e \<Rightarrow> (Inl e, w)
         | Inr [] \<Rightarrow> (Inl (Other ''resolve endpoint''), w)
         | Inr (endpoint # _) \<Rightarrow>
           let relay_port = (if wd_relay_port wg = 0 then 21820 else wd_relay_port wg);
               relay_addr = (fst endpoint, relay_port)
           in (case udp_bind os of
              Inl e \<Rightarrow> (Inl e, w)
            | Inr u \<Rightarrow>
              (case public_from_b64 b64_decode (wd_public_key wg) of
                 Inl e \<Rightarrow> (Inl (Other e), w)
               | Inr peer_pub \<Rightarrow>
                 let (pump, w) = pump_new c (k_secret keys) peer_pub (sr_mtu cfg) w;
                     (init, pump, w) = initiate_handshake c pump w
                 in (case (case init of Some b \<Rightarrow> send_to b endpoint u | None \<Rightarrow> (Inr (), u)) of
                    (Inl e, u) \<Rightarrow> (Inl e, w)
                  | (Inr _, u) \<Rightarrow>
                    (case parse_smol_ip os (wd_tunnel_ip wg) of
                       None \<Rightarrow> (Inl (Other ''bad tunnelIP''), w)
                     | Some tunnel_ip \<Rightarrow>
                       let (ls, st) = fold (\<lambda>t. push_listener m (listen_port t) (dial_string t))
                             (List.map_filter parse_target (tcp (wd_targets wg))) ([], stack_new m tunnel_ip (sr_mtu cfg))
                       in (case parse_ipv4_addr (wd_server_ip wg) of
                          None \<Rightarrow> (Inl (Other ''bad serverIP''), w)
                        | Some server_ip \<Rightarrow>
                          (case parse_ipv4_addr (wd_tunnel_ip wg) of
                             None \<Rightarrow> (Inl (Other ''bad tunnelIP''), w)
                           | Some tunnel_ip4 \<Rightarrow>
                             (Inr \<lparr>dp_udp = u, dp_pump = pump, dp_stack = st, dp_listeners = ls, dp_conns = Map.empty,
                                dp_udp_buf = udp_buf_len (sr_mtu cfg), dp_endpoint = endpoint, dp_relay_addr = relay_addr,
                                dp_server_ip = be32 server_ip, dp_tunnel_ip4 = be32 tunnel_ip4, dp_ping_seq = 0,
                                dp_newt_id = sr_id cfg, dp_token = token, dp_newt_pub = k_public_b64 keys,
                                dp_server_pub = wd_public_key wg\<rparr>, w)))))))))"

section \<open>Keeping the site online\<close>

definition send_holepunch ::
  "crypto \<Rightarrow> (string \<Rightarrow> string + bytes) \<Rightarrow> (bytes \<Rightarrow> string) \<Rightarrow> (json \<Rightarrow> string) \<Rightarrow>
     ('i, 'sk) dataplane \<Rightarrow> world \<Rightarrow> (io_error + unit) \<times> ('i, 'sk) dataplane \<times> world" where
  "send_holepunch c b64_decode b64_encode ser_json dp w =
     (case holepunch_build c b64_decode b64_encode ser_json ''newtId'' (dp_newt_id dp) (dp_token dp) (dp_newt_pub dp) (dp_server_pub dp) w of
        (None, w) \<Rightarrow> (Inr (), dp, w)
      | (Some pkt, w) \<Rightarrow> (let (r, u) = send_to pkt (dp_relay_addr dp) (dp_udp dp) in (r, dp\<lparr>dp_udp := u\<rparr>, w)))"

definition send_ping ::
  "crypto \<Rightarrow> ('i, 'sk) dataplane \<Rightarrow> world \<Rightarrow> ((io_error + unit) \<times> ('i, 'sk) dataplane \<times> world) outcome" where
  "send_ping c dp w =
     (let dp = dp\<lparr>dp_ping_seq := dp_ping_seq dp + 1\<rparr>;
          pkt = icmp_echo (dp_tunnel_ip4 dp) (dp_server_ip dp) 1 (dp_ping_seq dp)
      in obind (pump_encapsulate c (dp_pump dp) pkt w) (\<lambda>(dg, pump, w).
           let dp = dp\<lparr>dp_pump := pump\<rparr> in
           case dg of
             None \<Rightarrow> Returns (Inr (), dp, w)
           | Some b \<Rightarrow> (let (r, u) = send_to b (dp_endpoint dp) (dp_udp dp) in Returns (r, dp\<lparr>dp_udp := u\<rparr>, w))))"

section \<open>Targets\<close>

definition on_listeners ::
  "(listener list \<times> ('i, 'sk) stack \<Rightarrow> listener list \<times> ('i, 'sk) stack) \<Rightarrow> ('i, 'sk) dataplane \<Rightarrow> ('i, 'sk) dataplane" where
  "on_listeners f dp = (let (ls, st) = f (dp_listeners dp, dp_stack dp) in dp\<lparr>dp_listeners := ls, dp_stack := st\<rparr>)"

definition add_target :: "('i, 'sk) smol \<Rightarrow> string \<Rightarrow> ('i, 'sk) dataplane \<Rightarrow> ('i, 'sk) dataplane" where
  "add_target m spec dp =
     (case parse_target spec of
        None \<Rightarrow> dp
      | Some t \<Rightarrow>
          if list_ex (\<lambda>l. l_port l = listen_port t) (dp_listeners dp) then dp
          else on_listeners (push_listener m (listen_port t) (dial_string t)) dp)"

definition add_targets :: "('i, 'sk) smol \<Rightarrow> string list \<Rightarrow> ('i, 'sk) dataplane \<Rightarrow> ('i, 'sk) dataplane" where
  "add_targets m specs dp = fold (add_target m) specs dp"

text \<open>The loop that removes every listener of a port.\<close>

function remove_port :: "u16 \<Rightarrow> listener list \<Rightarrow> ('i, 'sk) stack \<Rightarrow> (listener list \<times> ('i, 'sk) stack) outcome" where
  "remove_port port ls st =
     (case find_index (\<lambda>l. l_port l = port) ls of
        None \<Rightarrow> Returns (ls, st)
      | Some i \<Rightarrow> obind (sockets_remove (l_handle (ls ! i)) st) (remove_port port (swap_remove ls i)))"
  by pat_completeness auto

termination
  by (relation "measure (\<lambda>(_, ls, _). length ls)") (auto dest!: find_index_Some simp: length_swap_remove)

declare remove_port.simps [simp del]

fun remove_ports :: "u16 list \<Rightarrow> ('i, 'sk) dataplane \<Rightarrow> ('i, 'sk) dataplane outcome" where
  "remove_ports [] dp = Returns dp"
| "remove_ports (p # ps) dp =
     obind (remove_port p (dp_listeners dp) (dp_stack dp)) (\<lambda>(ls, st).
       remove_ports ps (dp\<lparr>dp_listeners := ls, dp_stack := st\<rparr>))"

definition remove_targets :: "string list \<Rightarrow> ('i, 'sk) dataplane \<Rightarrow> ('i, 'sk) dataplane outcome" where
  "remove_targets specs dp = remove_ports (map listen_port (List.map_filter parse_target specs)) dp"

definition set_target :: "('i, 'sk) smol \<Rightarrow> target \<Rightarrow> ('i, 'sk) dataplane \<Rightarrow> ('i, 'sk) dataplane" where
  "set_target m t dp =
     (let want = dial_string t in
      if list_ex (\<lambda>l. l_port l = listen_port t) (dp_listeners dp) then
        dp\<lparr>dp_listeners := update_first (\<lambda>l. l_port l = listen_port t) (\<lambda>l. l\<lparr>l_target := want\<rparr>) (dp_listeners dp)\<rparr>
      else on_listeners (push_listener m (listen_port t) want) dp)"

definition reconcile_targets :: "('i, 'sk) smol \<Rightarrow> string list \<Rightarrow> ('i, 'sk) dataplane \<Rightarrow> ('i, 'sk) dataplane outcome" where
  "reconcile_targets m specs dp =
     (let desired = List.map_filter parse_target specs;
          keep = set (map listen_port desired);
          drop_ports = filter (\<lambda>p. p \<notin> keep) (map l_port (dp_listeners dp))
      in obind (remove_ports drop_ports dp) (\<lambda>dp. Returns (fold (set_target m) desired dp)))"

section \<open>Connections\<close>

text \<open>The listeners whose socket became active, with their positions.\<close>

fun scan_active ::
  "('i, 'sk) smol \<Rightarrow> (nat \<rightharpoonup> bridge) \<Rightarrow> 'sk sockets \<Rightarrow> nat \<Rightarrow> listener list \<Rightarrow> (nat \<times> u16) list outcome" where
  "scan_active m conns S i [] = Returns []"
| "scan_active m conns S i (l # ls) =
     (case S (l_handle l) of
        None \<Rightarrow> Panics
      | Some s \<Rightarrow>
          obind (scan_active m conns S (Suc i) ls) (\<lambda>rest.
            Returns (if sk_is_active m s \<and> conns (l_handle l) = None then (i, l_port l) # rest else rest)))"

definition promote :: "('i, 'sk) smol \<Rightarrow> nat \<times> u16 \<Rightarrow> ('i, 'sk) dataplane \<Rightarrow> ('i, 'sk) dataplane outcome" where
  "promote m ip dp =
     (let (i, port) = ip; ls = dp_listeners dp in
      if length ls \<le> i then Panics
      else
        let l = ls ! i;
            dp = dp\<lparr>dp_listeners := swap_remove ls i, dp_conns := (dp_conns dp)(l_handle l \<mapsto> bridge_new conn_new)\<rparr>
        in Returns (on_listeners (push_listener m port (l_target l)) dp))"

fun promote_all :: "('i, 'sk) smol \<Rightarrow> (nat \<times> u16) list \<Rightarrow> ('i, 'sk) dataplane \<Rightarrow> ('i, 'sk) dataplane outcome" where
  "promote_all m [] dp = Returns dp"
| "promote_all m (ip # ips) dp = obind (promote m ip dp) (promote_all m ips)"

definition accept_new :: "('i, 'sk) smol \<Rightarrow> ('i, 'sk) dataplane \<Rightarrow> ('i, 'sk) dataplane outcome" where
  "accept_new m dp =
     obind (scan_active m (dp_conns dp) (sk_sockets (dp_stack dp)) 0 (dp_listeners dp)) (\<lambda>promoted.
       promote_all m (rev promoted) dp)"

text \<open>The shuttle of one handle, with the reaping of a closed socket, on the connections and the sockets.\<close>

definition shuttle_one ::
  "('i, 'sk) smol \<Rightarrow> nat \<Rightarrow> (nat \<rightharpoonup> bridge) \<times> 'sk sockets \<Rightarrow> ((nat \<rightharpoonup> bridge) \<times> 'sk sockets) outcome" where
  "shuttle_one m h cs =
     (let (conns, S) = cs in
      case S h of
        None \<Rightarrow> Panics
      | Some s \<Rightarrow>
          let (s, b) = (case conns h of None \<Rightarrow> (s, None) | Some b \<Rightarrow> (let (s, b) = shuttle_conn m s b in (s, Some b)))
          in Returns (if sk_is_open m s then (conns(h := b), S(h \<mapsto> s)) else (conns(h := None), S(h := None))))"

fun shuttle_handles ::
  "('i, 'sk) smol \<Rightarrow> nat list \<Rightarrow> (nat \<rightharpoonup> bridge) \<times> 'sk sockets \<Rightarrow> ((nat \<rightharpoonup> bridge) \<times> 'sk sockets) outcome" where
  "shuttle_handles m [] cs = Returns cs"
| "shuttle_handles m (h # hs) cs = obind (shuttle_one m h cs) (shuttle_handles m hs)"

definition shuttle :: "('i, 'sk) smol \<Rightarrow> (nat set \<Rightarrow> nat list) \<Rightarrow> ('i, 'sk) dataplane \<Rightarrow> ('i, 'sk) dataplane outcome" where
  "shuttle m iter dp =
     obind (shuttle_handles m (iter (dom (dp_conns dp))) (dp_conns dp, sk_sockets (dp_stack dp))) (\<lambda>(conns, S).
       Returns (dp\<lparr>dp_conns := conns, dp_stack := (dp_stack dp)\<lparr>sk_sockets := S\<rparr>\<rparr>))"

section \<open>One round of input and output\<close>

datatype udp_event = Datagram bytes | RecvError io_error | Timeout

text \<open>A datagram to the exit node whose send result is ignored.\<close>

definition send_ignored :: "bytes \<Rightarrow> ('i, 'sk) dataplane \<Rightarrow> ('i, 'sk) dataplane" where
  "send_ignored b dp = dp\<lparr>dp_udp := snd (send_to b (dp_endpoint dp) (dp_udp dp))\<rparr>"

definition push_rx :: "bytes \<Rightarrow> ('i, 'sk) dataplane \<Rightarrow> ('i, 'sk) dataplane" where
  "push_rx p dp =
     (let st = dp_stack dp; d = sk_device st
      in dp\<lparr>dp_stack := st\<lparr>sk_device := d\<lparr>dv_rx := dv_rx d @ [p]\<rparr>\<rparr>\<rparr>)"

definition apply_inbound :: "inbound \<Rightarrow> ('i, 'sk) dataplane \<Rightarrow> ('i, 'sk) dataplane" where
  "apply_inbound inb dp = (case inb of Packet p \<Rightarrow> push_rx p dp | Network b \<Rightarrow> send_ignored b dp | Nothing \<Rightarrow> dp)"

definition receive_datagram ::
  "crypto \<Rightarrow> bytes \<Rightarrow> ('i, 'sk) dataplane \<Rightarrow> world \<Rightarrow> (('i, 'sk) dataplane \<times> world) outcome option" where
  "receive_datagram c d dp w =
     (case pump_decapsulate c (dp_pump dp) (take (dp_udp_buf dp) d) w of
        Panics \<Rightarrow> Some Panics
      | Returns (inb, pump, w) \<Rightarrow>
          map_option (\<lambda>r. obind r (\<lambda>(more, pump, w).
            Returns (fold apply_inbound (inb # more) (dp\<lparr>dp_pump := pump\<rparr>), w)))
            (drain_loop c pump w []))"

fun encapsulate_all ::
  "crypto \<Rightarrow> bytes list \<Rightarrow> ('i, 'sk) dataplane \<Rightarrow> world \<Rightarrow> (('i, 'sk) dataplane \<times> world) outcome" where
  "encapsulate_all c [] dp w = Returns (dp, w)"
| "encapsulate_all c (pkt # pkts) dp w =
     obind (pump_encapsulate c (dp_pump dp) pkt w) (\<lambda>(dg, pump, w).
       let dp = dp\<lparr>dp_pump := pump\<rparr>
       in encapsulate_all c pkts (case dg of Some b \<Rightarrow> send_ignored b dp | None \<Rightarrow> dp) w)"

definition poll_stack ::
  "crypto \<Rightarrow> ('i, 'sk) smol \<Rightarrow> ('i, 'sk) dataplane \<Rightarrow> world \<Rightarrow> (('i, 'sk) dataplane \<times> world) outcome" where
  "poll_stack c m dp w =
     (let (outbound, st) = stack_poll m 0 (dp_stack dp)
      in encapsulate_all c outbound (dp\<lparr>dp_stack := st\<rparr>) w)"

definition site_timers :: "crypto \<Rightarrow> ('i, 'sk) dataplane \<Rightarrow> world \<Rightarrow> (('i, 'sk) dataplane \<times> world) outcome" where
  "site_timers c dp w =
     obind (pump_update_timers c (dp_pump dp) w) (\<lambda>(dg, pump, w).
       let dp = dp\<lparr>dp_pump := pump\<rparr> in Returns (case dg of Some b \<Rightarrow> send_ignored b dp | None \<Rightarrow> dp, w))"

definition service ::
  "crypto \<Rightarrow> ('i, 'sk) smol \<Rightarrow> (nat set \<Rightarrow> nat list) \<Rightarrow> ('i, 'sk) dataplane \<Rightarrow> world \<Rightarrow> (('i, 'sk) dataplane \<times> world) outcome" where
  "service c m iter dp w =
     obind (poll_stack c m dp w) (\<lambda>(dp, w).
     obind (site_timers c dp w) (\<lambda>(dp, w).
     obind (accept_new m dp) (\<lambda>dp.
     obind (shuttle m iter dp) (\<lambda>dp. Returns (dp, w)))))"

definition step_io ::
  "crypto \<Rightarrow> ('i, 'sk) smol \<Rightarrow> (nat set \<Rightarrow> nat list) \<Rightarrow> udp_event \<Rightarrow> ('i, 'sk) dataplane \<Rightarrow> world \<Rightarrow>
     ((io_error + unit) \<times> ('i, 'sk) dataplane \<times> world) outcome option" where
  "step_io c m iter ev dp w =
     (case ev of
        RecvError e \<Rightarrow> Some (Returns (Inl e, dp, w))
      | Timeout \<Rightarrow> Some (obind (service c m iter dp w) (\<lambda>(dp, w). Returns (Inr (), dp, w)))
      | Datagram d \<Rightarrow>
          map_option (\<lambda>r. obind r (\<lambda>(dp, w). obind (service c m iter dp w) (\<lambda>(dp, w). Returns (Inr (), dp, w))))
            (receive_datagram c d dp w))"

end
