(* ===== verification/Site_Safety.thy ===== *)
theory Site_Safety
  imports Site_Plane
begin

text \<open>
  What the site's data plane guarantees: its handles stay in order, so that no call of smoltcp
  panics, and its listeners behave as a table from listen ports to destinations under the
  server's messages.
\<close>

section \<open>Handles\<close>

text \<open>
  Every handle the data plane holds is in the socket set, no two listeners share one, and none is a
  listener's and a connection's at once.
\<close>

definition handles_ok :: "listener list \<Rightarrow> (nat \<rightharpoonup> bridge) \<Rightarrow> 'sk sockets \<Rightarrow> bool" where
  "handles_ok ls conns S \<longleftrightarrow>
     finite (dom S) \<and> distinct (map l_handle ls) \<and> l_handle ` set ls \<union> dom conns \<subseteq> dom S \<and> l_handle ` set ls \<inter> dom conns = {}"

definition entries :: "listener list \<Rightarrow> (u16 \<times> string) list" where
  "entries ls = map (\<lambda>l. (l_port l, l_target l)) ls"

lemma handles_ok_push:
  assumes "smol_ok m" "handles_ok ls conns (sk_sockets st)" "push_listener m port t (ls, st) = (ls', st')"
  shows "handles_ok ls' conns (sk_sockets st') \<and> entries ls' = entries ls @ [(port, t)] \<and> sk_device st' = sk_device st"
proof -
  let ?h = "ss_add m (sk_sockets st)"
  have "?h \<notin> dom (sk_sockets st)" using smol_ok_add assms(1, 2) by (auto simp: handles_ok_def)
  then have "?h \<notin> l_handle ` set ls" "?h \<notin> dom conns" using assms(2) by (auto simp: handles_ok_def)
  moreover have "ls' = ls @ [\<lparr>l_port = port, l_target = t, l_handle = ?h\<rparr>]" "dom (sk_sockets st') = insert ?h (dom (sk_sockets st))"
    "sk_device st' = sk_device st"
    using assms(3) by (auto simp: push_listener_def add_listener_def Let_def)
  ultimately show ?thesis using assms(2) unfolding handles_ok_def entries_def by (simp, blast)
qed

lemma swap_remove_distinct:
  assumes "i < length ls" "distinct (map f ls)"
  shows "distinct (map f (swap_remove ls i)) \<and> f ` set (swap_remove ls i) = f ` set ls - {f (ls ! i)}"
proof -
  have "mset (map f (swap_remove ls i)) = mset (remove1 (f (ls ! i)) (map f ls))"
    using assms(1) by (simp add: mset_swap_remove image_mset_Diff)
  then show ?thesis using assms(2) by (metis distinct_remove1 mset_eq_imp_distinct_iff mset_eq_setD set_map set_remove1_eq)
qed

lemma handles_ok_drop:
  assumes "handles_ok ls conns S" "i < length ls"
  shows "handles_ok (swap_remove ls i) conns (S(l_handle (ls ! i) := None))"
    and "handles_ok (swap_remove ls i) (conns(l_handle (ls ! i) \<mapsto> b)) S"
    and "l_handle (ls ! i) \<in> dom S"
proof -
  have i: "l_handle (ls ! i) \<in> l_handle ` set ls" using assms(2) by simp
  show "l_handle (ls ! i) \<in> dom S" using assms(1) i by (auto simp: handles_ok_def)
  show "handles_ok (swap_remove ls i) conns (S(l_handle (ls ! i) := None))"
    and "handles_ok (swap_remove ls i) (conns(l_handle (ls ! i) \<mapsto> b)) S"
    using assms(1) i swap_remove_distinct [OF assms(2), of l_handle] unfolding handles_ok_def
    by (simp_all add: dom_fun_upd, blast+)
qed

section \<open>Removing a port\<close>

lemma remove_port_ok:
  "handles_ok ls conns (sk_sockets st) \<Longrightarrow>
     \<exists>ls' st'. remove_port port ls st = Returns (ls', st') \<and> handles_ok ls' conns (sk_sockets st')
       \<and> sk_device st' = sk_device st
       \<and> mset (entries ls') = mset (entries (filter (\<lambda>l. l_port l \<noteq> port) ls))"
proof (induction port ls st rule: remove_port.induct)
  case (1 port ls st)
  show ?case
  proof (cases "find_index (\<lambda>l. l_port l = port) ls")
    case None
    then have "filter (\<lambda>l. l_port l \<noteq> port) ls = ls"
      by (induction ls) (auto split: if_splits)
    then show ?thesis using "1.prems" None by (simp add: remove_port.simps [of port ls])
  next
    case (Some i)
    then have i: "i < length ls" "l_port (ls ! i) = port" using find_index_Some by blast+
    let ?st = "st\<lparr>sk_sockets := (sk_sockets st)(l_handle (ls ! i) := None)\<rparr>"
    have rm: "sockets_remove (l_handle (ls ! i)) st = Returns ?st"
      using handles_ok_drop(3) [OF "1.prems" i(1)] by (auto simp: sockets_remove_def)
    have "handles_ok (swap_remove ls i) conns (sk_sockets ?st)" using handles_ok_drop(1) [OF "1.prems" i(1)] by simp
    from "1.IH" [OF Some this] obtain ls' st' where r: "remove_port port (swap_remove ls i) ?st = Returns (ls', st')"
      "handles_ok ls' conns (sk_sockets st')" "sk_device st' = sk_device ?st"
      "mset (entries ls') = mset (entries (filter (\<lambda>l. l_port l \<noteq> port) (swap_remove ls i)))" by blast
    have "mset (filter (\<lambda>l. l_port l \<noteq> port) (swap_remove ls i)) = mset (filter (\<lambda>l. l_port l \<noteq> port) ls)"
      using i by (simp add: mset_swap_remove)
    then show ?thesis
      using r rm Some by (simp add: remove_port.simps [of port ls] entries_def)
  qed
qed

section \<open>Accepting connections\<close>

definition promotable :: "listener list \<Rightarrow> (nat \<times> u16) list \<Rightarrow> bool" where
  "promotable ls ips \<longleftrightarrow> sorted_wrt (>) (map fst ips) \<and> (\<forall>(i, p) \<in> set ips. i < length ls \<and> l_port (ls ! i) = p)"

lemma scan_active_ok:
  "l_handle ` set ls \<subseteq> dom S \<Longrightarrow>
     \<exists>ips. scan_active m conns S k ls = Returns ips \<and> sorted_wrt (<) (map fst ips)
       \<and> (\<forall>(i, p) \<in> set ips. k \<le> i \<and> i < k + length ls \<and> l_port (ls ! (i - k)) = p)"
proof (induction ls arbitrary: k)
  case Nil
  then show ?case by simp
next
  case (Cons l ls)
  then obtain s where s: "S (l_handle l) = Some s" by auto
  from Cons.IH [of "Suc k"] Cons.prems obtain ips where ips: "scan_active m conns S (Suc k) ls = Returns ips"
    "sorted_wrt (<) (map fst ips)"
    "\<forall>(i, p) \<in> set ips. Suc k \<le> i \<and> i < Suc k + length ls \<and> l_port (ls ! (i - Suc k)) = p" by auto
  have tl: "\<forall>(i, p) \<in> set ips. k < i \<and> i < k + length (l # ls) \<and> l_port ((l # ls) ! (i - k)) = p"
    using ips(3) by (fastforce simp: nth_Cons' )
  show ?case using s ips(1, 2) tl by (auto simp: less_imp_le)
qed

lemma promotable_scan:
  assumes "l_handle ` set ls \<subseteq> dom S"
  obtains ips where "scan_active m conns S 0 ls = Returns ips" "promotable ls (rev ips)"
proof -
  obtain ips where "scan_active m conns S 0 ls = Returns ips" "sorted_wrt (<) (map fst ips)"
    "\<forall>(i, p) \<in> set ips. 0 \<le> i \<and> i < 0 + length ls \<and> l_port (ls ! (i - 0)) = p"
    using scan_active_ok [OF assms, of m conns 0] by blast
  then show thesis by (intro that [of ips]) (auto simp: promotable_def rev_map [symmetric] sorted_wrt_rev)
qed

lemma promote_ok:
  assumes "smol_ok m" "handles_ok (dp_listeners dp) (dp_conns dp) (sk_sockets (dp_stack dp))"
    and "promotable (dp_listeners dp) ((i, port) # ips)"
  obtains ls conns st where
    "promote m (i, port) dp = Returns (dp\<lparr>dp_listeners := ls, dp_conns := conns, dp_stack := st\<rparr>)"
    "handles_ok ls conns (sk_sockets st)" "promotable ls ips" "mset (entries ls) = mset (entries (dp_listeners dp))"
    "sk_device st = sk_device (dp_stack dp)"
proof -
  let ?ls = "dp_listeners dp" and ?st = "dp_stack dp"
  let ?l = "?ls ! i" and ?rest = "swap_remove ?ls i"
  let ?conns = "(dp_conns dp)(l_handle ?l \<mapsto> bridge_new conn_new)"
  obtain ls st where p: "push_listener m port (l_target ?l) (?rest, ?st) = (ls, st)" by fastforce
  have i: "i < length ?ls" "l_port ?l = port" using assms(3) by (auto simp: promotable_def)
  have h: "handles_ok ?rest ?conns (sk_sockets ?st)" using handles_ok_drop(2) [OF assms(2) i(1)] .
  note pushed = handles_ok_push [OF assms(1) h p]
  have ls: "ls = ?rest @ [\<lparr>l_port = port, l_target = l_target ?l, l_handle = ss_add m (sk_sockets ?st)\<rparr>]"
    using p by (auto simp: push_listener_def add_listener_def Let_def)
  have nth: "ls ! j = ?ls ! j" if "j < i" for j
    using that i(1) by (simp add: ls nth_append length_swap_remove swap_remove_nth_below)
  have "length ls = length ?ls" using i(1) by (simp add: ls length_swap_remove)
  then have "promotable ls ips" using assms(3) nth by (fastforce simp: promotable_def)
  moreover have "(port, l_target ?l) \<in># mset (entries ?ls)" using i by (auto simp: entries_def intro!: image_eqI [of _ _ ?l])
  then have "mset (entries ls) = mset (entries ?ls)"
    using i by (simp add: ls entries_def mset_swap_remove image_mset_Diff insert_DiffM)
  moreover have "promote m (i, port) dp = Returns (dp\<lparr>dp_listeners := ls, dp_conns := ?conns, dp_stack := st\<rparr>)"
    using p i by (simp add: promote_def on_listeners_def Let_def)
  ultimately show thesis using that pushed by blast
qed

lemma promote_all_ok:
  assumes "smol_ok m"
  shows "handles_ok (dp_listeners dp) (dp_conns dp) (sk_sockets (dp_stack dp)) \<Longrightarrow> promotable (dp_listeners dp) ips \<Longrightarrow>
    \<exists>ls conns st. promote_all m ips dp = Returns (dp\<lparr>dp_listeners := ls, dp_conns := conns, dp_stack := st\<rparr>)
      \<and> handles_ok ls conns (sk_sockets st) \<and> mset (entries ls) = mset (entries (dp_listeners dp))
      \<and> sk_device st = sk_device (dp_stack dp)"
proof (induction ips arbitrary: dp)
  case Nil
  then show ?case by (intro exI [of _ "dp_listeners dp"] exI [of _ "dp_conns dp"] exI [of _ "dp_stack dp"]) simp
next
  case (Cons ip ips)
  obtain i port where ip: "ip = (i, port)" by fastforce
  obtain ls conns st where p: "promote m (i, port) dp = Returns (dp\<lparr>dp_listeners := ls, dp_conns := conns, dp_stack := st\<rparr>)"
    "handles_ok ls conns (sk_sockets st)" "promotable ls ips" "mset (entries ls) = mset (entries (dp_listeners dp))"
    "sk_device st = sk_device (dp_stack dp)"
    using promote_ok [OF assms Cons.prems(1), of i port ips] Cons.prems(2) ip by blast
  from Cons.IH [of "dp\<lparr>dp_listeners := ls, dp_conns := conns, dp_stack := st\<rparr>"] p show ?case by (simp add: ip)
qed

lemma accept_new_ok:
  assumes "smol_ok m" "handles_ok (dp_listeners dp) (dp_conns dp) (sk_sockets (dp_stack dp))"
  obtains ls conns st where "accept_new m dp = Returns (dp\<lparr>dp_listeners := ls, dp_conns := conns, dp_stack := st\<rparr>)"
    "handles_ok ls conns (sk_sockets st)" "mset (entries ls) = mset (entries (dp_listeners dp))"
    "sk_device st = sk_device (dp_stack dp)"
proof -
  have "l_handle ` set (dp_listeners dp) \<subseteq> dom (sk_sockets (dp_stack dp))" using assms(2) by (simp add: handles_ok_def)
  then obtain ips where "scan_active m (dp_conns dp) (sk_sockets (dp_stack dp)) 0 (dp_listeners dp) = Returns ips"
    "promotable (dp_listeners dp) (rev ips)" by (rule promotable_scan)
  then show thesis using promote_all_ok [OF assms, of "rev ips"] that by (auto simp: accept_new_def)
qed

section \<open>The shuttle over all connections\<close>

lemma shuttle_one_ok:
  assumes "handles_ok ls conns S" "conns h = Some b"
  obtains conns' S' where "shuttle_one m h (conns, S) = Returns (conns', S')" "handles_ok ls conns' S'"
    "dom conns - {h} \<subseteq> dom conns'"
proof -
  obtain s where s: "S h = Some s" using assms by (auto simp: handles_ok_def)
  have h: "h \<notin> l_handle ` set ls" "h \<in> dom conns" using assms by (auto simp: handles_ok_def)
  obtain s' b' where "shuttle_conn m s b = (s', b')" by fastforce
  then have e: "shuttle_one m h (conns, S) =
      Returns (if sk_is_open m s' then (conns(h \<mapsto> b'), S(h \<mapsto> s')) else (conns(h := None), S(h := None)))"
    using s assms(2) by (simp add: shuttle_one_def)
  have "handles_ok ls (conns(h \<mapsto> b')) (S(h \<mapsto> s'))" "handles_ok ls (conns(h := None)) (S(h := None))"
    using assms(1) h unfolding handles_ok_def by (simp_all add: insert_absorb, blast+)
  then show thesis using that e by (cases "sk_is_open m s'") auto
qed

lemma shuttle_handles_ok:
  "handles_ok ls conns S \<Longrightarrow> set hs \<subseteq> dom conns \<Longrightarrow> distinct hs \<Longrightarrow>
     \<exists>conns' S'. shuttle_handles m hs (conns, S) = Returns (conns', S') \<and> handles_ok ls conns' S'"
proof (induction hs arbitrary: conns S)
  case Nil
  then show ?case by simp
next
  case (Cons h hs)
  then obtain b where "conns h = Some b" by auto
  then obtain conns' S' where 1: "shuttle_one m h (conns, S) = Returns (conns', S')" "handles_ok ls conns' S'"
    "dom conns - {h} \<subseteq> dom conns'" using shuttle_one_ok [OF Cons.prems(1)] by blast
  moreover have "set hs \<subseteq> dom conns'" using 1(3) Cons.prems(2, 3) by (simp, blast)
  ultimately show ?case using Cons.IH [of conns' S'] Cons.prems(3) by simp
qed

definition iter_ok :: "(nat set \<Rightarrow> nat list) \<Rightarrow> bool" where
  "iter_ok iter \<longleftrightarrow> (\<forall>A. finite A \<longrightarrow> set (iter A) = A \<and> distinct (iter A))"

lemma shuttle_ok:
  assumes "iter_ok iter" "handles_ok (dp_listeners dp) (dp_conns dp) (sk_sockets (dp_stack dp))"
  obtains conns S where "shuttle m iter dp = Returns (dp\<lparr>dp_conns := conns, dp_stack := (dp_stack dp)\<lparr>sk_sockets := S\<rparr>\<rparr>)"
    "handles_ok (dp_listeners dp) conns S"
proof -
  have "finite (dom (dp_conns dp))" using assms(2) by (auto simp: handles_ok_def intro: finite_subset)
  then have "set (iter (dom (dp_conns dp))) \<subseteq> dom (dp_conns dp)" "distinct (iter (dom (dp_conns dp)))"
    using assms(1) by (auto simp: iter_ok_def)
  from shuttle_handles_ok [OF assms(2) this, of m] show thesis using that by (auto simp: shuttle_def)
qed

section \<open>The invariant of the data plane\<close>

definition plane_ok :: "('i, 'sk) dataplane \<Rightarrow> world \<Rightarrow> bool" where
  "plane_ok dp w \<longleftrightarrow>
     pump_ok 0 (dp_pump dp) w \<and> dv_mtu (sk_device (dp_stack dp)) = pm_mtu (dp_pump dp) \<and> dv_tx (sk_device (dp_stack dp)) = [] \<and>
     dp_udp_buf dp = udp_buf_len (pm_mtu (dp_pump dp)) \<and> length (dp_server_ip dp) = 4 \<and> length (dp_tunnel_ip4 dp) = 4 \<and>
     handles_ok (dp_listeners dp) (dp_conns dp) (sk_sockets (dp_stack dp))"

text \<open>A step that keeps the invariant, the ports and destinations listened for, and the MTU.\<close>

definition keeps :: "('i, 'sk) dataplane \<Rightarrow> world \<Rightarrow> ('i, 'sk) dataplane \<Rightarrow> world \<Rightarrow> bool" where
  "keeps dp w dp' w' \<longleftrightarrow>
     plane_ok dp' w' \<and> mset (entries (dp_listeners dp')) = mset (entries (dp_listeners dp)) \<and> later w w' \<and>
     pm_mtu (dp_pump dp') = pm_mtu (dp_pump dp)"

lemma keeps_trans: "keeps dp w dp1 w1 \<Longrightarrow> keeps dp1 w1 dp2 w2 \<Longrightarrow> keeps dp w dp2 w2"
  using later_trans by (auto simp: keeps_def)

lemma keeps_refl: "plane_ok dp w \<Longrightarrow> keeps dp w dp w"
  by (simp add: keeps_def)

lemma keeps_ok: "keeps dp w dp' w' \<Longrightarrow> plane_ok dp' w'"
  by (simp add: keeps_def)

lemma keeps_pump:
  assumes "plane_ok dp w" "pump_ok 0 (dp_pump dp\<lparr>pm_tun := t\<rparr>) w'" "later w w'"
  shows "keeps dp w (dp\<lparr>dp_pump := dp_pump dp\<lparr>pm_tun := t\<rparr>\<rparr>) w'"
  using assms by (simp add: keeps_def plane_ok_def)

lemma keeps_send: "plane_ok dp w \<Longrightarrow> keeps dp w (send_ignored b dp) w"
  by (simp add: keeps_def plane_ok_def send_ignored_def)

lemma keeps_optional_send: "plane_ok dp w \<Longrightarrow> keeps dp w (case dg of Some b \<Rightarrow> send_ignored b dp | None \<Rightarrow> dp) w"
  by (cases dg) (simp_all add: keeps_send keeps_refl)

lemma keeps_inbound: "plane_ok dp w \<Longrightarrow> keeps dp w (fold apply_inbound inbs dp) w"
proof (induction inbs arbitrary: dp)
  case Nil
  then show ?case by (simp add: keeps_refl)
next
  case (Cons i inbs)
  have "keeps dp w (apply_inbound i dp) w"
    using Cons.prems by (cases i) (simp_all add: apply_inbound_def keeps_send keeps_refl, simp add: keeps_def plane_ok_def push_rx_def Let_def)
  then show ?case using Cons.IH keeps_ok keeps_trans by fastforce
qed

lemma receive_datagram_ok:
  assumes "crypto_ok c" "plane_ok dp w" "length d \<le> scratch (dp_pump dp) + 16"
  shows "\<exists>dp' w'. receive_datagram c d dp w = Some (Returns (dp', w')) \<and> keeps dp w dp' w'"
proof -
  let ?d = "take (dp_udp_buf dp) d"
  have p: "pump_ok 0 (dp_pump dp) w" using assms(2) by (simp add: plane_ok_def)
  have len: "length ?d \<le> scratch (dp_pump dp) + 16" using assms(3) by simp
  obtain inb t w1 where d: "pump_decapsulate c (dp_pump dp) ?d w = Returns (inb, dp_pump dp\<lparr>pm_tun := t\<rparr>, w1)"
    "pump_ok 0 (dp_pump dp\<lparr>pm_tun := t\<rparr>) w1" "later w w1"
    using pump_decapsulate_ok [OF assms(1) p, of ?d] len by blast
  obtain more t' w2 where l: "drain_loop c (dp_pump dp\<lparr>pm_tun := t\<rparr>) w1 [] = Some (Returns (more, dp_pump dp\<lparr>pm_tun := t'\<rparr>, w2))"
    using drain_loop_returns [OF d(2), of c "[]"] by auto
  have "pump_ok 0 (dp_pump dp\<lparr>pm_tun := t'\<rparr>) w2" "later w1 w2" using drain_loop_ok [OF l assms(1) d(2)] by simp_all
  then have k: "keeps dp w (dp\<lparr>dp_pump := dp_pump dp\<lparr>pm_tun := t'\<rparr>\<rparr>) w2"
    using keeps_pump [OF assms(2)] later_trans [OF d(3)] by blast
  then show ?thesis
    using d(1) l keeps_trans [OF k keeps_inbound [OF keeps_ok [OF k]], of "inb # more"] by (simp add: receive_datagram_def)
qed

lemma encapsulate_all_ok:
  assumes "crypto_ok c"
  shows "plane_ok dp w \<Longrightarrow> \<forall>p \<in> set pkts. length p \<le> pm_mtu (dp_pump dp) \<Longrightarrow>
    \<exists>dp' w'. encapsulate_all c pkts dp w = Returns (dp', w') \<and> keeps dp w dp' w'"
proof (induction pkts arbitrary: dp w)
  case Nil
  then show ?case by (simp add: keeps_refl)
next
  case (Cons pkt pkts)
  have "pump_ok 0 (dp_pump dp) w" "length pkt \<le> max (pm_mtu (dp_pump dp)) 1500"
    using Cons.prems by (auto simp: plane_ok_def)
  then obtain dg t w1 where e: "pump_encapsulate c (dp_pump dp) pkt w = Returns (dg, dp_pump dp\<lparr>pm_tun := t\<rparr>, w1)"
    "pump_ok 0 (dp_pump dp\<lparr>pm_tun := t\<rparr>) w1" "later w w1"
    using pump_encapsulate_ok [OF assms] by blast
  let ?dp = "dp\<lparr>dp_pump := dp_pump dp\<lparr>pm_tun := t\<rparr>\<rparr>"
  let ?dp' = "case dg of Some b \<Rightarrow> send_ignored b ?dp | None \<Rightarrow> ?dp"
  have k1: "keeps dp w ?dp w1" using keeps_pump [OF Cons.prems(1) e(2, 3)] .
  have k: "keeps dp w ?dp' w1" using keeps_trans [OF k1 keeps_optional_send [OF keeps_ok [OF k1]]] .
  have "\<forall>p \<in> set pkts. length p \<le> pm_mtu (dp_pump ?dp')" using Cons.prems(2) k by (simp add: keeps_def)
  from Cons.IH [OF keeps_ok [OF k] this] obtain dp2 w2
    where r: "encapsulate_all c pkts ?dp' w1 = Returns (dp2, w2)" "keeps ?dp' w1 dp2 w2" by blast
  then show ?case using e(1) keeps_trans [OF k r(2)] by simp
qed

lemma poll_stack_ok:
  assumes "crypto_ok c" "smol_ok m" "plane_ok dp w"
  shows "\<exists>dp' w'. poll_stack c m dp w = Returns (dp', w') \<and> keeps dp w dp' w'"
proof -
  obtain i d S where p: "if_poll m 0 (sk_iface (dp_stack dp)) (sk_device (dp_stack dp)) (sk_sockets (dp_stack dp)) = (i, d, S)"
    by (cases "if_poll m 0 (sk_iface (dp_stack dp)) (sk_device (dp_stack dp)) (sk_sockets (dp_stack dp))") auto
  let ?st = "\<lparr>sk_device = d\<lparr>dv_tx := []\<rparr>, sk_iface = i, sk_sockets = S\<rparr>"
  have law: "dom S = dom (sk_sockets (dp_stack dp))" "dv_mtu d = dv_mtu (sk_device (dp_stack dp))"
    "\<forall>x \<in> set (dv_tx d). length x \<le> dv_mtu d"
    using smol_ok_poll [OF assms(2) p] assms(3) by (auto simp: plane_ok_def)
  have k: "keeps dp w (dp\<lparr>dp_stack := ?st\<rparr>) w" using assms(3) law by (simp add: keeps_def plane_ok_def handles_ok_def)
  have "\<forall>x \<in> set (dv_tx d). length x \<le> pm_mtu (dp_pump (dp\<lparr>dp_stack := ?st\<rparr>))"
    using law(2, 3) assms(3) by (simp add: plane_ok_def)
  from encapsulate_all_ok [OF assms(1) keeps_ok [OF k] this] show ?thesis
    using keeps_trans [OF k] p by (fastforce simp: poll_stack_def stack_poll_def)
qed

lemma site_timers_ok:
  assumes "crypto_ok c" "plane_ok dp w"
  shows "\<exists>dp' w'. site_timers c dp w = Returns (dp', w') \<and> keeps dp w dp' w'"
proof -
  have "pump_ok 0 (dp_pump dp) w" using assms(2) by (simp add: plane_ok_def)
  then obtain dg t w1 where e: "pump_update_timers c (dp_pump dp) w = Returns (dg, dp_pump dp\<lparr>pm_tun := t\<rparr>, w1)"
    "pump_ok 0 (dp_pump dp\<lparr>pm_tun := t\<rparr>) w1" "later w w1"
    using pump_update_timers_ok [OF assms(1)] by blast
  have k: "keeps dp w (dp\<lparr>dp_pump := dp_pump dp\<lparr>pm_tun := t\<rparr>\<rparr>) w1" using keeps_pump [OF assms(2) e(2, 3)] .
  then show ?thesis
    using e(1) keeps_trans [OF k keeps_optional_send [OF keeps_ok [OF k]]] by (simp add: site_timers_def Let_def)
qed

lemma service_ok:
  assumes "crypto_ok c" "smol_ok m" "iter_ok iter" "plane_ok dp w"
  shows "\<exists>dp' w'. service c m iter dp w = Returns (dp', w') \<and> keeps dp w dp' w'"
proof -
  obtain dp1 w1 where 1: "poll_stack c m dp w = Returns (dp1, w1)" "keeps dp w dp1 w1"
    using poll_stack_ok [OF assms(1, 2, 4)] by blast
  obtain dp2 w2 where 2: "site_timers c dp1 w1 = Returns (dp2, w2)" "keeps dp1 w1 dp2 w2"
    using site_timers_ok [OF assms(1) keeps_ok [OF 1(2)]] by blast
  have ok2: "plane_ok dp2 w2" using keeps_ok [OF 2(2)] .
  then have h2: "handles_ok (dp_listeners dp2) (dp_conns dp2) (sk_sockets (dp_stack dp2))" by (simp add: plane_ok_def)
  obtain ls conns st where 3: "accept_new m dp2 = Returns (dp2\<lparr>dp_listeners := ls, dp_conns := conns, dp_stack := st\<rparr>)"
    "handles_ok ls conns (sk_sockets st)" "mset (entries ls) = mset (entries (dp_listeners dp2))" "sk_device st = sk_device (dp_stack dp2)"
    using accept_new_ok [OF assms(2) h2] by blast
  let ?dp3 = "dp2\<lparr>dp_listeners := ls, dp_conns := conns, dp_stack := st\<rparr>"
  have k3: "keeps dp2 w2 ?dp3 w2" using ok2 3 by (simp add: keeps_def plane_ok_def)
  have h3: "handles_ok (dp_listeners ?dp3) (dp_conns ?dp3) (sk_sockets (dp_stack ?dp3))" using 3(2) by simp
  obtain conns' S where 4: "shuttle m iter ?dp3 = Returns (?dp3\<lparr>dp_conns := conns', dp_stack := (dp_stack ?dp3)\<lparr>sk_sockets := S\<rparr>\<rparr>)"
    "handles_ok (dp_listeners ?dp3) conns' S"
    by (rule shuttle_ok [OF assms(3) h3])
  let ?dp4 = "?dp3\<lparr>dp_conns := conns', dp_stack := (dp_stack ?dp3)\<lparr>sk_sockets := S\<rparr>\<rparr>"
  have "keeps ?dp3 w2 ?dp4 w2" using keeps_ok [OF k3] 4(2) by (simp add: keeps_def plane_ok_def)
  then have "keeps dp w ?dp4 w2" using 1(2) 2(2) k3 keeps_trans by blast
  moreover have "service c m iter dp w = Returns (?dp4, w2)" using 1(1) 2(1) 3(1) 4(1) by (simp add: service_def)
  ultimately show ?thesis by blast
qed

lemma step_io_ok:
  assumes "crypto_ok c" "smol_ok m" "iter_ok iter" "plane_ok dp w"
    and "\<And>d. ev = Datagram d \<Longrightarrow> length d \<le> scratch (dp_pump dp) + 16"
  shows "\<exists>r dp' w'. step_io c m iter ev dp w = Some (Returns (r, dp', w')) \<and> keeps dp w dp' w'"
proof (cases ev)
  case (Datagram d)
  obtain dp1 w1 where 1: "receive_datagram c d dp w = Some (Returns (dp1, w1))" "keeps dp w dp1 w1"
    using receive_datagram_ok [OF assms(1, 4) assms(5) [OF Datagram]] by blast
  obtain dp2 w2 where 2: "service c m iter dp1 w1 = Returns (dp2, w2)" "keeps dp1 w1 dp2 w2"
    using service_ok [OF assms(1-3) keeps_ok [OF 1(2)]] by blast
  then show ?thesis using Datagram 1 keeps_trans [OF 1(2) 2(2)] by (simp add: step_io_def)
next
  case (RecvError e)
  then show ?thesis using assms(4) by (simp add: step_io_def keeps_refl)
next
  case Timeout
  then show ?thesis using service_ok [OF assms(1-4)] by (auto simp: step_io_def)
qed

section \<open>The listeners as a table\<close>

definition table :: "('i, 'sk) dataplane \<Rightarrow> u16 \<rightharpoonup> string" where
  "table dp = map_of (entries (dp_listeners dp))"

definition one_per_port :: "('i, 'sk) dataplane \<Rightarrow> bool" where
  "one_per_port dp \<longleftrightarrow> distinct (map fst (entries (dp_listeners dp)))"

lemma table_perm:
  assumes "mset (entries (dp_listeners dp')) = mset (entries (dp_listeners dp))" "one_per_port dp"
  shows "table dp' = table dp \<and> one_per_port dp'"
proof -
  have "mset (map fst (entries (dp_listeners dp'))) = mset (map fst (entries (dp_listeners dp)))"
    using assms(1) by (simp add: mset_map)
  then have d: "distinct (map fst (entries (dp_listeners dp')))"
    using assms(2) unfolding one_per_port_def by (metis mset_eq_imp_distinct_iff)
  have "map_of (entries (dp_listeners dp')) = map_of (entries (dp_listeners dp))"
    using map_of_inject_set [OF d assms(2) [unfolded one_per_port_def]] mset_eq_setD [OF assms(1)] by blast
  then show ?thesis using d by (simp add: table_def one_per_port_def)
qed

text \<open>A step on the listeners: the invariant is kept and the table changed by \<open>f\<close>.\<close>

definition retables :: "((u16 \<rightharpoonup> string) \<Rightarrow> (u16 \<rightharpoonup> string)) \<Rightarrow> world \<Rightarrow> ('i, 'sk) dataplane \<Rightarrow> ('i, 'sk) dataplane \<Rightarrow> bool" where
  "retables f w dp dp' \<longleftrightarrow>
     (plane_ok dp w \<longrightarrow> plane_ok dp' w) \<and> dp_pump dp' = dp_pump dp \<and>
     (plane_ok dp w \<longrightarrow> one_per_port dp \<longrightarrow> one_per_port dp' \<and> table dp' = f (table dp))"

lemma retables_push:
  assumes "smol_ok m" "\<not> list_ex (\<lambda>l. l_port l = port) (dp_listeners dp)"
  shows "retables (\<lambda>T. T(port \<mapsto> t)) w dp (on_listeners (push_listener m port t) dp)"
proof -
  obtain ls st where p: "push_listener m port t (dp_listeners dp, dp_stack dp) = (ls, st)" by fastforce
  have new: "port \<notin> fst ` set (entries (dp_listeners dp))" using assms(2) by (auto simp: entries_def list_ex_iff)
  note ok = handles_ok_push [OF assms(1) _ p]
  have "map_of (xs @ [(port, t)]) = (map_of xs)(port \<mapsto> t)" if "port \<notin> fst ` set xs" for xs :: "(u16 \<times> string) list"
    using that by (induction xs) (auto simp: fun_eq_iff)
  then show ?thesis
    using ok p new by (auto simp: retables_def on_listeners_def plane_ok_def one_per_port_def table_def)
qed

lemma retables_fold:
  assumes "\<And>x dp. retables (f x) w dp (g x dp)"
  shows "retables (fold f xs) w dp (fold g xs dp)"
proof (induction xs arbitrary: dp)
  case Nil
  then show ?case by (simp add: retables_def)
next
  case (Cons x xs)
  then show ?case using assms [of x dp] Cons.IH [of "g x dp"] by (simp add: retables_def)
qed

fun table_add :: "string \<Rightarrow> (u16 \<rightharpoonup> string) \<Rightarrow> (u16 \<rightharpoonup> string)" where
  "table_add spec T =
     (case parse_target spec of
        None \<Rightarrow> T
      | Some t \<Rightarrow> if T (listen_port t) = None then T(listen_port t \<mapsto> dial_string t) else T)"

lemma list_ex_table: "list_ex (\<lambda>l. l_port l = p) (dp_listeners dp) \<longleftrightarrow> table dp p \<noteq> None"
  by (auto simp: table_def map_of_eq_None_iff entries_def list_ex_iff image_image)

lemma retables_add: "smol_ok m \<Longrightarrow> retables (table_add spec) w dp (add_target m spec dp)"
proof (cases "parse_target spec")
  case None
  then show ?thesis by (simp add: add_target_def retables_def)
next
  case (Some t)
  assume m: "smol_ok m"
  show ?thesis
  proof (cases "list_ex (\<lambda>l. l_port l = listen_port t) (dp_listeners dp)")
    case True
    then show ?thesis using Some list_ex_table [of "listen_port t" dp] by (auto simp: add_target_def retables_def)
  next
    case False
    then show ?thesis
      using Some retables_push [OF m False, of "dial_string t" w] list_ex_table [of "listen_port t" dp]
      by (auto simp: add_target_def retables_def)
  qed
qed

definition table_remove :: "u16 \<Rightarrow> (u16 \<rightharpoonup> string) \<Rightarrow> (u16 \<rightharpoonup> string)" where
  "table_remove p T = T(p := None)"

definition table_set :: "target \<Rightarrow> (u16 \<rightharpoonup> string) \<Rightarrow> (u16 \<rightharpoonup> string)" where
  "table_set t T = T(listen_port t \<mapsto> dial_string t)"

lemma table_filter: "map_of (entries (filter (\<lambda>l. l_port l \<noteq> p) ls)) = (map_of (entries ls))(p := None)"
  by (induction ls) (auto simp: entries_def fun_eq_iff)

lemma remove_ports_ok:
  "plane_ok dp w \<Longrightarrow>
     \<exists>dp'. remove_ports ps dp = Returns dp' \<and> retables (fold table_remove ps) w dp dp'
       \<and> fst ` set (entries (dp_listeners dp')) = fst ` set (entries (dp_listeners dp)) - set ps"
proof (induction ps arbitrary: dp)
  case Nil
  then show ?case by (simp add: retables_def)
next
  case (Cons p ps)
  have h: "handles_ok (dp_listeners dp) (dp_conns dp) (sk_sockets (dp_stack dp))" using Cons.prems by (simp add: plane_ok_def)
  obtain ls st where r: "remove_port p (dp_listeners dp) (dp_stack dp) = Returns (ls, st)"
    "handles_ok ls (dp_conns dp) (sk_sockets st)" "sk_device st = sk_device (dp_stack dp)"
    "mset (entries ls) = mset (entries (filter (\<lambda>l. l_port l \<noteq> p) (dp_listeners dp)))"
    using remove_port_ok [OF h, of p] by blast
  let ?dp = "dp\<lparr>dp_listeners := ls, dp_stack := st\<rparr>" and ?flt = "dp\<lparr>dp_listeners := filter (\<lambda>l. l_port l \<noteq> p) (dp_listeners dp)\<rparr>"
  have ok: "plane_ok ?dp w" using Cons.prems r(2, 3) by (simp add: plane_ok_def)
  have "one_per_port ?flt" if "one_per_port dp"
    using that by (auto simp: one_per_port_def entries_def comp_def distinct_map_filter)
  then have tab: "one_per_port ?dp \<and> table ?dp = table_remove p (table dp)" if "one_per_port dp"
    using that table_perm [of ?dp ?flt] r(4) by (auto simp: table_def table_filter table_remove_def)
  have ports: "fst ` set (entries ls) = fst ` set (entries (dp_listeners dp)) - {p}"
    using mset_eq_setD [OF r(4)] by (auto simp: entries_def)
  from Cons.IH [OF ok] obtain dp' where "remove_ports ps ?dp = Returns dp'"
    "retables (fold table_remove ps) w ?dp dp'"
    "fst ` set (entries (dp_listeners dp')) = fst ` set (entries (dp_listeners ?dp)) - set ps" by blast
  then show ?case using r(1) tab ok ports by (auto simp: retables_def)
qed

lemma table_update_first:
  "list_ex (\<lambda>l. l_port l = p) ls \<Longrightarrow>
     map_of (entries (update_first (\<lambda>l. l_port l = p) (\<lambda>l. l\<lparr>l_target := v\<rparr>) ls)) = (map_of (entries ls))(p \<mapsto> v)"
  by (induction ls) (auto simp: entries_def fun_eq_iff)

lemma retables_set:
  assumes "smol_ok m"
  shows "retables (table_set t) w dp (set_target m t dp)"
proof (cases "list_ex (\<lambda>l. l_port l = listen_port t) (dp_listeners dp)")
  case True
  let ?ls = "update_first (\<lambda>l. l_port l = listen_port t) (\<lambda>l. l\<lparr>l_target := dial_string t\<rparr>) (dp_listeners dp)"
  have m: "map l_handle ?ls = map l_handle (dp_listeners dp)" "map l_port ?ls = map l_port (dp_listeners dp)"
    by (simp_all add: map_update_first)
  then have "l_handle ` set ?ls = l_handle ` set (dp_listeners dp)" by (metis set_map)
  then show ?thesis
    using True m table_update_first [OF True, of "dial_string t"]
    by (simp add: set_target_def retables_def plane_ok_def handles_ok_def one_per_port_def table_def entries_def comp_def table_set_def)
next
  case False
  then show ?thesis using retables_push [OF assms False] by (simp add: set_target_def retables_def table_set_def)
qed

lemma fold_table_set:
  "fold table_set ts T = T ++ fold table_set ts Map.empty" "dom (fold table_set ts Map.empty) = listen_port ` set ts"
proof (induction ts rule: rev_induct)
  case (snoc t ts)
  { case 1 then show ?case using snoc.IH(1) by (intro ext) (simp add: table_set_def [of t] map_add_def) }
  { case 2 then show ?case using snoc.IH(2) by (simp add: table_set_def [of t] dom_def set_eq_iff image_iff) }
qed simp_all

lemma map_add_covered: "dom T \<subseteq> dom M \<Longrightarrow> T ++ M = M"
  by (rule ext) (auto simp: map_add_def dom_def split: option.splits)

lemma reconcile_ok:
  assumes "smol_ok m" "plane_ok dp w"
  shows "\<exists>dp'. reconcile_targets m specs dp = Returns dp'
    \<and> retables (\<lambda>_. fold table_set (List.map_filter parse_target specs) Map.empty) w dp dp'"
proof -
  let ?ts = "List.map_filter parse_target specs"
  let ?drop = "filter (\<lambda>p. p \<notin> set (map listen_port ?ts)) (map l_port (dp_listeners dp))"
  obtain dp1 where 1: "remove_ports ?drop dp = Returns dp1" "retables (fold table_remove ?drop) w dp dp1"
    "fst ` set (entries (dp_listeners dp1)) = fst ` set (entries (dp_listeners dp)) - set ?drop"
    using remove_ports_ok [OF assms(2)] by blast
  have 2: "retables (fold table_set ?ts) w dp1 (fold (set_target m) ?ts dp1)"
    using retables_set [OF assms(1)] by (rule retables_fold)
  have "fst ` set (entries (dp_listeners dp1)) \<subseteq> listen_port ` set ?ts" unfolding 1(3) by (auto simp: entries_def)
  then have "dom (table dp1) \<subseteq> dom (fold table_set ?ts Map.empty)"
    by (simp add: fold_table_set(2) table_def dom_map_of_conv_image_fst)
  then have "fold table_set ?ts (table dp1) = fold table_set ?ts Map.empty"
    using fold_table_set(1) [of ?ts "table dp1"] map_add_covered by simp
  then have "retables (\<lambda>_. fold table_set ?ts Map.empty) w dp (fold (set_target m) ?ts dp1)"
    using 1(2) 2 by (simp add: retables_def)
  then show ?thesis using 1(1) by (auto simp: reconcile_targets_def Let_def)
qed

section \<open>Runs\<close>

text \<open>
  What a session does with its data plane. A failing send ends the session; the runs below
  go on, so that those of a session are prefixes of them.
\<close>

datatype site_op =
    AddTargets "string list"
  | RemoveTargets "string list"
  | ReconcileTargets "string list"
  | SendPing
  | SendHolepunch
  | StepIo udp_event

fun site_step ::
  "crypto \<Rightarrow> ('i, 'sk) smol \<Rightarrow> (nat set \<Rightarrow> nat list) \<Rightarrow> (string \<Rightarrow> string + bytes) \<Rightarrow> (bytes \<Rightarrow> string) \<Rightarrow> (json \<Rightarrow> string) \<Rightarrow>
     site_op \<Rightarrow> ('i, 'sk) dataplane \<Rightarrow> world \<Rightarrow> ((io_error + unit) \<times> ('i, 'sk) dataplane \<times> world) outcome option" where
  "site_step c m iter dec enc ser (AddTargets specs) dp w = Some (Returns (Inr (), add_targets m specs dp, w))"
| "site_step c m iter dec enc ser (RemoveTargets specs) dp w =
     Some (obind (remove_targets specs dp) (\<lambda>dp. Returns (Inr (), dp, w)))"
| "site_step c m iter dec enc ser (ReconcileTargets specs) dp w =
     Some (obind (reconcile_targets m specs dp) (\<lambda>dp. Returns (Inr (), dp, w)))"
| "site_step c m iter dec enc ser SendPing dp w = Some (send_ping c dp w)"
| "site_step c m iter dec enc ser SendHolepunch dp w = Some (Returns (send_holepunch c dec enc ser dp w))"
| "site_step c m iter dec enc ser (StepIo ev) dp w = step_io c m iter ev dp w"

fun site_run ::
  "crypto \<Rightarrow> ('i, 'sk) smol \<Rightarrow> (nat set \<Rightarrow> nat list) \<Rightarrow> (string \<Rightarrow> string + bytes) \<Rightarrow> (bytes \<Rightarrow> string) \<Rightarrow> (json \<Rightarrow> string) \<Rightarrow>
     site_op list \<Rightarrow> ('i, 'sk) dataplane \<Rightarrow> world \<Rightarrow> (('i, 'sk) dataplane \<times> world) outcome option" where
  "site_run c m iter dec enc ser [] dp w = Some (Returns (dp, w))"
| "site_run c m iter dec enc ser (x # xs) dp w =
     (case site_step c m iter dec enc ser x dp w of
        None \<Rightarrow> None
      | Some Panics \<Rightarrow> Some Panics
      | Some (Returns (_, dp, w)) \<Rightarrow> site_run c m iter dec enc ser xs dp w)"

definition site_fits :: "nat \<Rightarrow> site_op \<Rightarrow> bool" where
  "site_fits mtu x = (case x of StepIo (Datagram d) \<Rightarrow> length d \<le> max mtu 1500 + 48 | _ \<Rightarrow> True)"

fun table_op :: "site_op \<Rightarrow> (u16 \<rightharpoonup> string) \<Rightarrow> (u16 \<rightharpoonup> string)" where
  "table_op (AddTargets specs) T = fold table_add specs T"
| "table_op (RemoveTargets specs) T = fold table_remove (map listen_port (List.map_filter parse_target specs)) T"
| "table_op (ReconcileTargets specs) T = fold table_set (List.map_filter parse_target specs) Map.empty"
| "table_op _ T = T"

lemma send_ping_ok:
  assumes "crypto_ok c" "plane_ok dp w"
  shows "\<exists>r dp' w'. send_ping c dp w = Returns (r, dp', w') \<and> keeps dp w dp' w'"
proof -
  let ?dp = "dp\<lparr>dp_ping_seq := dp_ping_seq dp + 1\<rparr>"
  let ?pkt = "icmp_echo (dp_tunnel_ip4 dp) (dp_server_ip dp) 1 (dp_ping_seq dp + 1)"
  have ok: "plane_ok ?dp w" using assms(2) by (simp add: plane_ok_def)
  have "length ?pkt = 36" using assms(2) length_icmp_echo by (simp add: plane_ok_def)
  then have "length ?pkt \<le> max (pm_mtu (dp_pump dp)) 1500" by simp
  moreover have "pump_ok 0 (dp_pump dp) w" using assms(2) by (simp add: plane_ok_def)
  ultimately obtain dg t w1 where e: "pump_encapsulate c (dp_pump dp) ?pkt w = Returns (dg, dp_pump dp\<lparr>pm_tun := t\<rparr>, w1)"
    "pump_ok 0 (dp_pump dp\<lparr>pm_tun := t\<rparr>) w1" "later w w1"
    using pump_encapsulate_ok [OF assms(1)] by blast
  then have "keeps dp w (?dp\<lparr>dp_pump := dp_pump dp\<lparr>pm_tun := t\<rparr>, dp_udp := u\<rparr>) w1" for u
    using ok by (simp add: keeps_def plane_ok_def)
  moreover have "keeps dp w (?dp\<lparr>dp_pump := dp_pump dp\<lparr>pm_tun := t\<rparr>\<rparr>) w1"
    using ok e(2, 3) by (simp add: keeps_def plane_ok_def)
  ultimately show ?thesis using e(1) by (cases dg) (simp_all add: send_ping_def Let_def case_prod_beta)
qed

lemma send_holepunch_ok:
  assumes "plane_ok dp w" "send_holepunch c dec enc ser dp w = (r, dp', w')"
  shows "keeps dp w dp' w'"
proof -
  obtain b w1 where h: "holepunch_build c dec enc ser ''newtId'' (dp_newt_id dp) (dp_token dp) (dp_newt_pub dp) (dp_server_pub dp) w = (b, w1)"
    by fastforce
  then have l: "later w w1"
    using later_trans [OF later_fill later_fill]
    by (auto simp: holepunch_build_def Let_def case_prod_beta split: sum.splits if_splits)
  have "plane_ok dp w1" using assms(1) l pump_ok_later by (auto simp: plane_ok_def)
  then show ?thesis
    using assms(2) h l by (cases b) (auto simp: send_holepunch_def keeps_def plane_ok_def case_prod_beta)
qed

lemma site_step_ok:
  assumes "crypto_ok c" "smol_ok m" "iter_ok iter" "plane_ok dp w" "site_fits (pm_mtu (dp_pump dp)) x"
  shows "\<exists>r dp' w'. site_step c m iter dec enc ser x dp w = Some (Returns (r, dp', w')) \<and> plane_ok dp' w' \<and> later w w'
    \<and> pm_mtu (dp_pump dp') = pm_mtu (dp_pump dp)
    \<and> (one_per_port dp \<longrightarrow> one_per_port dp' \<and> table dp' = table_op x (table dp))"
proof -
  have kept: "?thesis" if "site_step c m iter dec enc ser x dp w = Some (Returns (r, dp', w'))" "keeps dp w dp' w'"
    "\<And>T. table_op x T = T" for r dp' w'
    using that table_perm [of dp' dp] by (auto simp: keeps_def)
  have changed: "?thesis" if "site_step c m iter dec enc ser x dp w = Some (Returns (Inr (), dp', w))" "retables (table_op x) w dp dp'"
    for dp'
    using that assms(4) by (auto simp: retables_def)
  show ?thesis
  proof (cases x)
    case (AddTargets specs)
    then have "retables (table_op x) w dp (add_targets m specs dp)"
      using retables_fold [OF retables_add [OF assms(2)]] by (simp add: add_targets_def fun_eq_iff [symmetric] retables_def)
    then show ?thesis using AddTargets by (intro changed) simp_all
  next
    case (RemoveTargets specs)
    obtain dp' where "remove_targets specs dp = Returns dp'"
      "retables (fold table_remove (map listen_port (List.map_filter parse_target specs))) w dp dp'"
      using remove_ports_ok [OF assms(4)] unfolding remove_targets_def by blast
    then show ?thesis using RemoveTargets by (intro changed [of dp']) (simp_all add: retables_def)
  next
    case (ReconcileTargets specs)
    obtain dp' where "reconcile_targets m specs dp = Returns dp'"
      "retables (\<lambda>_. fold table_set (List.map_filter parse_target specs) Map.empty) w dp dp'"
      using reconcile_ok [OF assms(2, 4)] by blast
    then show ?thesis using ReconcileTargets by (intro changed [of dp']) (simp_all add: retables_def)
  next
    case SendPing
    obtain r dp' w' where "send_ping c dp w = Returns (r, dp', w')" "keeps dp w dp' w'"
      using send_ping_ok [OF assms(1, 4)] by blast
    then show ?thesis using SendPing by (intro kept [of r dp' w']) simp_all
  next
    case SendHolepunch
    obtain r dp' w' where "send_holepunch c dec enc ser dp w = (r, dp', w')" by (metis surj_pair)
    then show ?thesis using SendHolepunch send_holepunch_ok [OF assms(4)] by (intro kept [of r dp' w']) simp_all
  next
    case (StepIo ev)
    then have "length d \<le> scratch (dp_pump dp) + 16" if "ev = Datagram d" for d
      using assms(5) that by (simp add: site_fits_def scratch_def)
    then obtain r dp' w' where "step_io c m iter ev dp w = Some (Returns (r, dp', w'))" "keeps dp w dp' w'"
      using step_io_ok [OF assms(1-4)] by blast
    then show ?thesis using StepIo by (intro kept [of r dp' w']) simp_all
  qed
qed

lemma site_run_ok:
  assumes "crypto_ok c" "smol_ok m" "iter_ok iter"
  shows "plane_ok dp w \<Longrightarrow> \<forall>x \<in> set xs. site_fits (pm_mtu (dp_pump dp)) x \<Longrightarrow>
    \<exists>dp' w'. site_run c m iter dec enc ser xs dp w = Some (Returns (dp', w')) \<and> plane_ok dp' w' \<and> later w w'
    \<and> (one_per_port dp \<longrightarrow> one_per_port dp' \<and> table dp' = fold table_op xs (table dp))"
proof (induction xs arbitrary: dp w)
  case Nil
  then show ?case by simp
next
  case (Cons x xs)
  then obtain r dp1 w1 where 1: "site_step c m iter dec enc ser x dp w = Some (Returns (r, dp1, w1))" "plane_ok dp1 w1" "later w w1"
    "pm_mtu (dp_pump dp1) = pm_mtu (dp_pump dp)" "one_per_port dp \<longrightarrow> one_per_port dp1 \<and> table dp1 = table_op x (table dp)"
    using site_step_ok [OF assms Cons.prems(1), of x dec enc ser] by auto
  obtain dp2 w2 where "site_run c m iter dec enc ser xs dp1 w1 = Some (Returns (dp2, w2))" "plane_ok dp2 w2" "later w1 w2"
    "one_per_port dp1 \<longrightarrow> one_per_port dp2 \<and> table dp2 = fold table_op xs (table dp1)"
    using Cons.IH [OF 1(2)] Cons.prems(2) 1(4) by auto
  then show ?case using 1 later_trans by auto
qed

section \<open>Bringing the tunnel up\<close>

lemma fold_push_ok:
  assumes "smol_ok m"
  shows "handles_ok ls Map.empty (sk_sockets st) \<Longrightarrow>
    fold (\<lambda>t. push_listener m (listen_port t) (dial_string t)) ts (ls, st) = (ls', st') \<Longrightarrow>
    handles_ok ls' Map.empty (sk_sockets st') \<and> sk_device st' = sk_device st
    \<and> entries ls' = entries ls @ map (\<lambda>t. (listen_port t, dial_string t)) ts"
proof (induction ts arbitrary: ls st)
  case (Cons t ts)
  obtain ls1 st1 where "push_listener m (listen_port t) (dial_string t) (ls, st) = (ls1, st1)" by fastforce
  then show ?case using handles_ok_push [OF assms Cons.prems(1)] Cons.IH [of ls1 st1] Cons.prems(2) by simp
qed simp

lemma bring_up_result:
  assumes "bring_up c m os dec wg cfg keys token w = (Inr dp, w')"
  obtains peer_pub p1 w1 init ip a b where
    "pump_new c (k_secret keys) peer_pub (sr_mtu cfg) w = (p1, w1)" "initiate_handshake c p1 w1 = (init, dp_pump dp, w')"
    "fold (\<lambda>t. push_listener m (listen_port t) (dial_string t)) (List.map_filter parse_target (tcp (wd_targets wg)))
       ([], stack_new m ip (sr_mtu cfg)) = (dp_listeners dp, dp_stack dp)"
    "dp_conns dp = Map.empty" "dp_udp_buf dp = udp_buf_len (sr_mtu cfg)" "dp_server_ip dp = be32 a" "dp_tunnel_ip4 dp = be32 b"
  using assms unfolding bring_up_def Let_def
  by (clarsimp split: option.splits Option.bind_splits sum.splits list.splits prod.splits; blast)

lemma bring_up_ok:
  assumes "smol_ok m" "clock_from T w" "bring_up c m os dec wg cfg keys token w = (Inr dp, w')"
  shows "plane_ok dp w' \<and> pm_mtu (dp_pump dp) = sr_mtu cfg
    \<and> entries (dp_listeners dp) = map (\<lambda>t. (listen_port t, dial_string t)) (List.map_filter parse_target (tcp (wd_targets wg)))"
proof -
  obtain peer_pub p1 w1 init ip a b where
    p: "pump_new c (k_secret keys) peer_pub (sr_mtu cfg) w = (p1, w1)" "initiate_handshake c p1 w1 = (init, dp_pump dp, w')" and
    f: "fold (\<lambda>t. push_listener m (listen_port t) (dial_string t)) (List.map_filter parse_target (tcp (wd_targets wg)))
       ([], stack_new m ip (sr_mtu cfg)) = (dp_listeners dp, dp_stack dp)" and
    e: "dp_conns dp = Map.empty" "dp_udp_buf dp = udp_buf_len (sr_mtu cfg)" "dp_server_ip dp = be32 a" "dp_tunnel_ip4 dp = be32 b"
    by (rule bring_up_result [OF assms(3)])
  have "pump_ok 0 p1 w1" "pm_mtu p1 = sr_mtu cfg"
    using with_index_ok [OF assms(2), of c "k_secret keys" peer_pub "sr_mtu cfg" 0 p1 w1] p(1) by (simp_all add: pump_new_def)
  then have "pump_ok 0 (dp_pump dp) w'" "pm_mtu (dp_pump dp) = sr_mtu cfg" using initiate_handshake_ok [OF _ p(2)] by auto
  moreover have "handles_ok [] Map.empty (sk_sockets (stack_new m ip (sr_mtu cfg)))"
    by (simp add: handles_ok_def stack_new_def Let_def)
  from fold_push_ok [OF assms(1) this f] have "handles_ok (dp_listeners dp) Map.empty (sk_sockets (dp_stack dp))"
    "sk_device (dp_stack dp) = device_new (sr_mtu cfg)"
    "entries (dp_listeners dp) = map (\<lambda>t. (listen_port t, dial_string t)) (List.map_filter parse_target (tcp (wd_targets wg)))"
    by (simp_all add: stack_new_def Let_def entries_def)
  ultimately show ?thesis using e by (simp add: plane_ok_def device_new_def)
qed

section \<open>Properties\<close>


definition demo_os :: os where
  "demo_os = \<lparr>lookup_host = (\<lambda>_ p. Inr [(V4 0x01020304, p)]), udp_bind = Inr \<lparr>u_sent = [], u_ok = \<lambda>_. True\<rparr>,
     parse_smol_ip = (\<lambda>_. Some (V4 0x64590002))\<rparr>"

definition demo_wg :: "string list \<Rightarrow> wg_data" where
  "demo_wg specs = \<lparr>wd_endpoint = ''a:51820'', wd_public_key = ''k'', wd_server_ip = ''100.89.0.1'', wd_tunnel_ip = ''100.89.0.2'',
     wd_relay_port = 0, wd_targets = \<lparr>tcp = specs, udp = []\<rparr>, wd_chain_id = []\<rparr>"

definition demo_site :: site_run where
  "demo_site = \<lparr>sr_endpoint = ''https://a'', sr_id = ''i'', sr_secret = ''s'', sr_mtu = 1280, sr_skip_tls_verify = False,
     sr_udp_idle_timeout = 0\<rparr>"

definition demo_keys :: keys where
  "demo_keys = \<lparr>k_secret = replicate 32 3, k_public_b64 = ''p''\<rparr>"

definition demo_bring_up :: "string list \<Rightarrow> string \<Rightarrow> world \<Rightarrow> (io_error + (unit, demo_sock) dataplane) \<times> world" where
  "demo_bring_up specs token = bring_up demo_crypto demo_smol demo_os (\<lambda>_. Inr (replicate 32 5)) (demo_wg specs) demo_site demo_keys token"

lemma demo_iter: "iter_ok sorted_list_of_set"
  by (simp add: iter_ok_def)

lemma demo_bring_up_returns: "\<exists>dp w'. demo_bring_up specs token w = (Inr dp, w')"
proof -
  let ?pub = "replicate 32 5 :: bytes"
  have e: "rsplit_once (CHR '':'') ''a:51820'' = Some (''a'', ''51820'')" by (simp add: rsplit_once_def)
  have p: "parse_u16 ''51820'' = Some 51820" by (simp add: parse_u16_def digit_val_def)
  have k: "public_from_b64 (\<lambda>_. Inr ?pub) ''k'' = Inr ?pub" by (simp add: public_from_b64_def)
  have "parse_ipv4_addr ''100.89.0.1'' \<noteq> None" "parse_ipv4_addr ''100.89.0.2'' \<noteq> None" by code_simp+
  then obtain a b where i: "parse_ipv4_addr ''100.89.0.1'' = Some a" "parse_ipv4_addr ''100.89.0.2'' = Some b" by blast
  obtain p1 w1 where n: "pump_new demo_crypto (k_secret demo_keys) ?pub (sr_mtu demo_site) w = (p1, w1)" by fastforce
  obtain init p2 w2 where h: "initiate_handshake demo_crypto p1 w1 = (init, p2, w2)" by (metis surj_pair)
  obtain u where s: "(case init of Some b \<Rightarrow> send_to b (V4 0x01020304, 51820) \<lparr>u_sent = [], u_ok = \<lambda>_. True\<rparr>
      | None \<Rightarrow> (Inr (), \<lparr>u_sent = [], u_ok = \<lambda>_. True\<rparr>)) = (Inr (), u)"
    by (cases init) (simp_all add: send_to_def)
  obtain ls st where f: "fold (\<lambda>t. push_listener demo_smol (listen_port t) (dial_string t)) (List.map_filter parse_target specs)
      ([], stack_new demo_smol (V4 0x64590002) (sr_mtu demo_site)) = (ls, st)" by fastforce
  show ?thesis
    unfolding demo_bring_up_def bring_up_def Let_def demo_os_def demo_wg_def
    by (simp add: e p k i n [simplified] h s f)
qed


text \<open>
  Bringing the tunnel up adds a listener for every target listed, also for a port listed twice,
  and a synchronisation then updates only the first of the two: the port keeps serving the stale
  destination as well.
\<close>

lemma duplicate_port_keeps_stale_target:
  assumes "smol_ok m" "clock_from T w" "bring_up c m os dec wg cfg keys token w = (Inr dp, w')"
    and "List.map_filter parse_target (tcp (wd_targets wg)) = [t1, t2]" "listen_port t1 = listen_port t2"
    and "List.map_filter parse_target specs = [t]" "listen_port t = listen_port t1"
  shows "\<exists>dp'. reconcile_targets m specs dp = Returns dp'
    \<and> entries (dp_listeners dp') = [(listen_port t, dial_string t), (listen_port t, dial_string t2)]"
proof -
  have e: "entries (dp_listeners dp) = [(listen_port t1, dial_string t1), (listen_port t2, dial_string t2)]"
    using bring_up_ok [OF assms(1-3)] assms(4) by simp
  then obtain l1 l2 where ls: "dp_listeners dp = [l1, l2]" "l_port l1 = listen_port t" "l_port l2 = listen_port t"
    "l_target l2 = dial_string t2"
    using assms(5, 7) by (auto simp: entries_def)
  then show ?thesis using assms(6) by (simp add: reconcile_targets_def set_target_def entries_def)
qed

end
