(* ===== verification/Olm_Router.thy ===== *)
theory Olm_Router
  imports Wg_Pump Ip_Addr
begin

text \<open>
  The multi-peer router of the client, \<open>newt/src/olm/router.rs\<close>: routed ranges (\<open>Cidr\<close>), the table
  of peers with one pump each, the longest-prefix lookup for outbound packets and the
  demultiplexing of inbound datagrams. An endpoint is an address with a port.
\<close>

section \<open>Ranges\<close>

record cidr =
  net :: ip_addr
  cd_prefix :: u8

definition cidr_parse :: "string \<Rightarrow> cidr option" where
  "cidr_parse s0 =
     (let s = trim s0;
          split = (case split_once (CHR ''/'') s of
                     Some (a, p) \<Rightarrow> map_option (\<lambda>n. (a, Some n)) (parse_u8 p)
                   | None \<Rightarrow> Some (s, None))
      in case split of
           None \<Rightarrow> None
         | Some (addr, pfx) \<Rightarrow>
             (case parse_ip_addr addr of
                None \<Rightarrow> None
              | Some n \<Rightarrow>
                  let mx = (if is_ipv4 n then 32 else 128);
                      pfx = (case pfx of Some p \<Rightarrow> p | None \<Rightarrow> mx)
                  in if mx < pfx then None else Some \<lparr>net = n, cd_prefix = pfx\<rparr>))"

definition parts :: "cidr \<Rightarrow> ip_addr \<times> u8" where
  "parts c = (net c, cd_prefix c)"

text \<open>Slicing past the end and indexing past the end panic.\<close>

definition bits_match :: "bytes \<Rightarrow> bytes \<Rightarrow> u8 \<Rightarrow> bool outcome" where
  "bits_match a b pfx =
     (let full = unat pfx div 8 in
      if length a < full \<or> length b < full then Panics
      else if take full a \<noteq> take full b then Returns False
      else
        let r = unat pfx mod 8 in
        if r = 0 then Returns True
        else if length a \<le> full \<or> length b \<le> full then Panics
        else
          let m = push_bit (8 - r) 0xff
          in Returns (and (a ! full) m = and (b ! full) m))"

definition contains :: "cidr \<Rightarrow> ip_addr \<Rightarrow> bool outcome" where
  "contains c ip =
     (case (net c, ip) of
        (V4 _, V4 _) \<Rightarrow> bits_match (octets (net c)) (octets ip) (cd_prefix c)
      | (V6 _, V6 _) \<Rightarrow> bits_match (octets (net c)) (octets ip) (cd_prefix c)
      | _ \<Rightarrow> Returns False)"

definition same_cidr :: "cidr \<Rightarrow> cidr \<Rightarrow> bool" where
  "same_cidr a b \<longleftrightarrow> cd_prefix a = cd_prefix b \<and> net a = net b"

definition dest_ip :: "bytes \<Rightarrow> ip_addr option" where
  "dest_ip pkt =
     (case pkt of
        [] \<Rightarrow> None
      | b # _ \<Rightarrow>
          if drop_bit 4 b = 4 \<and> 20 \<le> length pkt
          then Some (V4 (of_be_bytes [pkt ! 16, pkt ! 17, pkt ! 18, pkt ! 19]))
          else if drop_bit 4 b = 6 \<and> 40 \<le> length pkt then Some (V6 (of_be_bytes (slice 24 40 pkt)))
          else None)"

section \<open>The router\<close>

type_synonym endpoint = "ip_addr \<times> u16"

datatype out = ToHost bytes | ToNet bytes endpoint

record peer =
  pr_site_id :: int
  pr_pump :: pump
  pr_endpoint :: endpoint
  pr_cidrs :: "cidr list"
  pr_index :: u32

record router =
  rt_secret :: bytes
  rt_mtu :: nat
  peers :: "peer list"
  rt_next_index :: u32

definition router_new :: "bytes \<Rightarrow> nat \<Rightarrow> router" where
  "router_new secret mtu = \<lparr>rt_secret = secret, rt_mtu = mtu, peers = [], rt_next_index = 1\<rparr>"

definition peer_count :: "router \<Rightarrow> nat" where
  "peer_count r = length (peers r)"

definition remove_peer :: "int \<Rightarrow> router \<Rightarrow> router" where
  "remove_peer site_id r = r\<lparr>peers := filter (\<lambda>p. pr_site_id p \<noteq> site_id) (peers r)\<rparr>"

definition upsert_peer ::
  "crypto \<Rightarrow> (string \<Rightarrow> string + bytes) \<Rightarrow> router \<Rightarrow> int \<Rightarrow> string \<Rightarrow> endpoint \<Rightarrow> cidr list \<Rightarrow> world \<Rightarrow>
     (bytes \<times> endpoint) option \<times> router \<times> world" where
  "upsert_peer c b64_decode r site_id peer_pub_b64 ep cidrs w =
     (case public_from_b64 b64_decode peer_pub_b64 of
        Inl _ \<Rightarrow> (None, r, w)
      | Inr peer_pub \<Rightarrow>
          let r = remove_peer site_id r;
              index = rt_next_index r;
              r = r\<lparr>rt_next_index := max (rt_next_index r + 1) 1\<rparr>;
              (pump, w) = with_index c (rt_secret r) peer_pub (rt_mtu r) index w;
              (init, pump, w) = initiate_handshake c pump w;
              p = \<lparr>pr_site_id = site_id, pr_pump = pump, pr_endpoint = ep, pr_cidrs = cidrs, pr_index = index\<rparr>
          in (map_option (\<lambda>b. (b, ep)) init, r\<lparr>peers := peers r @ [p]\<rparr>, w))"

definition set_endpoint :: "int \<Rightarrow> endpoint \<Rightarrow> router \<Rightarrow> router" where
  "set_endpoint site_id ep r =
     r\<lparr>peers := update_first (\<lambda>p. pr_site_id p = site_id) (\<lambda>p. p\<lparr>pr_endpoint := ep\<rparr>) (peers r)\<rparr>"

definition set_cidrs :: "int \<Rightarrow> cidr list \<Rightarrow> router \<Rightarrow> router" where
  "set_cidrs site_id cs r =
     r\<lparr>peers := update_first (\<lambda>p. pr_site_id p = site_id) (\<lambda>p. p\<lparr>pr_cidrs := cs\<rparr>) (peers r)\<rparr>"

definition add_cidrs :: "int \<Rightarrow> cidr list \<Rightarrow> router \<Rightarrow> router" where
  "add_cidrs site_id cs r =
     r\<lparr>peers := update_first (\<lambda>p. pr_site_id p = site_id) (\<lambda>p. p\<lparr>pr_cidrs := pr_cidrs p @ cs\<rparr>) (peers r)\<rparr>"

definition remove_cidrs :: "int \<Rightarrow> cidr list \<Rightarrow> router \<Rightarrow> router" where
  "remove_cidrs site_id drp r =
     r\<lparr>peers := update_first (\<lambda>p. pr_site_id p = site_id)
       (\<lambda>p. p\<lparr>pr_cidrs := filter (\<lambda>x. \<not> list_ex (same_cidr x) drp) (pr_cidrs p)\<rparr>) (peers r)\<rparr>"

definition all_cidrs :: "router \<Rightarrow> (int \<times> cidr) list" where
  "all_cidrs r = concat (map (\<lambda>p. map (\<lambda>c. (pr_site_id p, c)) (pr_cidrs p)) (peers r))"

text \<open>The two loops of \<open>best_peer\<close>: the ranges of peer \<open>i\<close>, and the peers from \<open>i\<close> on.\<close>

fun best_of_cidrs :: "nat \<Rightarrow> ip_addr \<Rightarrow> cidr list \<Rightarrow> (nat \<times> u8) option \<Rightarrow> (nat \<times> u8) option outcome" where
  "best_of_cidrs i dst [] best = Returns best"
| "best_of_cidrs i dst (c # cs) best =
     obind (contains c dst) (\<lambda>m.
       best_of_cidrs i dst cs
         (if m \<and> (case best of None \<Rightarrow> True | Some (_, bp) \<Rightarrow> bp < cd_prefix c) then Some (i, cd_prefix c) else best))"

fun best_of_peers :: "nat \<Rightarrow> ip_addr \<Rightarrow> peer list \<Rightarrow> (nat \<times> u8) option \<Rightarrow> (nat \<times> u8) option outcome" where
  "best_of_peers i dst [] best = Returns best"
| "best_of_peers i dst (p # ps) best =
     obind (best_of_cidrs i dst (pr_cidrs p) best) (best_of_peers (Suc i) dst ps)"

definition best_peer :: "router \<Rightarrow> ip_addr \<Rightarrow> nat option outcome" where
  "best_peer r dst = obind (best_of_peers 0 dst (peers r) None) (\<lambda>b. Returns (map_option fst b))"

definition route_target :: "router \<Rightarrow> ip_addr \<Rightarrow> endpoint option outcome" where
  "route_target r dst =
     obind (best_peer r dst) (\<lambda>b. Returns (map_option (\<lambda>i. pr_endpoint (peers r ! i)) b))"

definition route_outbound ::
  "crypto \<Rightarrow> router \<Rightarrow> bytes \<Rightarrow> world \<Rightarrow> ((bytes \<times> endpoint) option \<times> router \<times> world) outcome" where
  "route_outbound c r ip_pkt w =
     (case dest_ip ip_pkt of
        None \<Rightarrow> Returns (None, r, w)
      | Some dst \<Rightarrow>
          obind (best_peer r dst) (\<lambda>b.
          case b of
            None \<Rightarrow> Returns (None, r, w)
          | Some i \<Rightarrow>
              let p = peers r ! i; ep = pr_endpoint p in
              obind (pump_encapsulate c (pr_pump p) ip_pkt w) (\<lambda>(dg, pump, w).
                Returns (map_option (\<lambda>b. (b, ep)) dg, r\<lparr>peers := (peers r)[i := p\<lparr>pr_pump := pump\<rparr>]\<rparr>, w))))"

definition push_out :: "endpoint \<Rightarrow> inbound \<Rightarrow> out list" where
  "push_out ep inb = (case inb of Packet pkt \<Rightarrow> [ToHost pkt] | Network b \<Rightarrow> [ToNet b ep] | Nothing \<Rightarrow> [])"

text \<open>A datagram that was demultiplexed to peer \<open>i\<close>.\<close>

definition feed_peer ::
  "crypto \<Rightarrow> router \<Rightarrow> nat \<Rightarrow> bytes \<Rightarrow> world \<Rightarrow> (out list \<times> router \<times> world) outcome option" where
  "feed_peer c r i dgram w =
     (let p = peers r ! i; ep = pr_endpoint p in
      case pump_decapsulate c (pr_pump p) dgram w of
        Panics \<Rightarrow> Some Panics
      | Returns (inb, pump, w) \<Rightarrow>
          map_option (\<lambda>d. obind d (\<lambda>(more, pump, w).
            Returns (concat (map (push_out ep) (inb # more)),
              r\<lparr>peers := (peers r)[i := p\<lparr>pr_pump := pump\<rparr>]\<rparr>, w)))
            (drain_loop c pump w []))"

definition handle_inbound ::
  "crypto \<Rightarrow> router \<Rightarrow> bytes \<Rightarrow> world \<Rightarrow> (out list \<times> router \<times> world) outcome option" where
  "handle_inbound c r dgram w =
     (case peer_index_of dgram of
        None \<Rightarrow> Some (Returns ([], r, w))
      | Some peer_idx \<Rightarrow>
          (case find_index (\<lambda>p. pr_index p = peer_idx) (peers r) of
             None \<Rightarrow> Some (Returns ([], r, w))
           | Some i \<Rightarrow> feed_peer c r i dgram w))"

fun tick_peers :: "crypto \<Rightarrow> peer list \<Rightarrow> world \<Rightarrow> ((bytes \<times> endpoint) list \<times> peer list \<times> world) outcome" where
  "tick_peers c [] w = Returns ([], [], w)"
| "tick_peers c (p # ps) w =
     obind (pump_update_timers c (pr_pump p) w) (\<lambda>(b, pump, w).
     obind (tick_peers c ps w) (\<lambda>(out, ps', w).
       Returns ((case b of Some b \<Rightarrow> [(b, pr_endpoint p)] | None \<Rightarrow> []) @ out, p\<lparr>pr_pump := pump\<rparr> # ps', w)))"

definition tick :: "crypto \<Rightarrow> router \<Rightarrow> world \<Rightarrow> ((bytes \<times> endpoint) list \<times> router \<times> world) outcome" where
  "tick c r w =
     obind (tick_peers c (peers r) w) (\<lambda>(out, ps, w). Returns (out, r\<lparr>peers := ps\<rparr>, w))"

section \<open>A range compares the leading bits\<close>

text \<open>The range an administrator means: the first \<open>cd_prefix\<close> bits agree.\<close>

definition covers :: "cidr \<Rightarrow> ip_addr \<Rightarrow> bool" where
  "covers c ip =
     (case (net c, ip) of
        (V4 n, V4 a) \<Rightarrow> drop_bit (32 - unat (cd_prefix c)) n = drop_bit (32 - unat (cd_prefix c)) a
      | (V6 n, V6 a) \<Rightarrow> drop_bit (128 - unat (cd_prefix c)) n = drop_bit (128 - unat (cd_prefix c)) a
      | _ \<Rightarrow> False)"

definition wf_cidr :: "cidr \<Rightarrow> bool" where
  "wf_cidr c \<longleftrightarrow> unat (cd_prefix c) \<le> (if is_ipv4 (net c) then 32 else 128)"

lemma cidr_parse_wf: "cidr_parse s = Some c \<Longrightarrow> wf_cidr c"
  by (auto simp: cidr_parse_def wf_cidr_def Let_def word_less_nat_alt not_less split: option.splits if_splits prod.splits)

lemma nth_be_bytes: "j < n \<Longrightarrow> be_bytes n w ! j = ucast (drop_bit (8 * (n - 1 - j)) w)"
  by (simp add: be_bytes_def le_bytes_def rev_nth)

text \<open>Agreement of two words on the bits from \<open>i\<close> to \<open>j - 1\<close>.\<close>

definition agree :: "nat \<Rightarrow> nat \<Rightarrow> 'a::len word \<Rightarrow> 'a word \<Rightarrow> bool" where
  "agree i j x y \<longleftrightarrow> (\<forall>k. i \<le> k \<and> k < j \<longrightarrow> bit x k = bit y k)"

lemma agree_join: "i \<le> j \<Longrightarrow> j \<le> k \<Longrightarrow> agree i k x y \<longleftrightarrow> agree i j x y \<and> agree j k x y"
  by (auto simp: agree_def not_less [symmetric])

lemma agree_drop: "drop_bit k x = drop_bit k y \<longleftrightarrow> agree k LENGTH('a) x (y :: 'a::len word)"
proof
  assume "drop_bit k x = drop_bit k y"
  then have "bit x (k + n) = bit y (k + n)" for n by (metis bit_drop_bit_eq comp_apply)
  then show "agree k LENGTH('a) x y" by (metis agree_def le_add_diff_inverse)
next
  assume "agree k LENGTH('a) x y"
  then have "bit x (k + n) = bit y (k + n)" for n
    by (cases "k + n < LENGTH('a)") (auto simp: agree_def dest: bit_imp_le_length)
  then show "drop_bit k x = drop_bit k y" by (intro bit_word_eqI) (simp add: bit_simps)
qed

lemma all_ones: "(0xff :: u8) = - 1"
  by simp

lemma agree_byte:
  assumes "8 * k + 8 \<le> LENGTH('a)" "s \<le> 8"
  shows "and (ucast (drop_bit (8 * k) x) :: u8) (push_bit s 0xff) = and (ucast (drop_bit (8 * k) y)) (push_bit s 0xff) \<longleftrightarrow>
     agree (8 * k + s) (8 * k + 8) x (y :: 'a::len word)"
proof -
  have b: "bit (and (ucast (drop_bit (8 * k) z) :: u8) (push_bit s 0xff)) n \<longleftrightarrow> n < 8 \<and> s \<le> n \<and> bit z (8 * k + n)"
    for z :: "'a word" and n
    unfolding all_ones by (auto simp: bit_simps)
  have "and (ucast (drop_bit (8 * k) x) :: u8) (push_bit s 0xff) = and (ucast (drop_bit (8 * k) y)) (push_bit s 0xff) \<longleftrightarrow>
      (\<forall>n<8. s \<le> n \<longrightarrow> bit x (8 * k + n) = bit y (8 * k + n))" (is "?l = ?r \<longleftrightarrow> ?e")
  proof
    assume "?l = ?r"
    then show ?e using b [of x] b [of y] by metis
  next
    assume ?e
    then show "?l = ?r" by (intro bit_word_eqI) (auto simp: b)
  qed
  also have "\<dots> \<longleftrightarrow> agree (8 * k + s) (8 * k + 8) x y"
    unfolding agree_def
  proof (rule iffI)
    assume a: "\<forall>n<8. s \<le> n \<longrightarrow> bit x (8 * k + n) = bit y (8 * k + n)"
    have "bit x m = bit y m" if "8 * k + s \<le> m" "m < 8 * k + 8" for m
      using that a [rule_format, of "m - 8 * k"] by auto
    then show "\<forall>m. 8 * k + s \<le> m \<and> m < 8 * k + 8 \<longrightarrow> bit x m = bit y m" by blast
  qed simp
  finally show ?thesis .
qed

lemma agree_bytes:
  assumes "8 * n = LENGTH('a)" "m \<le> n"
  shows "take m (be_bytes n x) = take m (be_bytes n y) \<longleftrightarrow> agree (8 * (n - m)) (8 * n) x (y :: 'a::len word)"
  using assms(2)
proof (induction m)
  case 0
  then show ?case by (auto simp: agree_def)
next
  case (Suc m)
  have split: "take (Suc m) (be_bytes n z) = take m (be_bytes n z) @ [ucast (drop_bit (8 * (n - Suc m)) z)]" for z :: "'a word"
    using Suc.prems by (simp add: take_Suc_conv_app_nth nth_be_bytes)
  have byte: "(ucast (drop_bit (8 * (n - Suc m)) x) :: u8) = ucast (drop_bit (8 * (n - Suc m)) y) \<longleftrightarrow>
      agree (8 * (n - Suc m)) (8 * (n - Suc m) + 8) x y"
    using agree_byte [of "n - Suc m" 0 x y] assms Suc.prems unfolding all_ones by simp
  have "8 * (n - Suc m) + 8 = 8 * (n - m)" using Suc.prems by simp
  then show ?case
    using Suc byte agree_join [of "8 * (n - Suc m)" "8 * (n - m)" "8 * n" x y] unfolding split by auto
qed

lemma bits_match_drop_bit:
  assumes n: "8 * n = LENGTH('a)" and p: "unat p \<le> 8 * n"
  shows "bits_match (be_bytes n x) (be_bytes n y) p =
    Returns (drop_bit (8 * n - unat p) x = drop_bit (8 * n - unat p) (y :: 'a::len word))"
proof -
  define full where "full = unat p div 8"
  define r where "r = unat p mod 8"
  have pr: "unat p = 8 * full + r" "r < 8" by (simp_all add: full_def r_def)
  have le: "full \<le> n" using p pr by simp
  show ?thesis
  proof (cases "r = 0")
    case True
    then have "8 * (n - full) = 8 * n - unat p" using pr by simp
    then show ?thesis using le True agree_bytes [OF n le, of x y]
      by (simp add: bits_match_def Let_def full_def [symmetric] r_def [symmetric] agree_drop n)
  next
    case False
    then have lt: "full < n" using p pr by simp
    then have s: "8 * n - unat p = 8 * (n - 1 - full) + (8 - r)" "8 * (n - full) = 8 * (n - 1 - full) + 8" using pr by simp_all
    have byte: "and (be_bytes n x ! full) (push_bit (8 - r) 0xff) = and (be_bytes n y ! full) (push_bit (8 - r) 0xff) \<longleftrightarrow>
        agree (8 * (n - 1 - full) + (8 - r)) (8 * (n - 1 - full) + 8) x y"
      using agree_byte [of "n - 1 - full" "8 - r" x y] lt n by (simp add: nth_be_bytes)
    have "drop_bit (8 * n - unat p) x = drop_bit (8 * n - unat p) y \<longleftrightarrow>
        agree (8 * (n - 1 - full) + (8 - r)) (8 * (n - 1 - full) + 8) x y \<and> agree (8 * (n - full)) (8 * n) x y"
      unfolding agree_drop n [symmetric] s using lt by (intro agree_join) simp_all
    then show ?thesis using False lt agree_bytes [OF n le, of x y] byte
      by (auto simp: bits_match_def Let_def full_def [symmetric] r_def [symmetric])
  qed
qed

lemma contains_covers: "wf_cidr c \<Longrightarrow> contains c ip = Returns (covers c ip)"
  using bits_match_drop_bit [of 4 "cd_prefix c", where ?'a = 32] bits_match_drop_bit [of 16 "cd_prefix c", where ?'a = 128]
  by (cases "net c"; cases ip) (simp_all add: contains_def covers_def wf_cidr_def)

section \<open>The longest prefix wins\<close>

definition wf_peers :: "peer list \<Rightarrow> bool" where
  "wf_peers ps \<longleftrightarrow> (\<forall>p \<in> set ps. \<forall>c \<in> set (pr_cidrs p). wf_cidr c)"

text \<open>
  What \<open>best\<close> means after the loop has seen the routes \<open>rs\<close>, pairs of a peer number and a range: the
  first of the matching routes with the longest prefix.
\<close>

fun best_route :: "ip_addr \<Rightarrow> (nat \<times> cidr) list \<Rightarrow> (nat \<times> u8) option \<Rightarrow> (nat \<times> u8) option" where
  "best_route dst [] best = best"
| "best_route dst ((i, c) # rs) best =
     best_route dst rs
       (if covers c dst \<and> (case best of None \<Rightarrow> True | Some (_, bp) \<Rightarrow> bp < cd_prefix c) then Some (i, cd_prefix c) else best)"

fun routes :: "nat \<Rightarrow> peer list \<Rightarrow> (nat \<times> cidr) list" where
  "routes i [] = []"
| "routes i (p # ps) = map (Pair i) (pr_cidrs p) @ routes (Suc i) ps"

lemma best_of_cidrs_eq:
  "\<forall>c \<in> set cs. wf_cidr c \<Longrightarrow> best_of_cidrs i dst cs best = Returns (best_route dst (map (Pair i) cs) best)"
  by (induction cs arbitrary: best) (simp_all add: contains_covers)

lemma best_route_append: "best_route dst (rs @ qs) best = best_route dst qs (best_route dst rs best)"
  by (induction dst rs best rule: best_route.induct) simp_all

lemma best_of_peers_eq: "wf_peers ps \<Longrightarrow> best_of_peers i dst ps best = Returns (best_route dst (routes i ps) best)"
  by (induction ps arbitrary: i best) (simp_all add: wf_peers_def best_of_cidrs_eq best_route_append)

lemma best_peer_eq: "wf_peers (peers r) \<Longrightarrow> best_peer r dst = Returns (map_option fst (best_route dst (routes 0 (peers r)) None))"
  by (simp add: best_peer_def best_of_peers_eq)

lemma set_routes: "(j, c) \<in> set (routes i ps) \<longleftrightarrow> i \<le> j \<and> j < i + length ps \<and> c \<in> set (pr_cidrs (ps ! (j - i)))"
proof (induction ps arbitrary: i)
  case (Cons p ps)
  then show ?case by (cases "j = i") (auto simp: nth_Cons')
qed simp

lemma routes_sorted: "sorted (map fst (routes i ps))"
  by (induction ps arbitrary: i) (auto simp: sorted_append set_routes o_def map_replicate_const)

text \<open>The route the loop ends with is a longest match, and the first one.\<close>

lemma best_route_spec:
  assumes "sorted (map fst rs)"
  shows "case best_route dst rs None of
      None \<Rightarrow> \<forall>(j, d) \<in> set rs. \<not> covers d dst
    | Some (i, bp) \<Rightarrow> (\<exists>c. (i, c) \<in> set rs \<and> covers c dst \<and> cd_prefix c = bp) \<and>
        (\<forall>(j, d) \<in> set rs. covers d dst \<longrightarrow> cd_prefix d \<le> bp \<and> (j < i \<longrightarrow> cd_prefix d < bp))"
  using assms
proof (induction rs rule: rev_induct)
  case Nil
  then show ?case by simp
next
  case (snoc x rs)
  obtain i c where x: "x = (i, c)" by fastforce
  have s: "sorted (map fst rs)" "\<forall>(j, d) \<in> set rs. j \<le> i" using snoc.prems by (auto simp: x sorted_append)
  show ?case
  proof (cases "best_route dst rs None")
    case None
    then show ?thesis using snoc.IH [OF s(1)] s(2) by (auto simp: x best_route_append)
  next
    case (Some b)
    obtain k bp where b: "b = (k, bp)" by fastforce
    have ih: "\<exists>c. (k, c) \<in> set rs \<and> covers c dst \<and> cd_prefix c = bp"
      "\<And>j d. (j, d) \<in> set rs \<Longrightarrow> covers d dst \<Longrightarrow> cd_prefix d \<le> bp \<and> (j < k \<longrightarrow> cd_prefix d < bp)"
      using snoc.IH [OF s(1)] Some b by auto
    then have "k \<le> i" using s(2) by auto
    show ?thesis
    proof (cases "covers c dst \<and> bp < cd_prefix c")
      case True
      then have "cd_prefix d < cd_prefix c" if "(j, d) \<in> set rs" "covers d dst" for j d
        using ih(2) [OF that] by auto
      then show ?thesis using True Some b by (force simp: x best_route_append)
    next
      case False
      then have "best_route dst (rs @ [x]) None = Some (k, bp)" using Some b by (auto simp: x best_route_append)
      then show ?thesis using ih False \<open>k \<le> i\<close> by (auto simp: x not_less)
    qed
  qed
qed

end
