(* ===== verification/Olm_Router_Safety.thy ===== *)
theory Olm_Router_Safety
  imports Olm_Router
begin

text \<open>
  What the client relies on from its router: the routing table it shows behaves as a map from
  sites to an endpoint and a list of ranges, lookups follow the longest prefix, datagrams reach the
  peer they were sent to, and no call panics.
\<close>

section \<open>The invariant\<close>

definition peer_ok :: "nat \<Rightarrow> peer \<Rightarrow> world \<Rightarrow> bool" where
  "peer_ok mtu p w \<longleftrightarrow> pump_ok (drop_bit 8 (push_bit 8 (pr_index p))) (pr_pump p) w \<and> pm_mtu (pr_pump p) = mtu \<and>
     (\<forall>c \<in> set (pr_cidrs p). wf_cidr c)"

definition router_ok :: "router \<Rightarrow> world \<Rightarrow> bool" where
  "router_ok r w \<longleftrightarrow> distinct (map pr_site_id (peers r)) \<and> (\<forall>p \<in> set (peers r). peer_ok (rt_mtu r) p w) \<and>
     (\<exists>T. clock_from T w)"

text \<open>Indices are handed out in order, as long as the counter does not wrap.\<close>

definition indices_ok :: "router \<Rightarrow> bool" where
  "indices_ok r \<longleftrightarrow> distinct (map pr_index (peers r)) \<and> (\<forall>p \<in> set (peers r). unat (pr_index p) < unat (rt_next_index r))"

lemma peer_ok_later: "peer_ok m p w \<Longrightarrow> later w w' \<Longrightarrow> peer_ok m p w'"
  using pump_ok_later by (auto simp: peer_ok_def)

lemma router_ok_wf: "router_ok r w \<Longrightarrow> wf_peers (peers r)"
  by (auto simp: router_ok_def peer_ok_def wf_peers_def)

lemma router_ok_new: "clock_from T w \<Longrightarrow> router_ok (router_new sk mtu) w"
  by (auto simp: router_ok_def router_new_def)

text \<open>A peer's pump is replaced by one that is still in order.\<close>

lemma router_ok_set_pump:
  assumes "router_ok r w" "i < length (peers r)" "later w w'"
    and "pump_ok (drop_bit 8 (push_bit 8 (pr_index (peers r ! i)))) pump w'" "pm_mtu pump = rt_mtu r"
  shows "router_ok (r\<lparr>peers := (peers r)[i := (peers r ! i)\<lparr>pr_pump := pump\<rparr>]\<rparr>) w'"
proof -
  have "peer_ok (rt_mtu r) ((peers r ! i)\<lparr>pr_pump := pump\<rparr>) w'"
    using assms by (auto simp: peer_ok_def router_ok_def)
  moreover have "\<forall>p \<in> set (peers r). peer_ok (rt_mtu r) p w'" using assms(1,3) peer_ok_later by (auto simp: router_ok_def)
  ultimately have "\<forall>p \<in> set ((peers r)[i := (peers r ! i)\<lparr>pr_pump := pump\<rparr>]). peer_ok (rt_mtu r) p w'"
    using set_update_subset_insert [of "peers r" i] by blast
  moreover have "map pr_site_id ((peers r)[i := (peers r ! i)\<lparr>pr_pump := pump\<rparr>]) = map pr_site_id (peers r)"
    using assms(2) by (intro map_list_update_same) simp_all
  moreover have "\<exists>T. clock_from T w'" using assms(1,3) later_clock by (fastforce simp: router_ok_def)
  ultimately show ?thesis using assms(1) by (simp add: router_ok_def)
qed

lemma router_ok_remove: "router_ok r w \<Longrightarrow> router_ok (remove_peer k r) w"
  by (auto simp: router_ok_def remove_peer_def distinct_map inj_on_def)

lemma router_ok_update:
  assumes "router_ok r w" "\<And>p. pr_site_id (f p) = pr_site_id p" "\<And>p. pr_index (f p) = pr_index p"
    "\<And>p. pr_pump (f p) = pr_pump p" "\<And>p. p \<in> set (peers r) \<Longrightarrow> \<forall>c \<in> set (pr_cidrs (f p)). wf_cidr c"
  shows "router_ok (r\<lparr>peers := update_first P f (peers r)\<rparr>) w"
proof -
  have "peer_ok (rt_mtu r) (f p) w" if "p \<in> set (peers r)" for p
    using assms(1) assms(5) [OF that] that by (auto simp: router_ok_def peer_ok_def assms(2-4))
  then show ?thesis using assms(1) map_update_first [of pr_site_id f P "peers r"] assms(2)
    by (auto simp: router_ok_def dest!: set_update_first)
qed

section \<open>The operations\<close>

datatype router_op =
    Upsert int string endpoint "cidr list"
  | Remove int
  | SetEndpoint int endpoint
  | SetCidrs int "cidr list"
  | AddCidrs int "cidr list"
  | RemoveCidrs int "cidr list"
  | Outbound bytes
  | Inbound bytes
  | Tick

definition to_net :: "(bytes \<times> endpoint) option \<Rightarrow> out list" where
  "to_net b = (case b of Some (d, ep) \<Rightarrow> [ToNet d ep] | None \<Rightarrow> [])"

primrec router_step ::
  "crypto \<Rightarrow> (string \<Rightarrow> string + bytes) \<Rightarrow> router_op \<Rightarrow> router \<Rightarrow> world \<Rightarrow> (out list \<times> router \<times> world) outcome option" where
  "router_step c dec (Upsert k key ep cs) r w =
     (case upsert_peer c dec r k key ep cs w of (b, r, w) \<Rightarrow> Some (Returns (to_net b, r, w)))"
| "router_step c dec (Remove k) r w = Some (Returns ([], remove_peer k r, w))"
| "router_step c dec (SetEndpoint k ep) r w = Some (Returns ([], set_endpoint k ep r, w))"
| "router_step c dec (SetCidrs k cs) r w = Some (Returns ([], set_cidrs k cs r, w))"
| "router_step c dec (AddCidrs k cs) r w = Some (Returns ([], add_cidrs k cs r, w))"
| "router_step c dec (RemoveCidrs k cs) r w = Some (Returns ([], remove_cidrs k cs r, w))"
| "router_step c dec (Outbound pkt) r w =
     Some (obind (route_outbound c r pkt w) (\<lambda>(b, r, w). Returns (to_net b, r, w)))"
| "router_step c dec (Inbound dg) r w = handle_inbound c r dg w"
| "router_step c dec Tick r w =
     Some (obind (tick c r w) (\<lambda>(bs, r, w). Returns (map (\<lambda>(b, ep). ToNet b ep) bs, r, w)))"

text \<open>The arguments the client passes: parsed ranges, packets of at most an MTU, datagrams that fit the scratch buffer.\<close>

primrec router_op_fits :: "nat \<Rightarrow> router_op \<Rightarrow> bool" where
  "router_op_fits mtu (Upsert k key ep cs) \<longleftrightarrow> (\<forall>c \<in> set cs. wf_cidr c)"
| "router_op_fits mtu (Remove k) \<longleftrightarrow> True"
| "router_op_fits mtu (SetEndpoint k ep) \<longleftrightarrow> True"
| "router_op_fits mtu (SetCidrs k cs) \<longleftrightarrow> (\<forall>c \<in> set cs. wf_cidr c)"
| "router_op_fits mtu (AddCidrs k cs) \<longleftrightarrow> (\<forall>c \<in> set cs. wf_cidr c)"
| "router_op_fits mtu (RemoveCidrs k cs) \<longleftrightarrow> True"
| "router_op_fits mtu (Outbound pkt) \<longleftrightarrow> length pkt \<le> max mtu 1500"
| "router_op_fits mtu (Inbound dg) \<longleftrightarrow> length dg \<le> max mtu 1500 + 48"
| "router_op_fits mtu Tick \<longleftrightarrow> True"

fun router_run ::
  "crypto \<Rightarrow> (string \<Rightarrow> string + bytes) \<Rightarrow> router_op list \<Rightarrow> router \<Rightarrow> world \<Rightarrow>
     (out list list \<times> router \<times> world) outcome option" where
  "router_run c dec [] r w = Some (Returns ([], r, w))"
| "router_run c dec (x # xs) r w =
     (case router_step c dec x r w of
        None \<Rightarrow> None
      | Some Panics \<Rightarrow> Some Panics
      | Some (Returns (os, r, w)) \<Rightarrow>
          map_option (\<lambda>d. obind d (\<lambda>(oss, r, w). Returns (os # oss, r, w))) (router_run c dec xs r w))"

section \<open>Every operation returns and keeps the invariant\<close>

lemma later_with_index:
  assumes "with_index c sk pk mtu i w = (p, w')"
  shows "later w w'"
proof -
  let ?w1 = "snd (handshake_new c sk (x25519_public c sk) pk (push_bit 8 i) None w)"
  have "w' = snd (rate_limiter_new c (x25519_public c sk) PEER_HANDSHAKE_RATE_LIMIT (snd (instant_now ?w1)))"
    using assms by (auto simp: with_index_def tunn_new_def timers_new_def Let_def case_prod_beta)
  then show ?thesis using later_trans [OF later_handshake_new later_trans [OF later_now later_rate_limiter_new]] by simp
qed

lemma upsert_ok:
  assumes ok: "router_ok r w" and cs: "\<forall>c \<in> set cs. wf_cidr c"
    and u: "upsert_peer c dec r k key ep cs w = (b, r', w')"
  shows "router_ok r' w' \<and> rt_mtu r' = rt_mtu r"
proof (cases "public_from_b64 dec key")
  case (Inl e)
  then show ?thesis using u ok by (simp add: upsert_peer_def)
next
  case (Inr pk)
  obtain T where T: "clock_from T w" using ok by (auto simp: router_ok_def)
  obtain pump w1 where p1: "with_index c (rt_secret r) pk (rt_mtu r) (rt_next_index r) w = (pump, w1)" by fastforce
  obtain i pump2 w2 where p2: "initiate_handshake c pump w1 = (i, pump2, w2)" by (metis prod_cases3)
  have "later w w1" using later_with_index [OF p1] .
  have g: "pump_ok (drop_bit 8 (push_bit 8 (rt_next_index r))) pump w1" "pm_mtu pump = rt_mtu r"
    using with_index_ok [OF T p1] by auto
  have h: "pump_ok (drop_bit 8 (push_bit 8 (rt_next_index r))) pump2 w2" "pm_mtu pump2 = rt_mtu r" "later w1 w2"
    using initiate_handshake_ok [OF g(1) p2] g(2) by auto
  have l: "later w w2" using \<open>later w w1\<close> h(3) later_trans by blast
  let ?p = "\<lparr>pr_site_id = k, pr_pump = pump2, pr_endpoint = ep, pr_cidrs = cs, pr_index = rt_next_index r\<rparr>"
  have r': "r' = (remove_peer k r)\<lparr>rt_next_index := max (rt_next_index r + 1) 1, peers := peers (remove_peer k r) @ [?p]\<rparr>"
    "w' = w2" using u Inr p1 p2 by (simp_all add: upsert_peer_def remove_peer_def Let_def)
  have "peer_ok (rt_mtu r) ?p w2" using h cs by (simp add: peer_ok_def)
  moreover have "\<forall>p \<in> set (peers r). peer_ok (rt_mtu r) p w2" using ok l peer_ok_later by (auto simp: router_ok_def)
  ultimately show ?thesis using router_ok_remove [OF ok, of k] l later_clock [OF T]
    by (auto simp: r' router_ok_def remove_peer_def)
qed

lemma best_peer_returns:
  assumes "router_ok r w"
  shows "\<exists>b. best_peer r dst = Returns b \<and> (\<forall>i. b = Some i \<longrightarrow> i < length (peers r))"
proof -
  let ?b = "best_route dst (routes 0 (peers r)) None"
  have "i < length (peers r)" if "map_option fst ?b = Some i" for i
    using best_route_spec [OF routes_sorted [of 0 "peers r"], of dst] that by (auto simp: set_routes)
  then show ?thesis using best_peer_eq [OF router_ok_wf [OF assms]] by blast
qed

lemma outbound_ok:
  assumes c: "crypto_ok c" and ok: "router_ok r w" and n: "length pkt \<le> max (rt_mtu r) 1500"
  shows "\<exists>b r' w'. route_outbound c r pkt w = Returns (b, r', w') \<and> router_ok r' w' \<and> rt_mtu r' = rt_mtu r"
proof (cases "dest_ip pkt")
  case None
  then show ?thesis using ok by (simp add: route_outbound_def)
next
  case (Some dst)
  obtain b where b: "best_peer r dst = Returns b" "\<And>i. b = Some i \<Longrightarrow> i < length (peers r)"
    using best_peer_returns [OF ok, of dst] by blast
  show ?thesis
  proof (cases b)
    case None
    then show ?thesis using ok b Some by (simp add: route_outbound_def)
  next
    case (Some i)
    let ?p = "peers r ! i"
    have i: "i < length (peers r)" using b(2) [OF Some] .
    then have p: "peer_ok (rt_mtu r) ?p w" using ok by (auto simp: router_ok_def)
    then obtain d t w' where "pump_encapsulate c (pr_pump ?p) pkt w = Returns (d, pr_pump ?p\<lparr>pm_tun := t\<rparr>, w')"
      and e: "pump_ok (drop_bit 8 (push_bit 8 (pr_index ?p))) (pr_pump ?p\<lparr>pm_tun := t\<rparr>) w'" "later w w'"
      using pump_encapsulate_ok [OF c, of "drop_bit 8 (push_bit 8 (pr_index ?p))" "pr_pump ?p" w pkt] n
      by (auto simp: peer_ok_def)
    moreover have "router_ok (r\<lparr>peers := (peers r)[i := ?p\<lparr>pr_pump := pr_pump ?p\<lparr>pm_tun := t\<rparr>\<rparr>]\<rparr>) w'"
      using p by (intro router_ok_set_pump [OF ok i e(2) e(1)]) (simp add: peer_ok_def)
    ultimately show ?thesis using b \<open>dest_ip pkt = Some dst\<close> Some by (simp add: route_outbound_def Let_def)
  qed
qed

lemma feed_ok:
  assumes c: "crypto_ok c" and ok: "router_ok r w" and i: "i < length (peers r)" and n: "length dg \<le> max (rt_mtu r) 1500 + 48"
  shows "\<exists>os r' w'. feed_peer c r i dg w = Some (Returns (os, r', w')) \<and> router_ok r' w' \<and> rt_mtu r' = rt_mtu r"
proof -
  let ?p = "peers r ! i"
  let ?g = "drop_bit 8 (push_bit 8 (pr_index ?p))"
  have p: "pump_ok ?g (pr_pump ?p) w" "pm_mtu (pr_pump ?p) = rt_mtu r" using ok i by (auto simp: router_ok_def peer_ok_def)
  have len: "length dg \<le> scratch (pr_pump ?p) + 16" using n p(2) by (simp add: scratch_def)
  obtain x t w1 where d: "pump_decapsulate c (pr_pump ?p) dg w = Returns (x, pr_pump ?p\<lparr>pm_tun := t\<rparr>, w1)"
    "pump_ok ?g (pr_pump ?p\<lparr>pm_tun := t\<rparr>) w1" "later w w1"
    using pump_decapsulate_ok [OF c p(1) len] by blast
  obtain more u w2 where l: "drain_loop c (pr_pump ?p\<lparr>pm_tun := t\<rparr>) w1 [] = Some (Returns (more, pr_pump ?p\<lparr>pm_tun := u\<rparr>, w2))"
    using drain_loop_returns [OF d(2), of c "[]"] by auto
  have k: "pump_ok ?g (pr_pump ?p\<lparr>pm_tun := u\<rparr>) w2" "later w1 w2" using drain_loop_ok [OF l c d(2)] by auto
  have "router_ok (r\<lparr>peers := (peers r)[i := ?p\<lparr>pr_pump := pr_pump ?p\<lparr>pm_tun := u\<rparr>\<rparr>]\<rparr>) w2"
    using p(2) by (intro router_ok_set_pump [OF ok i later_trans [OF d(3) k(2)] k(1)]) simp
  then show ?thesis using d(1) l by (simp add: feed_peer_def Let_def)
qed

lemma inbound_ok:
  assumes "crypto_ok c" "router_ok r w" "length dg \<le> max (rt_mtu r) 1500 + 48"
  shows "\<exists>os r' w'. handle_inbound c r dg w = Some (Returns (os, r', w')) \<and> router_ok r' w' \<and> rt_mtu r' = rt_mtu r"
proof (cases "\<exists>k i. peer_index_of dg = Some k \<and> find_index (\<lambda>p. pr_index p = k) (peers r) = Some i")
  case True
  then obtain k i where k: "peer_index_of dg = Some k" "find_index (\<lambda>p. pr_index p = k) (peers r) = Some i" by blast
  then have "i < length (peers r)" using find_index_Some by fast
  from feed_ok [OF assms(1,2) this assms(3)] show ?thesis using k by (simp add: handle_inbound_def)
next
  case False
  then show ?thesis using assms(2) by (auto simp: handle_inbound_def split: option.splits)
qed

lemma tick_peers_ok:
  "crypto_ok c \<Longrightarrow> \<forall>p \<in> set ps. peer_ok m p w \<Longrightarrow>
     \<exists>bs ps' w'. tick_peers c ps w = Returns (bs, ps', w') \<and> later w w' \<and> (\<forall>p \<in> set ps'. peer_ok m p w') \<and>
       map pr_site_id ps' = map pr_site_id ps \<and> map pr_index ps' = map pr_index ps \<and>
       map (\<lambda>p. (pr_endpoint p, pr_cidrs p)) ps' = map (\<lambda>p. (pr_endpoint p, pr_cidrs p)) ps"
proof (induction ps arbitrary: w)
  case Nil
  then show ?case by simp
next
  case (Cons p ps)
  let ?g = "drop_bit 8 (push_bit 8 (pr_index p))"
  have p0: "pump_ok ?g (pr_pump p) w" "pm_mtu (pr_pump p) = m" "\<forall>c \<in> set (pr_cidrs p). wf_cidr c"
    using Cons.prems by (auto simp: peer_ok_def)
  obtain b t w1 where u: "pump_update_timers c (pr_pump p) w = Returns (b, pr_pump p\<lparr>pm_tun := t\<rparr>, w1)" "later w w1"
    and "pump_ok ?g (pr_pump p\<lparr>pm_tun := t\<rparr>) w1"
    using pump_update_timers_ok [OF Cons.prems(1) p0(1)] by blast
  then have p: "peer_ok m (p\<lparr>pr_pump := pr_pump p\<lparr>pm_tun := t\<rparr>\<rparr>) w1" using p0 by (simp add: peer_ok_def)
  have "\<forall>p \<in> set ps. peer_ok m p w1" using Cons.prems u(2) peer_ok_later by auto
  from Cons.IH [OF Cons.prems(1) this] obtain bs ps' w' where
    ih: "tick_peers c ps w1 = Returns (bs, ps', w')" "later w1 w'" "\<forall>p \<in> set ps'. peer_ok m p w'"
    "map pr_site_id ps' = map pr_site_id ps" "map pr_index ps' = map pr_index ps"
    "map (\<lambda>p. (pr_endpoint p, pr_cidrs p)) ps' = map (\<lambda>p. (pr_endpoint p, pr_cidrs p)) ps" by blast
  moreover have "later w w'" "peer_ok m (p\<lparr>pr_pump := pr_pump p\<lparr>pm_tun := t\<rparr>\<rparr>) w'"
    using later_trans [OF u(2) ih(2)] peer_ok_later [OF p ih(2)] .
  ultimately show ?case using u by simp
qed

lemma tick_ok:
  assumes "crypto_ok c" "router_ok r w"
  shows "\<exists>bs r' w'. tick c r w = Returns (bs, r', w') \<and> router_ok r' w' \<and> rt_mtu r' = rt_mtu r"
proof -
  obtain bs ps' w' where t: "tick_peers c (peers r) w = Returns (bs, ps', w')" "later w w'"
    "\<forall>p \<in> set ps'. peer_ok (rt_mtu r) p w'" "map pr_site_id ps' = map pr_site_id (peers r)"
    using tick_peers_ok [OF assms(1), of "peers r" "rt_mtu r" w] assms(2) by (auto simp: router_ok_def)
  moreover have "\<exists>T. clock_from T w'" using assms(2) later_clock [OF _ t(2)] by (auto simp: router_ok_def)
  ultimately show ?thesis using assms(2) by (simp add: tick_def router_ok_def)
qed

lemma router_step_ok:
  assumes c: "crypto_ok c" and ok: "router_ok r w" and fits: "router_op_fits (rt_mtu r) x"
  shows "\<exists>os r' w'. router_step c dec x r w = Some (Returns (os, r', w')) \<and> router_ok r' w' \<and> rt_mtu r' = rt_mtu r"
proof -
  have wf: "\<And>p. p \<in> set (peers r) \<Longrightarrow> \<forall>c \<in> set (pr_cidrs p). wf_cidr c"
    using router_ok_wf [OF ok] by (auto simp: wf_peers_def)
  show ?thesis
proof (cases x)
  case (Upsert k key ep cs)
  then show ?thesis using upsert_ok [OF ok] fits by (cases "upsert_peer c dec r k key ep cs w") fastforce
next
  case (Outbound pkt)
  then show ?thesis using outbound_ok [OF c ok, of pkt] fits by auto
next
  case (Inbound dg)
  then show ?thesis using inbound_ok [OF c ok, of dg] fits by auto
next
  case Tick
  then show ?thesis using tick_ok [OF c ok] by auto
next
  case (Remove k)
  then show ?thesis using router_ok_remove [OF ok] by (simp add: remove_peer_def)
qed (use ok wf fits in \<open>auto simp: set_endpoint_def set_cidrs_def add_cidrs_def remove_cidrs_def intro!: router_ok_update\<close>)
qed

lemma router_run_ok:
  "crypto_ok c \<Longrightarrow> router_ok r w \<Longrightarrow> list_all (router_op_fits (rt_mtu r)) xs \<Longrightarrow>
     \<exists>oss r' w'. router_run c dec xs r w = Some (Returns (oss, r', w')) \<and> router_ok r' w' \<and> rt_mtu r' = rt_mtu r"
proof (induction xs arbitrary: r w)
  case Nil
  then show ?case by simp
next
  case (Cons x xs)
  obtain os r1 w1 where 1: "router_step c dec x r w = Some (Returns (os, r1, w1))" "router_ok r1 w1" "rt_mtu r1 = rt_mtu r"
    using router_step_ok [OF Cons.prems(1,2), of x dec] Cons.prems(3) by auto
  then obtain oss r' w' where "router_run c dec xs r1 w1 = Some (Returns (oss, r', w'))" "router_ok r' w'" "rt_mtu r' = rt_mtu r"
    using Cons.IH [of r1 w1] Cons.prems by auto
  then show ?case using 1 by simp
qed

section \<open>The table of sites\<close>

definition site_view :: "router \<Rightarrow> int \<Rightarrow> (endpoint \<times> cidr list) option" where
  "site_view r k = map_option (\<lambda>p. (pr_endpoint p, pr_cidrs p)) (lookup_by pr_site_id (peers r) k)"

primrec table_step ::
  "(string \<Rightarrow> string + bytes) \<Rightarrow> router_op \<Rightarrow> (int \<Rightarrow> (endpoint \<times> cidr list) option) \<Rightarrow> int \<Rightarrow> (endpoint \<times> cidr list) option" where
  "table_step dec (Upsert k key ep cs) m =
     (case public_from_b64 dec key of Inl _ \<Rightarrow> m | Inr _ \<Rightarrow> m(k \<mapsto> (ep, cs)))"
| "table_step dec (Remove k) m = m(k := None)"
| "table_step dec (SetEndpoint k ep) m = m(k := map_option (\<lambda>(_, cs). (ep, cs)) (m k))"
| "table_step dec (SetCidrs k cs) m = m(k := map_option (\<lambda>(ep, _). (ep, cs)) (m k))"
| "table_step dec (AddCidrs k cs) m = m(k := map_option (\<lambda>(ep, old). (ep, old @ cs)) (m k))"
| "table_step dec (RemoveCidrs k cs) m = m(k := map_option (\<lambda>(ep, old). (ep, filter (\<lambda>c. c \<notin> set cs) old)) (m k))"
| "table_step dec (Outbound pkt) m = m"
| "table_step dec (Inbound dg) m = m"
| "table_step dec Tick m = m"

text \<open>What an update of a pump keeps of a peer.\<close>

definition face :: "peer \<Rightarrow> int \<times> u32 \<times> endpoint \<times> cidr list" where
  "face p = (pr_site_id p, pr_index p, pr_endpoint p, pr_cidrs p)"

lemma face_pump [simp]: "face (p\<lparr>pr_pump := x\<rparr>) = face p"
  by (simp add: face_def)

lemma lookup_faces:
  "map_option (\<lambda>p. (pr_endpoint p, pr_cidrs p)) (lookup_by pr_site_id ps k) =
     map_of (map (\<lambda>p. case face p of (k, _, v) \<Rightarrow> (k, v)) ps) k"
  by (induction ps) (auto simp: lookup_by_def face_def)

lemma site_view_cong: "map face ps = map face qs \<Longrightarrow> site_view (r\<lparr>peers := ps\<rparr>) = site_view (q\<lparr>peers := qs\<rparr>)"
proof -
  assume "map face ps = map face qs"
  then have "map (\<lambda>f. case f of (k, _, v) \<Rightarrow> (k, v)) (map face ps) = map (\<lambda>f. case f of (k, _, v) \<Rightarrow> (k, v)) (map face qs)"
    by (rule arg_cong)
  then show ?thesis unfolding site_view_def lookup_faces by (simp add: o_def)
qed

lemma tick_faces: "tick_peers c ps w = Returns (bs, ps', w') \<Longrightarrow> map face ps' = map face ps"
  by (induction ps arbitrary: w bs ps' w') (auto elim!: obind_Returns)

lemma same_cidr_eq: "same_cidr a b \<longleftrightarrow> a = b"
  by (auto simp: same_cidr_def)

text \<open>Packets, datagrams and ticks leave the faces of the peers alone.\<close>

lemma traffic_faces:
  assumes "router_step c dec x r w = Some (Returns (os, r', w'))" "x = Tick \<or> (\<exists>p. x = Inbound p \<or> x = Outbound p)"
  shows "map face (peers r') = map face (peers r) \<and> rt_next_index r' = rt_next_index r"
proof -
  have upd: "map face ((peers r)[i := (peers r ! i)\<lparr>pr_pump := q\<rparr>]) = map face (peers r)" for i q
    by (cases "i < length (peers r)") (simp_all add: map_list_update_same list_update_beyond)
  show ?thesis using assms
    by (auto simp: tick_def route_outbound_def handle_inbound_def feed_peer_def Let_def upd
        dest!: tick_faces elim!: obind_Returns split: option.splits outcome.splits)
qed

lemma traffic_view: "map face (peers r') = map face (peers r) \<Longrightarrow> site_view r' = site_view r"
  using site_view_cong [of "peers r'" "peers r" r' r] by simp

lemma view_update:
  assumes "\<And>p. pr_site_id (f p) = pr_site_id p" "\<And>p. (pr_endpoint (f p), pr_cidrs (f p)) = g (pr_endpoint p, pr_cidrs p)"
  shows "site_view (r\<lparr>peers := update_first (\<lambda>p. pr_site_id p = k) f (peers r)\<rparr>) =
    (site_view r)(k := map_option g (site_view r k))"
  using assms by (auto simp: site_view_def lookup_by_update option.map_comp o_def fun_eq_iff)

lemma view_upsert:
  assumes "upsert_peer c dec r k key ep cs w = (b, r', w')"
  shows "site_view r' = table_step dec (Upsert k key ep cs) (site_view r)"
proof (cases "public_from_b64 dec key")
  case (Inl e)
  then show ?thesis using assms by (simp add: upsert_peer_def)
next
  case (Inr pk)
  then obtain p where p: "peers r' = peers (remove_peer k r) @ [p]" "pr_site_id p = k" "pr_endpoint p = ep" "pr_cidrs p = cs"
    using assms by (auto simp: upsert_peer_def remove_peer_def Let_def case_prod_beta)
  have "pr_site_id p \<notin> pr_site_id ` set (peers (remove_peer k r))" using p(2) by (auto simp: remove_peer_def)
  from lookup_by_snoc [of pr_site_id p, OF this]
  have "lookup_by pr_site_id (peers (remove_peer k r) @ [p]) = (lookup_by pr_site_id (peers (remove_peer k r)))(k \<mapsto> p)"
    using p(2) by simp
  then show ?thesis using Inr p by (auto simp: site_view_def remove_peer_def lookup_by_remove fun_eq_iff)
qed

lemma view_step:
  assumes "router_step c dec x r w = Some (Returns (os, r', w'))"
  shows "site_view r' = table_step dec x (site_view r)"
proof (cases x)
  case (Upsert k key ep cs)
  then show ?thesis using assms view_upsert by (auto split: prod.splits)
next
  case (Remove k)
  then show ?thesis using assms by (auto simp: site_view_def remove_peer_def lookup_by_remove fun_eq_iff)
next
  case (Outbound pkt)
  then show ?thesis using traffic_view [of r' r] traffic_faces [OF assms] by simp
next
  case (Inbound pkt)
  then show ?thesis using traffic_view [of r' r] traffic_faces [OF assms] by simp
next
  case Tick
  then show ?thesis using traffic_view [of r' r] traffic_faces [OF assms] by simp
qed (use assms in \<open>auto simp: set_endpoint_def set_cidrs_def add_cidrs_def remove_cidrs_def same_cidr_eq list_ex_iff
      intro!: view_update filter_cong\<close>)

section \<open>Which peer a datagram reaches\<close>

definition numbered :: "nat \<Rightarrow> router \<Rightarrow> bool" where
  "numbered n r \<longleftrightarrow> distinct (map pr_index (peers r)) \<and> (\<forall>i \<in> set (map pr_index (peers r)). unat i < unat (rt_next_index r)) \<and>
     unat (rt_next_index r) \<le> n"

lemma numbered_same:
  "map pr_index (peers r') = map pr_index (peers r) \<Longrightarrow> rt_next_index r' = rt_next_index r \<Longrightarrow> numbered n r' = numbered n r"
  by (simp only: numbered_def)

lemma numbered_faces:
  assumes "map face (peers r') = map face (peers r)" "rt_next_index r' = rt_next_index r"
  shows "numbered n r' = numbered n r"
proof -
  have "map (\<lambda>f. fst (snd f)) (map face (peers r')) = map (\<lambda>f. fst (snd f)) (map face (peers r))" using assms(1) by simp
  then show ?thesis using assms(2) by (intro numbered_same) (simp_all add: face_def o_def)
qed

lemma numbered_remove: "numbered n r \<Longrightarrow> numbered n (remove_peer k r)"
  by (auto simp: numbered_def remove_peer_def distinct_map inj_on_def)

lemma numbered_upsert:
  assumes n: "numbered n r" "n + 1 < 2 ^ 32" and u: "upsert_peer c dec r k key ep cs w = (b, r', w')"
  shows "numbered (n + 1) r'"
proof (cases "public_from_b64 dec key")
  case (Inl e)
  then show ?thesis using u n by (auto simp: upsert_peer_def numbered_def)
next
  case (Inr pk)
  then obtain p where p: "peers r' = peers (remove_peer k r) @ [p]" "pr_index p = rt_next_index r"
    "rt_next_index r' = max (rt_next_index r + 1) 1"
    using u by (auto simp: upsert_peer_def remove_peer_def Let_def case_prod_beta)
  have "unat (rt_next_index r + 1) = unat (rt_next_index r) + 1" using n by (simp add: numbered_def unat_word_ariths)
  then have nx: "unat (rt_next_index r') = unat (rt_next_index r) + 1"
    unfolding p(3) by (simp add: max_def word_le_nat_alt)
  have "numbered n (remove_peer k r)" "rt_next_index (remove_peer k r) = rt_next_index r"
    using numbered_remove [OF n(1)] by (simp_all add: remove_peer_def)
  then show ?thesis using p(1,2) nx by (auto simp: numbered_def less_Suc_eq)
qed

lemma numbered_step:
  assumes s: "router_step c dec x r w = Some (Returns (os, r', w'))" and n: "numbered n r" "n + 1 < 2 ^ 32"
  shows "numbered (n + 1) r'"
proof -
  have mono: "numbered n r1 \<Longrightarrow> numbered (n + 1) r1" for r1 by (auto simp: numbered_def)
  show ?thesis
  proof (cases x)
    case (Upsert k key ep cs)
    then show ?thesis using s numbered_upsert [OF n] by (auto split: prod.splits)
  next
    case (Remove k)
    then show ?thesis using s mono [OF numbered_remove [OF n(1)]] by auto
  next
    case (Outbound pkt)
    then show ?thesis using mono [OF n(1)] numbered_faces [of r' r] traffic_faces [OF s] by simp
  next
    case (Inbound pkt)
    then show ?thesis using mono [OF n(1)] numbered_faces [of r' r] traffic_faces [OF s] by simp
  next
    case Tick
    then show ?thesis using mono [OF n(1)] numbered_faces [of r' r] traffic_faces [OF s] by simp
  qed (use s mono [OF n(1)] in \<open>auto simp: set_endpoint_def set_cidrs_def add_cidrs_def remove_cidrs_def map_update_first
        numbered_def simp del: set_map\<close>)
qed

lemma numbered_run:
  "router_run c dec xs r w = Some (Returns (oss, r', w')) \<Longrightarrow> numbered n r \<Longrightarrow> n + length xs < 2 ^ 32 \<Longrightarrow> numbered (n + length xs) r'"
proof (induction xs arbitrary: n r w oss)
  case Nil
  then show ?case by simp
next
  case (Cons x xs)
  then obtain os r1 w1 oss' where 1: "router_step c dec x r w = Some (Returns (os, r1, w1))"
    "router_run c dec xs r1 w1 = Some (Returns (oss', r', w'))"
    by (auto elim!: obind_Returns split: option.splits outcome.splits)
  have "numbered (n + 1) r1" using numbered_step [OF 1(1) Cons.prems(2)] Cons.prems(3) by simp
  then show ?case using Cons.IH [OF 1(2), of "n + 1"] Cons.prems(3) by simp
qed

lemma drop_push_index: "unat (k :: u32) < 2 ^ 24 \<Longrightarrow> drop_bit 8 (push_bit 8 k) = k"
  by (simp add: word_unat_eq_iff drop_bit_eq_div push_bit_eq_mult unat_div unat_word_ariths)

text \<open>The messages a peer sends to a tunnel: data of one of its sessions, the answer to an initiation it waits for.\<close>

primrec addressed_to :: "tunn \<Rightarrow> packet \<Rightarrow> bool" where
  "addressed_to t (HandshakeInit m) \<longleftrightarrow> False"
| "addressed_to t (HandshakeResponse m) \<longleftrightarrow> awaiting_response (tn_handshake t) (hr_receiver_idx m) \<noteq> None"
| "addressed_to t (PacketCookieReply m) \<longleftrightarrow> False"
| "addressed_to t (PacketData m) \<longleftrightarrow> (\<exists>s. Some s \<in> set (sessions t) \<and> receiving_index s = pd_receiver_idx m)"

lemma addressed_index:
  assumes "pump_ok g p w" "addressed_to (pm_tun p) m" "wf_packet m"
  shows "peer_index_of (packet_bytes m @ macs) = Some g"
proof (cases m)
  case (PacketData d)
  then obtain s where "Some s \<in> set (sessions (pm_tun p))" "receiving_index s = pd_receiver_idx d" using assms(2) by auto
  then have "drop_bit 8 (pd_receiver_idx d) = g"
    using assms(1) by (auto simp: pump_ok_def tunn_ok_def ring_ok_def slots_ok_def slot_ok_def in_set_conv_nth)
  then show ?thesis using peer_index_of_packet [OF assms(3)] PacketData by simp
next
  case (HandshakeResponse q)
  then obtain st b where a: "awaiting_response (tn_handshake (pm_tun p)) (hr_receiver_idx q) = Some (st, b)" using assms(2) by auto
  have "hs_peer g (tn_handshake (pm_tun p))" using assms(1) by (simp add: pump_ok_def tunn_ok_def ring_ok_def)
  then have "drop_bit 8 (is_local_index st) = g" using awaiting_peer a by blast
  moreover have "is_local_index st = hr_receiver_idx q" using a by (auto simp: awaiting_response_def split: handshake_state.splits if_splits)
  ultimately show ?thesis using peer_index_of_packet [OF assms(3)] HandshakeResponse by simp
qed (use assms in auto)

section \<open>Properties\<close>

text \<open>
  C9: Longest prefix. When the ranges are as \<open>Cidr::parse\<close> makes them, the lookup returns no peer
  exactly when no range covers the destination, and otherwise the first peer with a covering range
  of greatest prefix length, where a range covers the addresses that agree with it on the leading bits.
\<close>

theorem longest_prefix_wins:
  assumes wf: "\<forall>p \<in> set (peers r). \<forall>c \<in> set (pr_cidrs p). wf_cidr c"
  shows "(best_peer r dst = Returns None \<longleftrightarrow> (\<forall>p \<in> set (peers r). \<forall>c \<in> set (pr_cidrs p). \<not> covers c dst)) \<and>
    (\<forall>i. best_peer r dst = Returns (Some i) \<longleftrightarrow> i < length (peers r) \<and>
       (\<exists>c \<in> set (pr_cidrs (peers r ! i)). covers c dst \<and>
          (\<forall>j < length (peers r). \<forall>d \<in> set (pr_cidrs (peers r ! j)). covers d dst \<longrightarrow>
             cd_prefix d \<le> cd_prefix c \<and> (j < i \<longrightarrow> cd_prefix d < cd_prefix c))))"
proof -
  define b where "b = best_route dst (routes 0 (peers r)) None"
  have eq: "best_peer r dst = Returns (map_option fst b)" using wf best_peer_eq [of r dst] by (simp add: wf_peers_def b_def)
  have spec: "case b of None \<Rightarrow> \<forall>j < length (peers r). \<forall>d \<in> set (pr_cidrs (peers r ! j)). \<not> covers d dst
    | Some (i, bp) \<Rightarrow> i < length (peers r) \<and> (\<exists>c \<in> set (pr_cidrs (peers r ! i)). covers c dst \<and> cd_prefix c = bp) \<and>
        (\<forall>j < length (peers r). \<forall>d \<in> set (pr_cidrs (peers r ! j)). covers d dst \<longrightarrow> cd_prefix d \<le> bp \<and> (j < i \<longrightarrow> cd_prefix d < bp))"
    using best_route_spec [OF routes_sorted [of 0 "peers r"], of dst] by (auto simp: b_def set_routes split: option.splits)
  show ?thesis
  proof (cases b)
    case None
    then show ?thesis using eq spec by (auto simp: in_set_conv_nth [of _ "peers r"])
  next
    case (Some x)
    obtain i bp where x: "x = (i, bp)" by fastforce
    obtain c where c: "i < length (peers r)" "c \<in> set (pr_cidrs (peers r ! i))" "covers c dst" "cd_prefix c = bp"
      using spec Some x by auto
    have top: "cd_prefix d \<le> bp \<and> (j < i \<longrightarrow> cd_prefix d < bp)"
      if "j < length (peers r)" "d \<in> set (pr_cidrs (peers r ! j))" "covers d dst" for j d
      using spec Some x that by auto
    have b: "best_peer r dst = Returns (Some i)" using eq Some x by simp
    show ?thesis
    proof (intro conjI allI)
      show "best_peer r dst = Returns None \<longleftrightarrow> (\<forall>p \<in> set (peers r). \<forall>c \<in> set (pr_cidrs p). \<not> covers c dst)"
        using b c nth_mem [OF c(1)] by auto
      fix k
      let ?first = "\<lambda>k. k < length (peers r) \<and> (\<exists>c \<in> set (pr_cidrs (peers r ! k)). covers c dst \<and>
        (\<forall>j < length (peers r). \<forall>d \<in> set (pr_cidrs (peers r ! j)). covers d dst \<longrightarrow>
           cd_prefix d \<le> cd_prefix c \<and> (j < k \<longrightarrow> cd_prefix d < cd_prefix c)))"
      have "?first i" using c top by blast
      moreover have "k = i" if first: "?first k"
      proof -
        obtain d where d: "k < length (peers r)" "d \<in> set (pr_cidrs (peers r ! k))" "covers d dst"
          "cd_prefix c \<le> cd_prefix d \<and> (i < k \<longrightarrow> cd_prefix c < cd_prefix d)" using first c by blast
        from top [OF d(1-3)] d(4) c(4) show ?thesis by (cases k i rule: linorder_cases) auto
      qed
      ultimately show "best_peer r dst = Returns (Some k) \<longleftrightarrow> ?first k" using b by auto
    qed
  qed
qed

definition demo_router :: router where
  "demo_router = (router_new (replicate 32 3) 1280)\<lparr>rt_next_index := 3, peers :=
     [\<lparr>pr_site_id = 1, pr_pump = waiting_pump, pr_endpoint = (V4 0x01010101, 51820),
        pr_cidrs = [\<lparr>net = V4 0x0A000000, cd_prefix = 16\<rparr>], pr_index = 1\<rparr>,
      \<lparr>pr_site_id = 2, pr_pump = waiting_pump, pr_endpoint = (V4 0x02020202, 51820),
        pr_cidrs = [\<lparr>net = V4 0x0A000500, cd_prefix = 24\<rparr>], pr_index = 2\<rparr>]\<rparr>"

theorem longest_prefix_wins_witness:
  "best_peer demo_router (V4 0x0A000509) = Returns (Some 1) \<and> best_peer demo_router (V4 0x08080808) = Returns None"
proof -
  have wf: "\<forall>p \<in> set (peers demo_router). \<forall>c \<in> set (pr_cidrs p). wf_cidr c" by (simp add: demo_router_def wf_cidr_def)
  have c: "covers \<lparr>net = V4 0x0A000000, cd_prefix = 16\<rparr> (V4 0x0A000509)" "covers \<lparr>net = V4 0x0A000500, cd_prefix = 24\<rparr> (V4 0x0A000509)"
    "\<not> covers \<lparr>net = V4 0x0A000000, cd_prefix = 16\<rparr> (V4 0x08080808)" "\<not> covers \<lparr>net = V4 0x0A000500, cd_prefix = 24\<rparr> (V4 0x08080808)"
    by code_simp+
  show ?thesis
    using longest_prefix_wins [OF wf, of "V4 0x0A000509"] longest_prefix_wins [OF wf, of "V4 0x08080808"] c
    by (auto simp: demo_router_def less_Suc_eq nth_Cons')
qed

text \<open>
  C10: The router keeps a table of sites. Over any sequence of calls, the endpoint and the ranges of
  every site are those of the abstract table: an upsert with a valid key replaces the entry, a
  removal drops it, the three range operations and the change of endpoint alter the one entry, and
  traffic and timers change nothing.
\<close>

theorem router_refines_table:
  assumes "router_run c dec xs r w = Some (Returns (oss, r', w'))"
  shows "site_view r' = fold (table_step dec) xs (site_view r)"
  using assms
proof (induction xs arbitrary: r w oss)
  case Nil
  then show ?case by simp
next
  case (Cons x xs)
  then obtain os r1 w1 oss' where 1: "router_step c dec x r w = Some (Returns (os, r1, w1))"
    "router_run c dec xs r1 w1 = Some (Returns (oss', r', w'))"
    by (auto elim!: obind_Returns split: option.splits outcome.splits)
  then show ?case using Cons.IH [OF 1(2)] view_step [OF 1(1)] by simp
qed

theorem router_refines_table_witness:
  "site_view (set_endpoint 2 (V4 7, 9) (remove_peer 1 demo_router)) 2 = Some ((V4 7, 9), [\<lparr>net = V4 0x0A000500, cd_prefix = 24\<rparr>])"
proof -
  have r: "router_run demo_crypto (\<lambda>_. Inl []) [Remove 1, SetEndpoint 2 (V4 7, 9)] demo_router demo_world =
      Some (Returns ([[], []], set_endpoint 2 (V4 7, 9) (remove_peer 1 demo_router), demo_world))" by simp
  show ?thesis unfolding router_refines_table [OF r] by (simp add: site_view_def demo_router_def lookup_by_def)
qed

text \<open>
  The router never panics and never loops. From a new router, under a clock that does not go
  back, any sequence of calls with parsed ranges, packets up to the MTU (or 1500 bytes) and
  datagrams at most 48 bytes longer returns, and there is never more than one peer per site.
\<close>

lemma router_never_panics:
  assumes "crypto_ok c" and "clock_from T w" and "list_all (router_op_fits mtu) xs"
  shows "\<exists>oss r' w'. router_run c dec xs (router_new sk mtu) w = Some (Returns (oss, r', w')) \<and>
    distinct (map pr_site_id (peers r'))"
  using router_run_ok [OF assms(1) router_ok_new [OF assms(2), of sk mtu], of xs dec] assms(3)
  by (auto simp: router_new_def router_ok_def)


definition one_peer :: "router \<times> world" where
  "one_peer = snd (upsert_peer demo_crypto (\<lambda>_. Inr (replicate 32 9)) (router_new (replicate 32 3) 1280) 1 [] (V4 1, 2) [] demo_world)"

lemma one_peer_run:
  "\<exists>oss. router_run demo_crypto (\<lambda>_. Inr (replicate 32 9)) [Upsert 1 [] (V4 1, 2) []] (router_new (replicate 32 3) 1280) demo_world =
     Some (Returns (oss, fst one_peer, snd one_peer))"
  by (simp add: one_peer_def case_prod_beta)

lemma one_peer_waits:
  "length (peers (fst one_peer)) = 1"
  "awaiting_response (tn_handshake (pm_tun (pr_pump (peers (fst one_peer) ! 0)))) 0x101 \<noteq> None"
proof -
  let ?w = "with_index demo_crypto (replicate 32 3) (replicate 32 9) 1280 1 demo_world"
  let ?i = "initiate_handshake demo_crypto (fst ?w) (snd ?w)"
  have p: "peers (fst one_peer) = [\<lparr>pr_site_id = 1, pr_pump = fst (snd ?i), pr_endpoint = (V4 1, 2), pr_cidrs = [], pr_index = 1\<rparr>]"
    by (simp add: one_peer_def upsert_peer_def public_from_b64_def router_new_def remove_peer_def Let_def case_prod_beta)
  show "length (peers (fst one_peer)) = 1" by (simp add: p)
  have h: "hs_state (tn_handshake (pm_tun (fst ?w))) = HsNone" "next_index (tn_handshake (pm_tun (fst ?w))) = 0x100"
    by (simp_all add: with_index_def tunn_new_def handshake_new_def Let_def case_prod_beta push_bit_eq_mult)
  then have "\<not> is_in_progress (tn_handshake (pm_tun (fst ?w)))" "\<not> is_expired (tn_handshake (pm_tun (fst ?w)))"
    by (simp_all add: is_in_progress_def is_expired_def)
  then have "\<exists>st. hs_state (tn_handshake (pm_tun (fst (snd ?i)))) = InitSent st \<and>
      is_local_index st = fst (inc_index (tn_handshake (pm_tun (fst ?w))))"
    by (simp add: initiate_handshake_def tunn_format_handshake_initiation_def format_handshake_initiation_eq Let_def case_prod_beta)
  moreover have "fst (inc_index (tn_handshake (pm_tun (fst ?w)))) = 0x101" by (simp add: inc_index_bump h bump_index_def)
  ultimately show "awaiting_response (tn_handshake (pm_tun (pr_pump (peers (fst one_peer) ! 0)))) 0x101 \<noteq> None"
    by (auto simp: p awaiting_response_def)
qed


text \<open>
  C38: Peers numbered from 2^24 on are unreachable. The tunnel shifts the index it is given left by
  eight bits, so the upper eight are lost: whatever datagram arrives, a peer with such an index is
  left untouched.
\<close>

theorem large_index_unreachable:
  assumes "2 ^ 24 \<le> unat (pr_index (peers r ! i))"
    and "handle_inbound c r dg w = Some (Returns (os, r', w'))"
  shows "peers r' ! i = peers r ! i"
proof -
  have small: "unat (drop_bit 8 (x :: u32)) < 2 ^ 24" for x
    using unsigned_less [of x, where ?'a = nat] by (simp add: drop_bit_eq_div unat_div less_mult_imp_div_less)
  have "k \<noteq> i" if "peer_index_of dg = Some x" "find_index (\<lambda>p. pr_index p = x) (peers r) = Some k" for x k
  proof -
    have "unat x < 2 ^ 24" using that(1) small by (auto simp: peer_index_of_def split: if_splits option.splits)
    moreover have "pr_index (peers r ! k) = x" using find_index_Some [OF that(2)] by simp
    ultimately show ?thesis using assms(1) by auto
  qed
  then show ?thesis using assms(2)
    by (auto simp: handle_inbound_def feed_peer_def Let_def elim!: obind_Returns split: option.splits outcome.splits)
qed

theorem large_index_unreachable_witness:
  "\<exists>os r' w'. handle_inbound demo_crypto (demo_router\<lparr>peers := (peers demo_router)[0 := (peers demo_router ! 0)\<lparr>pr_index := 0x1000001\<rparr>]\<rparr>)
      (le32 4 @ le32 0x101 @ replicate 24 0) demo_world = Some (Returns (os, r', w')) \<and>
    peers r' ! 0 = (peers demo_router ! 0)\<lparr>pr_index := 0x1000001\<rparr>"
proof -
  let ?r = "demo_router\<lparr>peers := (peers demo_router)[0 := (peers demo_router ! 0)\<lparr>pr_index := 0x1000001\<rparr>]\<rparr>"
  have "peer_index_of (le32 4 @ le32 0x101 @ replicate 24 0) = Some 1" by code_simp
  then have h: "handle_inbound demo_crypto ?r (le32 4 @ le32 0x101 @ replicate 24 0) demo_world = Some (Returns ([], ?r, demo_world))"
    by (simp add: handle_inbound_def demo_router_def)
  show ?thesis using large_index_unreachable [OF _ h, of 0] h by (simp add: demo_router_def)
qed

text \<open>
  C39: Two parsers of the destination agree: the router reads from a packet the same destination
  address as the tunnel library's \<open>Tunn::dst_address\<close>.
\<close>

theorem dest_ip_agrees: "dest_ip pkt = dst_address pkt"
proof -
  have "slice 16 20 pkt = [pkt ! 16, pkt ! 17, pkt ! 18, pkt ! 19]" if "20 \<le> length pkt"
    using that by (intro nth_equalityI) (auto simp: slice_def less_Suc_eq numeral_eq_Suc nth_Cons')
  then show ?thesis by (auto simp: dest_ip_def dst_address_def split: list.splits)
qed

end
