(* ===== verification/Session_Base.thy ===== *)
theory Session_Base
  imports Transport Tunn_Invariant
begin

text \<open>
  What the sessions of the two roles share: the transport only moves the clock forward, and the
  loop over the inputs of a session, an interface of its own, keeps what each step keeps.
\<close>

section \<open>The transport and the clock\<close>

lemma later_write_frame: "write_frame op p s w = (r, s', w') \<Longrightarrow> later w w'"
  by (auto simp: write_frame_def Let_def case_prod_beta intro: later_fill)

lemma later_ws_send: "ws_send ser m s w = (r, s', w') \<Longrightarrow> later w w'"
  by (auto simp: ws_send_def split: sum.splits dest: later_write_frame)

lemma later_recv_loop: "recv_loop de msg t s w = (r, s', w') \<Longrightarrow> later w w'"
proof (induction de msg t s w rule: recv_loop.induct)
  case (1 de msg t s w)
  note r = "1.prems" [unfolded recv_loop.simps [of de msg t s w]]
  show ?case
  proof (cases "read_frame s")
    case (Pair x s1)
    show ?thesis
    proof (cases x)
      case (Inr y)
      obtain fin op p where y: "y = (fin, op, p)" by (cases y)
      note rf = Pair [unfolded Inr y]
      show ?thesis
      proof (cases "write_frame 0xA p s1 w")
        case (fields z s2 w2)
        then have l: "later w w2" by (rule later_write_frame)
        show ?thesis
          using r "1.IH" [OF rf [symmetric] refl refl refl] fields l later_trans [OF l]
          by (auto simp: rf Let_def split: sum.splits if_splits; blast)
      qed
    qed (use r Pair in auto)
  qed
qed

lemma later_recv_dropped: "recv_dropped de k s w = (s', w') \<Longrightarrow> later w w'"
  by (auto simp: recv_dropped_def recv_def split: prod.splits sum.splits io_error.splits dest: later_recv_loop)

lemma later_connect:
  assumes "connect d enc ep t ct w = (r, w')"
  shows "later w w'"
proof -
  have l: "fill_bytes 16 w = (k, w1) \<Longrightarrow> later w w1" for k w1 using later_fill [of w 16] by simp
  show ?thesis using assms unfolding connect_def Let_def
    by (clarsimp split: sum.splits prod.splits if_splits; blast intro: l)
qed

section \<open>Loops over inputs\<close>

text \<open>
  A loop whose step ends the session with an error or in order (\<open>Inr False\<close>), or goes on: what
  holds while the session goes on (\<open>going\<close>) and in the end in any case (\<open>ended\<close>).
\<close>

locale event_loop =
  fixes step :: "'x \<Rightarrow> 's \<Rightarrow> 'w \<Rightarrow> ((io_error + bool) \<times> 's \<times> 'w) outcome option"
    and loop :: "'x list \<Rightarrow> 's \<Rightarrow> 'w \<Rightarrow> ((io_error + bool) \<times> 's \<times> 'w) outcome option"
    and fits :: "'x \<Rightarrow> bool" and going :: "'s \<Rightarrow> 'w \<Rightarrow> bool" and ended :: "'s \<Rightarrow> 'w \<Rightarrow> bool"
  assumes loop_nil: "loop [] s w = Some (Returns (Inr True, s, w))"
    and loop_stop: "step x s w = Some (Returns (r, s', w')) \<Longrightarrow> r \<noteq> Inr True \<Longrightarrow> loop (x # xs) s w = Some (Returns (r, s', w'))"
    and loop_go: "step x s w = Some (Returns (Inr True, s', w')) \<Longrightarrow> loop (x # xs) s w = loop xs s' w'"
    and step_keeps: "going s w \<Longrightarrow> fits x \<Longrightarrow>
      \<exists>r s' w'. step x s w = Some (Returns (r, s', w')) \<and> ended s' w' \<and> (r = Inr True \<longrightarrow> going s' w')"
    and going_ended: "going s w \<Longrightarrow> ended s w"
begin

lemma loop_keeps:
  "going s w \<Longrightarrow> \<forall>x \<in> set xs. fits x \<Longrightarrow>
     \<exists>r s' w'. loop xs s w = Some (Returns (r, s', w')) \<and> ended s' w' \<and> (r = Inr True \<longrightarrow> going s' w')"
proof (induction xs arbitrary: s w)
  case Nil
  then show ?case using loop_nil going_ended by blast
next
  case (Cons x xs)
  obtain r s1 w1 where 1: "step x s w = Some (Returns (r, s1, w1))" "ended s1 w1" "r = Inr True \<longrightarrow> going s1 w1"
    using step_keeps [of s w x] Cons.prems by auto
  show ?case
  proof (cases "r = Inr True")
    case True
    then show ?thesis using 1 loop_go [of x s w s1 w1 xs] Cons.IH [of s1 w1] Cons.prems(2) by simp
  next
    case False
    then show ?thesis using 1 loop_stop by blast
  qed
qed

end

section \<open>A server to connect to\<close>

text \<open>A connection over which the server sends the bytes given and accepts everything; for the witnesses of both roles.\<close>

definition demo_reach :: "bytes \<Rightarrow> dialer" where
  "demo_reach b = \<lparr>tcp_connect = \<lambda>_ _. Inr (demo_stream\<lparr>st_in := b\<rparr>), server_name = Some, tls_connect = \<lambda>_. Inr\<rparr>"

lemma demo_endpoint: "split_endpoint ''https://a'' = Inr (''https'', ''a:443'', ''a'', 443)"
  by code_simp

lemma demo_dial: "dial (demo_reach b) ''https'' h p = Inr (demo_stream\<lparr>st_in := b\<rparr>)"
  by (simp add: dial_def demo_reach_def)

lemma demo_token_data: "fst (get_token_data (demo_reach []) (\<lambda>_. Inr v) ser ''https://a'' kind body) = Inr (index_json v ''data'')"
  by (simp add: get_token_data_def demo_endpoint demo_dial write_all_def demo_stream_def read_to_end_def token_answer_def Let_def)

lemma demo_upgrade:
  "\<exists>out w'. connect (demo_reach (demo_head @ b)) enc ''https://a'' t ct w = (Inr (demo_stream\<lparr>st_in := b, st_out := out\<rparr>), w')"
proof -
  have head: "ends_with demo_head blank_line \<and> (\<forall>k < length demo_head. \<not> ends_with (take k demo_head) blank_line)
    \<and> length demo_head \<le> 8193 \<and> take 12 (takeWhile (\<lambda>c. c \<noteq> 13) demo_head) = str_bytes ''HTTP/1.1 101'' \<and> demo_head \<noteq> []"
    by code_simp
  have "read_head [] (demo_stream\<lparr>st_in := demo_head @ b, st_out := out\<rparr>) = (Inr demo_head, demo_stream\<lparr>st_in := b, st_out := out\<rparr>)" for out
    using read_head_exact [where xs = demo_head and pre = "[]" and s = "demo_stream\<lparr>st_out := out\<rparr>" and rest = b] head
    by (simp add: demo_stream_def)
  moreover have "write_all x (demo_stream\<lparr>st_in := demo_head @ b\<rparr>) = (Inr (), demo_stream\<lparr>st_in := demo_head @ b, st_out := x\<rparr>)" for x
    by (simp add: write_all_def demo_stream_def)
  ultimately show ?thesis using head by (simp add: connect_def demo_endpoint demo_dial Let_def case_prod_beta) blast
qed

lemma demo_write: "\<exists>out' w'. write_frame op p (demo_stream\<lparr>st_in := b, st_out := out\<rparr>) w = (Inr (), demo_stream\<lparr>st_in := b, st_out := out'\<rparr>, w')"
  by (auto simp: write_frame_def write_all_def demo_stream_def Let_def case_prod_beta)

lemma demo_recv:
  "recv (\<lambda>_. Inr m) (demo_stream\<lparr>st_in := server_frame True 0x1 [7], st_out := out\<rparr>) w = (Inr (Some m), demo_stream\<lparr>st_in := [], st_out := out\<rparr>, w)"
  using recv_loop_fragmented [where s = "demo_stream\<lparr>st_out := out\<rparr>" and its = "[]" and lst = "[7]" and rest = "[]" and started = False
      and msg = "[]" and is_text = False and de_msg = "\<lambda>_. Inr m" and m = m and w = w]
  by (simp add: recv_def demo_stream_def MAX_FRAME_def pings_def)

end
