(* ===== verification/Site_Session.thy ===== *)
theory Site_Session
  imports Site_Safety Olm_Router_Safety Session_Base
begin

text \<open>
  One session of the site, \<open>session\<close> and \<open>exec\<close> of \<open>newt/src/tunnel.rs\<close>: what the loop does with
  a message from the server, with the one-second tick and with the data plane's input, over the
  state machine, the WebSocket and the data plane; and \<open>run\<close>, which opens one session after another.
  An input of the loop says which branch of the select completes: a message is received (from the
  bytes the server sends on the socket), a receive is dropped in the middle of a frame, a second has
  passed, or the UDP socket has an event.
\<close>

section \<open>State\<close>

record ('i, 'sk) site_env =
  e_crypto :: crypto
  e_smol :: "('i, 'sk) smol"
  e_iter :: "nat set \<Rightarrow> nat list"
  e_os :: os
  e_de_json :: "string \<Rightarrow> string + json"
  e_de_msg :: "bytes \<Rightarrow> string + ws_message"
  e_b64_decode :: "string \<Rightarrow> string + bytes"
  e_b64_encode :: "bytes \<Rightarrow> string"
  e_ser_json :: "json \<Rightarrow> string"
  e_ser_msg :: "ws_message \<Rightarrow> string + string"
  e_de_nodes :: "json \<Rightarrow> exit_node_data option"
  e_de_wg :: "json \<Rightarrow> wg_data option"
  e_cfg :: site_run
  e_keys :: keys

record ('i, 'sk) session_state =
  ss_jwt :: string
  ss_socket :: stream
  ss_data :: "('i, 'sk) dataplane option"
  ss_sm :: sm
  ss_config_version :: "int option"
  ss_ping_ticks :: u32

section \<open>Actions\<close>

fun exec ::
  "('i, 'sk) site_env \<Rightarrow> action \<Rightarrow> ('i, 'sk) session_state \<Rightarrow> world \<Rightarrow> (io_error + unit) \<times> ('i, 'sk) session_state \<times> world" where
  "exec e (Send m) s w = (case ws_send (e_ser_msg e) m (ss_socket s) w of (r, sock, w) \<Rightarrow> (r, s\<lparr>ss_socket := sock\<rparr>, w))"
| "exec e (BringUp wg) s w =
     (case bring_up (e_crypto e) (e_smol e) (e_os e) (e_b64_decode e) wg (e_cfg e) (e_keys e) (ss_jwt s) w of
        (Inl err, w) \<Rightarrow> (Inl err, s, w)
      | (Inr dp, w) \<Rightarrow> (Inr (), s\<lparr>ss_data := Some dp\<rparr>, w))"
| "exec e Teardown s w = (Inr (), s\<lparr>ss_data := None\<rparr>, w)"
| "exec e Stop s w = (Inl (Other ''terminated by server''), s, w)"

fun exec_all ::
  "('i, 'sk) site_env \<Rightarrow> action list \<Rightarrow> ('i, 'sk) session_state \<Rightarrow> world \<Rightarrow> (io_error + unit) \<times> ('i, 'sk) session_state \<times> world" where
  "exec_all e [] s w = (Inr (), s, w)"
| "exec_all e (a # acts) s w =
     (case exec e a s w of
        (Inl err, s, w) \<Rightarrow> (Inl err, s, w)
      | (Inr _, s, w) \<Rightarrow> exec_all e acts s w)"

definition feed_sm ::
  "('i, 'sk) site_env \<Rightarrow> event \<Rightarrow> ('i, 'sk) session_state \<Rightarrow> world \<Rightarrow> (io_error + unit) \<times> ('i, 'sk) session_state \<times> world" where
  "feed_sm e ev s w = (let (acts, sm) = step_impl (ss_sm s) ev in exec_all e acts (s\<lparr>ss_sm := sm\<rparr>) w)"

section \<open>Messages\<close>

fun get_json :: "json \<Rightarrow> string \<Rightarrow> json option" where
  "get_json (JObject kvs) k = map_of kvs k"
| "get_json _ k = None"

fun as_array :: "json \<Rightarrow> json list option" where
  "as_array (JArray xs) = Some xs"
| "as_array _ = None"

definition string_list :: "json option \<Rightarrow> string list" where
  "string_list v = (case Option.bind v as_array of Some a \<Rightarrow> List.map_filter as_str a | None \<Rightarrow> [])"

type_synonym ('i, 'sk) session_result = "((io_error + bool) \<times> ('i, 'sk) session_state \<times> world) outcome option"

text \<open>The result of a branch: an error ends the session, as does a closed socket (\<open>Inr False\<close>).\<close>

definition go_on :: "(io_error + unit) \<times> ('i, 'sk) session_state \<times> world \<Rightarrow> (io_error + bool) \<times> ('i, 'sk) session_state \<times> world" where
  "go_on rsw = (case rsw of (Inl err, s, w) \<Rightarrow> (Inl err, s, w) | (Inr _, s, w) \<Rightarrow> (Inr True, s, w))"

text \<open>A change of the data plane, if there is one.\<close>

definition on_data ::
  "(('i, 'sk) dataplane \<Rightarrow> ('i, 'sk) dataplane outcome) \<Rightarrow> ('i, 'sk) session_state \<Rightarrow> ('i, 'sk) session_state outcome" where
  "on_data f s = (case ss_data s of None \<Rightarrow> Returns s | Some dp \<Rightarrow> obind (f dp) (\<lambda>dp. Returns (s\<lparr>ss_data := Some dp\<rparr>)))"

definition on_message ::
  "('i, 'sk) site_env \<Rightarrow> ws_message \<Rightarrow> ('i, 'sk) session_state \<Rightarrow> world \<Rightarrow> ((io_error + bool) \<times> ('i, 'sk) session_state \<times> world) outcome" where
  "on_message e msg s w =
     (let s = (if config_version msg \<noteq> None then s\<lparr>ss_config_version := config_version msg\<rparr> else s) in
      if msg_typ msg = TCP_ADD \<or> msg_typ msg = TCP_REMOVE then
        let specs = string_list (get_json (msg_data msg) ''targets'') in
        obind (on_data (\<lambda>dp. if msg_typ msg = TCP_ADD then Returns (add_targets (e_smol e) specs dp) else remove_targets specs dp) s)
          (\<lambda>s. Returns (Inr True, s, w))
      else if msg_typ msg = SYNC then
        let specs = string_list (Option.bind (get_json (msg_data msg) ''proxyTargets'') (\<lambda>p. get_json p ''tcp'')) in
        obind (on_data (reconcile_targets (e_smol e) specs) s) (\<lambda>s. Returns (Inr True, s, w))
      else
        (case to_event (e_de_nodes e) (e_de_wg e) msg of
           None \<Rightarrow> Returns (Inr True, s, w)
         | Some ev \<Rightarrow> Returns (go_on (feed_sm e ev s w))))"

section \<open>The tick\<close>

definition keep_online ::
  "('i, 'sk) site_env \<Rightarrow> ('i, 'sk) session_state \<Rightarrow> world \<Rightarrow> ((io_error + unit) \<times> ('i, 'sk) session_state \<times> world) outcome" where
  "keep_online e s w =
     (case ss_data s of
        None \<Rightarrow> Returns (Inr (), s, w)
      | Some dp \<Rightarrow>
          obind (send_ping (e_crypto e) dp w) (\<lambda>(r, dp, w).
            case r of
              Inl err \<Rightarrow> Returns (Inl err, s\<lparr>ss_data := Some dp\<rparr>, w)
            | Inr _ \<Rightarrow>
                let (r, dp, w) = send_holepunch (e_crypto e) (e_b64_decode e) (e_b64_encode e) (e_ser_json e) dp w
                in Returns (r, s\<lparr>ss_data := Some dp\<rparr>, w)))"

definition heartbeat ::
  "('i, 'sk) site_env \<Rightarrow> ('i, 'sk) session_state \<Rightarrow> world \<Rightarrow> (io_error + unit) \<times> ('i, 'sk) session_state \<times> world" where
  "heartbeat e s w =
     (let s = s\<lparr>ss_ping_ticks := ss_ping_ticks s + 1\<rparr> in
      if ss_ping_ticks s \<ge> 10 then
        let s = s\<lparr>ss_ping_ticks := 0\<rparr>;
            ping = \<lparr>msg_typ = PING, msg_data = JObject [], config_version = ss_config_version s\<rparr>
        in (case ws_send (e_ser_msg e) ping (ss_socket s) w of (r, sock, w) \<Rightarrow> (r, s\<lparr>ss_socket := sock\<rparr>, w))
      else (Inr (), s, w))"

definition on_tick ::
  "('i, 'sk) site_env \<Rightarrow> ('i, 'sk) session_state \<Rightarrow> world \<Rightarrow> ((io_error + bool) \<times> ('i, 'sk) session_state \<times> world) outcome" where
  "on_tick e s w =
     (case feed_sm e (event.Tick 1000) s w of
        (Inl err, s, w) \<Rightarrow> Returns (Inl err, s, w)
      | (Inr _, s, w) \<Rightarrow>
          obind (keep_online e s w) (\<lambda>(r, s, w).
            case r of
              Inl err \<Rightarrow> Returns (Inl err, s, w)
            | Inr _ \<Rightarrow> Returns (go_on (heartbeat e s w))))"

section \<open>The loop\<close>

text \<open>\<open>Interrupted k\<close>: a receive that has read \<open>k\<close> bytes is dropped, because the branch that comes next completes first.\<close>

datatype session_event = Incoming | Interrupted nat | Second | Ready udp_event

definition drive ::
  "('i, 'sk) site_env \<Rightarrow> udp_event \<Rightarrow> ('i, 'sk) session_state \<Rightarrow> world \<Rightarrow> ('i, 'sk) session_result" where
  "drive e ev s w =
     (case ss_data s of
        None \<Rightarrow> Some (Returns (Inr True, s, w))
      | Some dp \<Rightarrow>
          map_option (\<lambda>r. obind r (\<lambda>(r, dp, w). Returns (go_on (r, s\<lparr>ss_data := Some dp\<rparr>, w))))
            (step_io (e_crypto e) (e_smol e) (e_iter e) ev dp w))"

fun session_step ::
  "('i, 'sk) site_env \<Rightarrow> session_event \<Rightarrow> ('i, 'sk) session_state \<Rightarrow> world \<Rightarrow> ('i, 'sk) session_result" where
  "session_step e Incoming s w =
     (case recv (e_de_msg e) (ss_socket s) w of
        (Inl err, sock, w) \<Rightarrow> Some (Returns (Inl err, s\<lparr>ss_socket := sock\<rparr>, w))
      | (Inr None, sock, w) \<Rightarrow> Some (Returns (Inr False, s\<lparr>ss_socket := sock\<rparr>, w))
      | (Inr (Some msg), sock, w) \<Rightarrow> Some (on_message e msg (s\<lparr>ss_socket := sock\<rparr>) w))"
| "session_step e (Interrupted k) s w =
     (case recv_dropped (e_de_msg e) k (ss_socket s) w of (sock, w) \<Rightarrow> Some (Returns (Inr True, s\<lparr>ss_socket := sock\<rparr>, w)))"
| "session_step e Second s w = Some (on_tick e s w)"
| "session_step e (Ready ev) s w = drive e ev s w"

fun session_loop ::
  "('i, 'sk) site_env \<Rightarrow> session_event list \<Rightarrow> ('i, 'sk) session_state \<Rightarrow> world \<Rightarrow> ('i, 'sk) session_result" where
  "session_loop e [] s w = Some (Returns (Inr True, s, w))"
| "session_loop e (x # xs) s w =
     (case session_step e x s w of
        None \<Rightarrow> None
      | Some Panics \<Rightarrow> Some Panics
      | Some (Returns (Inl err, s, w)) \<Rightarrow> Some (Returns (Inl err, s, w))
      | Some (Returns (Inr False, s, w)) \<Rightarrow> Some (Returns (Inr False, s, w))
      | Some (Returns (Inr True, s, w)) \<Rightarrow> session_loop e xs s w)"

text \<open>
  A session, with what the dialers \<open>dt\<close>, for the token, and \<open>dw\<close>, for the WebSocket, reach; there is no
  state yet when connecting fails.
\<close>

definition site_session ::
  "('i, 'sk) site_env \<Rightarrow> dialer \<Rightarrow> dialer \<Rightarrow> sm \<Rightarrow> session_event list \<Rightarrow> world \<Rightarrow>
     ((io_error + bool) \<times> ('i, 'sk) session_state option \<times> world) outcome option" where
  "site_session e dt dw sm evs w =
     (case get_token dt (e_de_json e) (e_ser_json e) (sr_endpoint (e_cfg e)) ''newt''
             (JObject [(''newtId'', JString (sr_id (e_cfg e))), (''secret'', JString (sr_secret (e_cfg e)))]) of
        Inl err \<Rightarrow> Some (Returns (Inl err, None, w))
      | Inr jwt \<Rightarrow>
          (case connect dw (e_b64_encode e) (sr_endpoint (e_cfg e)) jwt ''newt'' w of
             (Inl err, w) \<Rightarrow> Some (Returns (Inl err, None, w))
           | (Inr sock, w) \<Rightarrow>
               let s = \<lparr>ss_jwt = jwt, ss_socket = sock, ss_data = None, ss_sm = sm, ss_config_version = None, ss_ping_ticks = 0\<rparr> in
               map_option (\<lambda>r. obind r (\<lambda>(r, s, w). Returns (r, Some s, w)))
                 (case feed_sm e WsConnected s w of
                    (Inl err, s, w) \<Rightarrow> Some (Returns (Inl err, s, w))
                  | (Inr _, s, w) \<Rightarrow> session_loop e evs s w)))"

text \<open>
  The sessions of the process one after another, each with what its dialers reach and its
  inputs; the loop itself has no exit.
\<close>

definition site_sm_new :: "keys \<Rightarrow> sm" where
  "site_sm_new keys = sm_new (k_public_b64 keys) ''rust-0.2.2'' False"

fun site_sessions ::
  "('i, 'sk) site_env \<Rightarrow> (dialer \<times> dialer \<times> session_event list) list \<Rightarrow> world \<Rightarrow> world outcome option" where
  "site_sessions e [] w = Some (Returns w)"
| "site_sessions e ((dt, dw, evs) # rest) w =
     (case site_session e dt dw (site_sm_new (e_keys e)) evs w of
        None \<Rightarrow> None
      | Some Panics \<Rightarrow> Some Panics
      | Some (Returns (r, s, w)) \<Rightarrow> site_sessions e rest w)"

definition tunnel_run ::
  "('i, 'sk) site_env \<Rightarrow> (dialer \<times> dialer \<times> session_event list) list \<Rightarrow> world \<Rightarrow> world outcome option" where
  "tunnel_run e ss w =
     (let (keys, w) = generate_keys (e_crypto e) (e_b64_encode e) w in site_sessions (e\<lparr>e_keys := keys\<rparr>) ss w)"

section \<open>Lemmas\<close>

definition session_fits :: "('i, 'sk) site_env \<Rightarrow> session_event \<Rightarrow> bool" where
  "session_fits e x = (case x of Ready (Datagram d) \<Rightarrow> length d \<le> max (sr_mtu (e_cfg e)) 1500 + 48 | _ \<Rightarrow> True)"

definition env_ok :: "('i, 'sk) site_env \<Rightarrow> bool" where
  "env_ok e \<longleftrightarrow> crypto_ok (e_crypto e) \<and> smol_ok (e_smol e) \<and> iter_ok (e_iter e)"

definition session_ok :: "('i, 'sk) site_env \<Rightarrow> ('i, 'sk) session_state \<Rightarrow> world \<Rightarrow> bool" where
  "session_ok e s w \<longleftrightarrow> (\<exists>T. clock_from T w) \<and> unat (ss_ping_ticks s) < 10
     \<and> (case ss_data s of None \<Rightarrow> True | Some dp \<Rightarrow> plane_ok dp w \<and> pm_mtu (dp_pump dp) = sr_mtu (e_cfg e))"

definition in_step :: "('i, 'sk) session_state \<Rightarrow> bool" where
  "in_step s \<longleftrightarrow> (ss_data s \<noteq> None \<longleftrightarrow> state (ss_sm s) = Connected)"

lemma later_bring_up:
  assumes "clock_from T w" "bring_up c m os dec wg cfg keys token w = (r, w')"
  shows "later w w'"
proof -
  have l: "later w w2" if p: "pump_new c sk pk mtu w = (p1, w1)" "initiate_handshake c p1 w1 = (i, p2, w2)" for sk pk mtu p1 w1 i p2 w2
    using with_index_ok [OF assms(1), of c sk pk mtu 0 p1 w1] later_with_index [of c sk pk mtu 0 w p1 w1] initiate_handshake_ok [OF _ p(2), of 0] p(1)
      later_trans [of w w1 w2] by (simp add: pump_new_def)
  show ?thesis using assms(2) unfolding bring_up_def Let_def
    by (clarsimp split: option.splits Option.bind_splits sum.splits list.splits prod.splits; blast intro: l)
qed

lemma plane_ok_later: "plane_ok dp w \<Longrightarrow> later w w' \<Longrightarrow> plane_ok dp w'"
  using pump_ok_later by (auto simp: plane_ok_def)

lemma session_ok_later: "session_ok e s w \<Longrightarrow> later w w' \<Longrightarrow> session_ok e s w'"
  by (auto simp: session_ok_def split: option.splits intro: later_clock plane_ok_later)

lemma session_ok_fields [simp]:
  "session_ok e (s\<lparr>ss_socket := x\<rparr>) w = session_ok e s w" "session_ok e (s\<lparr>ss_sm := y\<rparr>) w = session_ok e s w"
  "session_ok e (s\<lparr>ss_config_version := v\<rparr>) w = session_ok e s w"
  by (simp_all add: session_ok_def)

lemma exec_ok:
  assumes "env_ok e" "session_ok e s w" "exec e a s w = (r, s', w')"
  shows "session_ok e s' w' \<and> ss_sm s' = ss_sm s
    \<and> (r = Inr () \<longrightarrow> tunnel_after (ss_data s \<noteq> None) [a] \<in> {None, Some (ss_data s' \<noteq> None)})"
proof (cases a)
  case (Send m)
  obtain x sock w1 where x: "ws_send (e_ser_msg e) m (ss_socket s) w = (x, sock, w1)" by (metis prod_cases3)
  show ?thesis using session_ok_later [OF assms(2) later_ws_send [OF x]] assms(3) x Send by auto
next
  case (BringUp wg)
  obtain T where T: "clock_from T w" using assms(2) by (auto simp: session_ok_def)
  obtain x w1 where b: "bring_up (e_crypto e) (e_smol e) (e_os e) (e_b64_decode e) wg (e_cfg e) (e_keys e) (ss_jwt s) w = (x, w1)"
    by fastforce
  have l: "session_ok e s w1" by (rule session_ok_later [OF assms(2) later_bring_up [OF T b]])
  show ?thesis
  proof (cases x)
    case (Inr dp)
    then have "plane_ok dp w1 \<and> pm_mtu (dp_pump dp) = sr_mtu (e_cfg e)" 
      using bring_up_ok [OF _ T b [unfolded Inr]] assms(1) by (simp add: env_ok_def)
    then show ?thesis using l assms(3) b BringUp Inr by (auto simp: session_ok_def)
  qed (use l assms(3) b BringUp in auto)
qed (use assms in \<open>auto simp: session_ok_def\<close>)

lemma exec_all_ok:
  assumes "env_ok e"
  shows "session_ok e s w \<Longrightarrow> exec_all e acts s w = (r, s', w') \<Longrightarrow> session_ok e s' w' \<and> ss_sm s' = ss_sm s
    \<and> (r = Inr () \<longrightarrow> tunnel_after (ss_data s \<noteq> None) acts \<in> {None, Some (ss_data s' \<noteq> None)})"
proof (induction acts arbitrary: s w)
  case (Cons a acts)
  obtain x s1 w1 where x: "exec e a s w = (x, s1, w1)" by (metis prod_cases3)
  note ok = exec_ok [OF assms Cons.prems(1) x]
  show ?case
  proof (cases x)
    case (Inr u)
    then have "exec_all e acts s1 w1 = (r, s', w')" using Cons.prems(2) x by simp
    then show ?thesis
      using Cons.IH [of s1 w1] ok Inr tunnel_after_append [of "ss_data s \<noteq> None" "[a]" acts] by auto
  qed (use Cons.prems(2) x ok in auto)
qed auto

lemma feed_sm_ok:
  assumes "env_ok e" "session_ok e s w" "in_step s" "ev \<noteq> WsConnected \<or> state (ss_sm s) \<noteq> Connected"
    and "feed_sm e ev s w = (r, s', w')"
  shows "session_ok e s' w' \<and> (r = Inr () \<longrightarrow> in_step s')"
proof -
  obtain acts sm where x: "step_impl (ss_sm s) ev = (acts, sm)" by fastforce
  then have "exec_all e acts (s\<lparr>ss_sm := sm\<rparr>) w = (r, s', w')" using assms(5) by (simp add: feed_sm_def)
  from exec_all_ok [OF assms(1) _ this] step_tunnel [OF assms(4)] x assms(2,3)
  show ?thesis by (auto simp: in_step_def)
qed

definition session_result_ok :: "('i, 'sk) site_env \<Rightarrow> (io_error + bool) \<times> ('i, 'sk) session_state \<times> world \<Rightarrow> bool" where
  "session_result_ok e = (\<lambda>(r, s, w). session_ok e s w \<and> (r = Inr True \<longrightarrow> in_step s))"

lemma go_on_ok:
  "session_ok e s w \<and> (r = Inr () \<longrightarrow> in_step s) \<Longrightarrow> session_result_ok e (go_on (r, s, w))"
  by (cases r) (auto simp: session_result_ok_def go_on_def)

lemma plane_step:
  assumes "env_ok e" "session_ok e s w" "ss_data s = Some dp" "site_fits (sr_mtu (e_cfg e)) x"
  shows "\<exists>r dp' w'. site_step (e_crypto e) (e_smol e) (e_iter e) (e_b64_decode e) (e_b64_encode e) (e_ser_json e) x dp w
    = Some (Returns (r, dp', w')) \<and> session_ok e (s\<lparr>ss_data := Some dp'\<rparr>) w'"
proof -
  have "plane_ok dp w" "site_fits (pm_mtu (dp_pump dp)) x" "pm_mtu (dp_pump dp) = sr_mtu (e_cfg e)"
    using assms by (auto simp: session_ok_def)
  moreover have "crypto_ok (e_crypto e)" "smol_ok (e_smol e)" "iter_ok (e_iter e)" using assms(1) by (auto simp: env_ok_def)
  ultimately obtain r dp' w' where
    "site_step (e_crypto e) (e_smol e) (e_iter e) (e_b64_decode e) (e_b64_encode e) (e_ser_json e) x dp w = Some (Returns (r, dp', w'))"
    "plane_ok dp' w'" "later w w'" "pm_mtu (dp_pump dp') = sr_mtu (e_cfg e)"
    using site_step_ok by metis
  then show ?thesis using assms(2) later_clock by (auto simp: session_ok_def)
qed

lemma on_message_ok:
  assumes "env_ok e" "session_ok e s w" "in_step s"
  shows "\<exists>x. on_message e msg s w = Returns x \<and> session_result_ok e x"
proof -
  define s1 where "s1 = (if config_version msg \<noteq> None then s\<lparr>ss_config_version := config_version msg\<rparr> else s)"
  have ok: "session_ok e s1 w" "in_step s1" using assms by (auto simp: s1_def in_step_def)
  have data: "\<exists>x. obind (on_data f s1) (\<lambda>s. Returns (Inr True, s, w)) = Returns x \<and> session_result_ok e x"
    if "\<And>dp. ss_data s1 = Some dp \<Longrightarrow> \<exists>dp'. f dp = Returns dp' \<and> session_ok e (s1\<lparr>ss_data := Some dp'\<rparr>) w" for f
    using that ok by (cases "ss_data s1") (fastforce simp: on_data_def session_result_ok_def in_step_def)+
  note step = plane_step [OF assms(1) ok(1)]
  have add: "\<exists>dp'. Returns (add_targets (e_smol e) sp dp) = Returns dp' \<and> session_ok e (s1\<lparr>ss_data := Some dp'\<rparr>) w"
    and remove: "\<exists>dp'. remove_targets sp dp = Returns dp' \<and> session_ok e (s1\<lparr>ss_data := Some dp'\<rparr>) w"
    and reconcile: "\<exists>dp'. reconcile_targets (e_smol e) sp dp = Returns dp' \<and> session_ok e (s1\<lparr>ss_data := Some dp'\<rparr>) w"
    if "ss_data s1 = Some dp" for dp sp
    using step [OF that, of "AddTargets sp"] step [OF that, of "RemoveTargets sp"] step [OF that, of "ReconcileTargets sp"]
    by (auto simp: site_fits_def elim!: obind_Returns)
  have sm: "session_result_ok e (go_on (feed_sm e ev s1 w))" if "ev \<noteq> WsConnected" for ev
    using feed_sm_ok [OF assms(1) ok] that go_on_ok by (metis prod_cases3)
  have 1: "\<exists>x. obind (on_data (\<lambda>dp. if b then Returns (add_targets (e_smol e) sp dp) else remove_targets sp dp) s1)
      (\<lambda>s. Returns (Inr True, s, w)) = Returns x \<and> session_result_ok e x" for b sp
    by (rule data) (use add remove in \<open>cases b; simp\<close>)
  have 2: "\<exists>x. (case to_event (e_de_nodes e) (e_de_wg e) msg of None \<Rightarrow> Returns (Inr True, s1, w)
      | Some ev \<Rightarrow> Returns (go_on (feed_sm e ev s1 w))) = Returns x \<and> session_result_ok e x"
  proof (cases "to_event (e_de_nodes e) (e_de_wg e) msg")
    case (Some ev)
    then have "ev \<noteq> WsConnected" using to_event_not_connected [of "e_de_nodes e" "e_de_wg e" msg] by auto
    then show ?thesis using sm [of ev] Some by simp
  qed (use ok in \<open>simp add: session_result_ok_def\<close>)
  show ?thesis
    unfolding on_message_def Let_def s1_def [symmetric]
    using 1 2 data [OF reconcile]
    by (cases "msg_typ msg = TCP_ADD \<or> msg_typ msg = TCP_REMOVE"; cases "msg_typ msg = SYNC")
       (simp_all only: if_True if_False simp_thms)
qed

lemma keep_online_ok:
  assumes "env_ok e" "session_ok e s w" "in_step s"
  shows "\<exists>r s' w'. keep_online e s w = Returns (r, s', w') \<and> session_ok e s' w' \<and> in_step s'"
proof (cases "ss_data s")
  case (Some dp)
  obtain r dp1 w1 where p: "send_ping (e_crypto e) dp w = Returns (r, dp1, w1)" "session_ok e (s\<lparr>ss_data := Some dp1\<rparr>) w1"
    using plane_step [OF assms(1,2) Some, of SendPing] by (auto simp: site_fits_def)
  obtain r2 dp2 w2 where h: "send_holepunch (e_crypto e) (e_b64_decode e) (e_b64_encode e) (e_ser_json e) dp1 w1 = (r2, dp2, w2)"
    by (metis prod_cases3)
  have "session_ok e (s\<lparr>ss_data := Some dp2\<rparr>) w2"
    using plane_step [OF assms(1) p(2), of dp1 SendHolepunch] h by (auto simp: site_fits_def)
  then show ?thesis using Some p h assms(3) by (cases r) (auto simp: keep_online_def in_step_def)
qed (use assms in \<open>simp add: keep_online_def\<close>)

lemma heartbeat_ok:
  assumes "session_ok e s w" "in_step s" "heartbeat e s w = (r, s', w')"
  shows "session_ok e s' w' \<and> in_step s'"
proof -
  have t: "unat (ss_ping_ticks s + 1) = unat (ss_ping_ticks s) + 1"
    using assms(1) by (simp add: session_ok_def unat_word_ariths)
  let ?s = "s\<lparr>ss_ping_ticks := 0\<rparr>"
  let ?m = "\<lparr>msg_typ = PING, msg_data = JObject [], config_version = ss_config_version s\<rparr>"
  obtain x sock w1 where x: "ws_send (e_ser_msg e) ?m (ss_socket s) w = (x, sock, w1)" by (metis prod_cases3)
  have "session_ok e ?s w" using assms(1) by (simp add: session_ok_def)
  from session_ok_later [OF this later_ws_send [OF x]] show ?thesis
    using assms x t by (auto simp: heartbeat_def Let_def in_step_def session_ok_def word_le_nat_alt split: if_splits)
qed

lemma on_tick_ok:
  assumes "env_ok e" "session_ok e s w" "in_step s"
  shows "\<exists>x. on_tick e s w = Returns x \<and> session_result_ok e x"
proof -
  obtain r s1 w1 where f: "feed_sm e (event.Tick 1000) s w = (r, s1, w1)" by (metis prod_cases3)
  then have 1: "session_ok e s1 w1 \<and> (r = Inr () \<longrightarrow> in_step s1)" using feed_sm_ok [OF assms _ f] by simp
  show ?thesis
  proof (cases r)
    case (Inr u)
    obtain r2 s2 w2 where 2: "keep_online e s1 w1 = Returns (r2, s2, w2)" "session_ok e s2 w2" "in_step s2"
      using keep_online_ok [OF assms(1), of s1 w1] 1 Inr by auto
    obtain r3 s3 w3 where 3: "heartbeat e s2 w2 = (r3, s3, w3)" by (metis prod_cases3)
    show ?thesis using f Inr 2 3 heartbeat_ok [OF 2(2,3) 3] go_on_ok [of e s3 w3 r3]
      by (cases r2) (auto simp: on_tick_def session_result_ok_def)
  qed (use f 1 in \<open>simp add: on_tick_def session_result_ok_def\<close>)
qed

lemma drive_ok:
  assumes "env_ok e" "session_ok e s w" "in_step s" "session_fits e (Ready ev)"
  shows "\<exists>x. drive e ev s w = Some (Returns x) \<and> session_result_ok e x"
proof (cases "ss_data s")
  case (Some dp)
  have "site_fits (sr_mtu (e_cfg e)) (StepIo ev)" using assms(4) by (simp add: session_fits_def site_fits_def split: udp_event.splits)
  from plane_step [OF assms(1,2) Some this] obtain r dp' w' where
    "step_io (e_crypto e) (e_smol e) (e_iter e) ev dp w = Some (Returns (r, dp', w'))" "session_ok e (s\<lparr>ss_data := Some dp'\<rparr>) w'"
    by auto
  then show ?thesis using Some assms(3) go_on_ok [of e "s\<lparr>ss_data := Some dp'\<rparr>" w' r] by (simp add: drive_def in_step_def)
qed (use assms in \<open>simp add: drive_def session_result_ok_def\<close>)

lemma session_step_ok:
  assumes "env_ok e" "session_ok e s w" "in_step s" "session_fits e x"
  shows "\<exists>y. session_step e x s w = Some (Returns y) \<and> session_result_ok e y"
proof (cases x)
  case Incoming
  obtain r sock w1 where r: "recv (e_de_msg e) (ss_socket s) w = (r, sock, w1)" by (metis prod_cases3)
  then have "later w w1" using later_recv_loop by (auto simp: recv_def)
  then have ok: "session_ok e (s\<lparr>ss_socket := sock\<rparr>) w1" "in_step (s\<lparr>ss_socket := sock\<rparr>)"
    using session_ok_later [OF assms(2)] assms(3) by (auto simp: in_step_def)
  then show ?thesis using Incoming r on_message_ok [OF assms(1) ok]
    by (cases r rule: sum.exhaust [case_names err got]) (auto simp: session_result_ok_def split: option.splits)
next
  case (Interrupted k)
  obtain sock w1 where r: "recv_dropped (e_de_msg e) k (ss_socket s) w = (sock, w1)" by fastforce
  then show ?thesis using Interrupted session_ok_later [OF assms(2) later_recv_dropped [OF r]] assms(3)
    by (simp add: session_result_ok_def in_step_def)
qed (use assms on_tick_ok drive_ok in auto)

interpretation site_loop: event_loop "session_step e" "session_loop e" "session_fits e"
    "\<lambda>s w. env_ok e \<and> session_ok e s w \<and> in_step s" "session_ok e" for e :: "('i, 'sk) site_env"
proof unfold_locales
  fix x xs s w r s' w'
  show "session_step e x s w = Some (Returns (r, s', w')) \<Longrightarrow> r \<noteq> Inr True \<Longrightarrow> session_loop e (x # xs) s w = Some (Returns (r, s', w'))"
    by (cases r) auto
  assume "env_ok e \<and> session_ok e s w \<and> in_step s" "session_fits e x"
  then show "\<exists>r s' w'. session_step e x s w = Some (Returns (r, s', w')) \<and> session_ok e s' w'
    \<and> (r = Inr True \<longrightarrow> env_ok e \<and> session_ok e s' w' \<and> in_step s')"
    using session_step_ok [of e s w x] by (auto simp: session_result_ok_def)
qed auto

lemma site_session_ok:
  assumes "env_ok e" "clock_from T w" "state sm \<noteq> Connected" "\<forall>x \<in> set evs. session_fits e x"
  shows "\<exists>r s' w'. site_session e dt dw sm evs w = Some (Returns (r, s', w')) \<and> (\<exists>T. clock_from T w')
    \<and> (\<forall>s. s' = Some s \<longrightarrow> session_result_ok e (r, s, w'))"
proof -
  let ?tok = "get_token dt (e_de_json e) (e_ser_json e) (sr_endpoint (e_cfg e)) ''newt''
    (JObject [(''newtId'', JString (sr_id (e_cfg e))), (''secret'', JString (sr_secret (e_cfg e)))])"
  show ?thesis
  proof (cases ?tok)
    case (Inr jwt)
    obtain x w1 where x: "connect dw (e_b64_encode e) (sr_endpoint (e_cfg e)) jwt ''newt'' w = (x, w1)" by fastforce
    have T: "clock_from T w1" using later_clock [OF assms(2) later_connect [OF x]] .
    show ?thesis
    proof (cases x)
      case (Inr sock)
      let ?s = "\<lparr>ss_jwt = jwt, ss_socket = sock, ss_data = None, ss_sm = sm, ss_config_version = None, ss_ping_ticks = 0\<rparr>"
      obtain r s1 w2 where f: "feed_sm e WsConnected ?s w1 = (r, s1, w2)" by (metis prod_cases3)
      have "session_ok e ?s w1" "in_step ?s" using T assms(3) by (auto simp: session_ok_def in_step_def)
      from feed_sm_ok [OF assms(1) this _ f] assms(3) have 1: "session_ok e s1 w2 \<and> (r = Inr () \<longrightarrow> in_step s1)" by simp
      have "\<exists>y. (case (r, s1, w2) of (Inl err, s, w) \<Rightarrow> Some (Returns (Inl err, s, w)) | (Inr _, s, w) \<Rightarrow> session_loop e evs s w)
        = Some (Returns y) \<and> session_result_ok e y"
        using 1 assms(1) site_loop.loop_keeps [of e s1 w2, OF _ assms(4)] by (cases r) (auto simp: session_result_ok_def)
      then show ?thesis using \<open>?tok = Inr jwt\<close> x Inr f by (auto simp: site_session_def Let_def session_result_ok_def session_ok_def)
    qed (use \<open>?tok = Inr jwt\<close> x T in \<open>auto simp: site_session_def\<close>)
  qed (use assms(2) in \<open>auto simp: site_session_def\<close>)
qed

lemma site_sm_new_state [simp]: "state (site_sm_new k) = Disconnected"
  by (simp add: site_sm_new_def sm_new_def)

lemma site_sessions_ok:
  assumes "env_ok e"
  shows "clock_from T w \<Longrightarrow> \<forall>(dt, dw, evs) \<in> set ss. \<forall>x \<in> set evs. session_fits e x \<Longrightarrow> \<exists>w'. site_sessions e ss w = Some (Returns w')"
proof (induction ss arbitrary: T w)
  case (Cons p ss)
  obtain dt dw evs where p: "p = (dt, dw, evs)" by (cases p)
  obtain r s' w' T' where "site_session e dt dw (site_sm_new (e_keys e)) evs w = Some (Returns (r, s', w'))" "clock_from T' w'"
    using site_session_ok [OF assms Cons.prems(1), of "site_sm_new (e_keys e)" evs dt dw] Cons.prems(2) p by auto
  then show ?case using Cons.IH [of T' w'] Cons.prems(2) p by simp
qed simp

section \<open>Properties\<close>

text \<open>
  C3: A site's process never panics and always comes back to its loop: however many sessions the
  connections it makes give, whatever bytes the server sends on each, and however messages, ticks
  and UDP input (datagrams that fit the receive buffer of the tunnel) interleave, every session ends or
  goes on, and the next one starts.
\<close>

theorem site_process_never_panics:
  assumes "env_ok e" "clock_from T w" "\<forall>(dt, dw, evs) \<in> set ss. \<forall>x \<in> set evs. session_fits e x"
  shows "\<exists>w'. tunnel_run e ss w = Some (Returns w')"
proof -
  obtain k w1 where g: "generate_keys (e_crypto e) (e_b64_encode e) w = (k, w1)" by fastforce
  then have "clock_from T w1"
    using later_clock [OF assms(2) later_fill, of 32] by (auto simp: generate_keys_def Let_def case_prod_beta)
  moreover have "env_ok (e\<lparr>e_keys := k\<rparr>)" "session_fits (e\<lparr>e_keys := k\<rparr>) = session_fits e"
    using assms(1) by (simp_all add: env_ok_def session_fits_def fun_eq_iff split: session_event.splits udp_event.splits)
  ultimately show ?thesis using site_sessions_ok [of "e\<lparr>e_keys := k\<rparr>" T w1 ss] assms(3) g by (simp add: tunnel_run_def)
qed

text \<open>
  C15: While a session goes on, the site has a tunnel exactly when its state machine says it is connected,
  the tunnel's invariant holds and less than ten ticks have passed since the last heartbeat; a tunnel that cannot be brought up ends the session.
\<close>

theorem session_tunnel_in_step:
  assumes "env_ok e" "clock_from T w" "\<forall>x \<in> set evs. session_fits e x"
    and "site_session e dt dw (site_sm_new keys) evs w = Some (Returns (Inr True, Some s, w'))"
  shows "(ss_data s \<noteq> None \<longleftrightarrow> state (ss_sm s) = Connected) \<and> unat (ss_ping_ticks s) < 10
    \<and> (\<forall>dp. ss_data s = Some dp \<longrightarrow> plane_ok dp w')"
  using site_session_ok [OF assms(1,2) _ assms(3), of "site_sm_new keys" dt dw] assms(4)
  by (auto simp: session_result_ok_def in_step_def session_ok_def)

text \<open>A server that gives a token, accepts the upgrade and sends the tunnel's configuration.\<close>

definition demo_connect :: ws_message where
  "demo_connect = \<lparr>msg_typ = WG_CONNECT, msg_data = JNull, config_version = Some 4\<rparr>"

definition demo_env :: "(unit, demo_sock) site_env" where
  "demo_env = \<lparr>e_crypto = demo_crypto, e_smol = demo_smol, e_iter = sorted_list_of_set, e_os = demo_os,
     e_de_json = (\<lambda>_. Inr (JObject [(''data'', JObject [(''token'', JString ''t'')])])), e_de_msg = (\<lambda>_. Inr demo_connect),
     e_b64_decode = (\<lambda>_. Inr (replicate 32 5)), e_b64_encode = (\<lambda>_. ''k''), e_ser_json = (\<lambda>_. ''j''), e_ser_msg = (\<lambda>_. Inr ''m''),
     e_de_nodes = (\<lambda>_. None), e_de_wg = (\<lambda>_. Some (demo_wg [])), e_cfg = demo_site, e_keys = demo_keys\<rparr>"

lemma demo_env_ok: "env_ok demo_env"
  by (simp add: env_ok_def demo_env_def demo_crypto_ok demo_smol_ok demo_iter)

lemma demo_token: "get_token (demo_reach []) (e_de_json demo_env) ser ''https://a'' kind body = Inr ''t''"
  by (simp add: get_token_def demo_token_data demo_env_def)

lemma demo_session_up:
  "\<exists>s w'. site_session demo_env (demo_reach []) (demo_reach (demo_head @ server_frame True 0x1 [7])) (site_sm_new demo_keys) [Incoming] w
     = Some (Returns (Inr True, Some s, w')) \<and> ss_data s \<noteq> None"
proof -
  let ?b = "server_frame True 0x1 [7]"
  have env: "e_cfg demo_env = demo_site" "sr_endpoint demo_site = ''https://a''" by (simp_all add: demo_env_def demo_site_def)
  obtain out w1 where c: "connect (demo_reach (demo_head @ ?b)) (e_b64_encode demo_env) ''https://a'' ''t'' ''newt'' w
      = (Inr (demo_stream\<lparr>st_in := ?b, st_out := out\<rparr>), w1)"
    using demo_upgrade by blast
  obtain out' w2 where f: "write_frame 1 (str_bytes ''m'') (demo_stream\<lparr>st_in := ?b, st_out := out\<rparr>) w1
      = (Inr (), demo_stream\<lparr>st_in := ?b, st_out := out'\<rparr>, w2)"
    using demo_write by blast
  obtain dp w3 where b: "demo_bring_up [] ''t'' w2 = (Inr dp, w3)" using demo_bring_up_returns by blast
  let ?s = "\<lparr>ss_jwt = ''t'', ss_socket = demo_stream\<lparr>st_in := ?b, st_out := out\<rparr>, ss_data = None,
    ss_sm = site_sm_new demo_keys, ss_config_version = None, ss_ping_ticks = 0\<rparr> :: (unit, demo_sock) session_state"
  obtain sm1 where m: "feed_sm demo_env WsConnected ?s w1
      = (Inr (), ?s\<lparr>ss_socket := demo_stream\<lparr>st_in := ?b, st_out := out'\<rparr>, ss_sm := sm1\<rparr>, w2)"
    "state sm1 = RequestingExitNodes"
    by (auto simp: feed_sm_def ws_send_def demo_env_def f Let_def)
  have "\<exists>s. on_message demo_env demo_connect (?s\<lparr>ss_socket := demo_stream\<lparr>st_in := [], st_out := out'\<rparr>, ss_sm := sm1\<rparr>) w2
      = Returns (Inr True, s, w3) \<and> ss_data s \<noteq> None"
    using b m(2) by (simp add: on_message_def demo_connect_def topics to_event_def demo_env_def feed_sm_def demo_bring_up_def go_on_def)
  then show ?thesis
    using c m(1) demo_recv [of demo_connect out' w2] demo_token [of "e_ser_json demo_env"]
    by (auto simp: site_session_def env demo_env_def Let_def)
qed

theorem site_process_never_panics_witness:
  "\<exists>w'. tunnel_run demo_env
     [(demo_reach [], demo_reach (demo_head @ server_frame True 0x1 [7]), [Incoming, Second, Ready (Datagram [1, 2, 3]), Interrupted 1, Second, Incoming]),
      (demo_reach [], demo_reach [], [Second])] demo_world = Some (Returns w')"
  using site_process_never_panics [OF demo_env_ok clock_demo]
  by (simp add: session_fits_def)

theorem session_tunnel_in_step_witness:
  "\<exists>s w'. site_session demo_env (demo_reach []) (demo_reach (demo_head @ server_frame True 0x1 [7])) (site_sm_new demo_keys) [Incoming] demo_world
     = Some (Returns (Inr True, Some s, w')) \<and> state (ss_sm s) = Connected"
proof -
  obtain s w' where s: "site_session demo_env (demo_reach []) (demo_reach (demo_head @ server_frame True 0x1 [7])) (site_sm_new demo_keys)
      [Incoming] demo_world = Some (Returns (Inr True, Some s, w'))" "ss_data s \<noteq> None"
    using demo_session_up by blast
  have "\<forall>x \<in> set [Incoming]. session_fits demo_env x" by (simp add: session_fits_def)
  from session_tunnel_in_step [OF demo_env_ok clock_demo this s(1)] s show ?thesis by blast
qed

end
