(* ===== verification/Userspace.thy ===== *)
theory Userspace
  imports Site_Safety
begin

text \<open>
  The userspace backend of the client, \<open>newt/src/olm/userspace.rs\<close>: local listeners whose connections
  are originated as TCP connections of a smoltcp stack through the tunnel. Its shuttle is a copy of
  the site's, so the model shares that one; \<open>b_target_done\<close> of a bridge stands for \<open>app_done\<close>. The time since the
  start and what the listeners accept are inputs of \<open>drive\<close>.
\<close>

section \<open>State\<close>

definition US_TCP_RX :: nat where "US_TCP_RX = 8192"
definition US_TCP_TX :: nat where "US_TCP_TX = 8192"

record forward_listener =
  fl_port :: u16
  fl_dest :: ip_addr
  fl_dest_port :: u16

record ('i, 'sk) userspace_backend =
  us_stack :: "('i, 'sk) stack"
  us_forwards :: "forward_listener list"
  us_conns :: "nat \<rightharpoonup> bridge"
  us_next_port :: u16

section \<open>Operations\<close>

text \<open>The listeners of the forwards; \<open>bind\<close> is what binding a local port gives.\<close>

fun bind_forwards :: "(u16 \<Rightarrow> io_error + unit) \<Rightarrow> forward list \<Rightarrow> io_error + forward_listener list" where
  "bind_forwards bind [] = Inr []"
| "bind_forwards bind (f # fs) =
     (case parse_ip_addr (fw_dest_host f) of
        None \<Rightarrow> Inl (Other (''forward dest must be an IP address: '' @ fw_dest_host f))
      | Some dest \<Rightarrow>
          (case bind (fw_listen_port f) of
             Inl e \<Rightarrow> Inl e
           | Inr _ \<Rightarrow>
               (case bind_forwards bind fs of
                  Inl e \<Rightarrow> Inl e
                | Inr fl \<Rightarrow> Inr (\<lparr>fl_port = fw_listen_port f, fl_dest = dest, fl_dest_port = fw_dest_port f\<rparr> # fl))))"

definition userspace_new ::
  "('i, 'sk) smol \<Rightarrow> (u16 \<Rightarrow> io_error + unit) \<Rightarrow> ip_addr \<Rightarrow> nat \<Rightarrow> forward list \<Rightarrow> io_error + ('i, 'sk) userspace_backend" where
  "userspace_new m bind tunnel_ip mtu forwards =
     (let st = add_default_routes m (V4 1) (V6 1) (stack_new m tunnel_ip mtu)
      in case bind_forwards bind forwards of
           Inl e \<Rightarrow> Inl e
         | Inr fl \<Rightarrow> Inr \<lparr>us_stack = st, us_forwards = fl, us_conns = Map.empty, us_next_port = 20000\<rparr>)"

definition us_deliver_inbound :: "bytes \<Rightarrow> ('i, 'sk) userspace_backend \<Rightarrow> ('i, 'sk) userspace_backend" where
  "us_deliver_inbound pkt us =
     us\<lparr>us_stack := (us_stack us)\<lparr>sk_device := (sk_device (us_stack us))\<lparr>dv_rx := dv_rx (sk_device (us_stack us)) @ [pkt]\<rparr>\<rparr>\<rparr>"

definition alloc_port :: "('i, 'sk) userspace_backend \<Rightarrow> u16 \<times> ('i, 'sk) userspace_backend" where
  "alloc_port us =
     (let p = us_next_port us
      in (p, us\<lparr>us_next_port := (if us_next_port us \<ge> 60000 then 20000 else us_next_port us + 1)\<rparr>))"

definition open_outgoing ::
  "('i, 'sk) smol \<Rightarrow> ip_addr \<Rightarrow> u16 \<Rightarrow> ('i, 'sk) userspace_backend \<Rightarrow> ('i, 'sk) userspace_backend outcome" where
  "open_outgoing m dest dest_port us =
     (let (local_port, us) = alloc_port us;
          st = us_stack us;
          handle = ss_add m (sk_sockets st);
          st = st\<lparr>sk_sockets := (sk_sockets st)(handle \<mapsto> sk_new m US_TCP_RX US_TCP_TX)\<rparr>
      in obind (stack_connect m handle dest dest_port local_port st) (\<lambda>(ok, st).
           if \<not> ok then obind (sockets_remove handle st) (\<lambda>st. Returns (us\<lparr>us_stack := st\<rparr>))
           else Returns (us\<lparr>us_stack := st, us_conns := (us_conns us)(handle \<mapsto> bridge_new conn_new)\<rparr>)))"

text \<open>What \<open>next_accept\<close> waits for: a listener, by its position, accepts, accepting fails, or 20 milliseconds pass.\<close>

datatype accept_event = Accepted nat | AcceptError io_error | NoneAccepted

definition next_accept :: "accept_event \<Rightarrow> ('i, 'sk) userspace_backend \<Rightarrow> (io_error + (ip_addr \<times> u16) option) outcome" where
  "next_accept ev us =
     (if us_forwards us = [] then Returns (Inr None)
      else case ev of
        Accepted idx \<Rightarrow>
          (if idx < length (us_forwards us)
           then Returns (Inr (Some (fl_dest (us_forwards us ! idx), fl_dest_port (us_forwards us ! idx)))) else Panics)
      | AcceptError e \<Rightarrow> Returns (Inl e)
      | NoneAccepted \<Rightarrow> Returns (Inr None))"

definition us_shuttle ::
  "('i, 'sk) smol \<Rightarrow> (nat set \<Rightarrow> nat list) \<Rightarrow> ('i, 'sk) userspace_backend \<Rightarrow> ('i, 'sk) userspace_backend outcome" where
  "us_shuttle m iter us =
     obind (shuttle_handles m (iter (dom (us_conns us))) (us_conns us, sk_sockets (us_stack us))) (\<lambda>(conns, S).
       Returns (us\<lparr>us_conns := conns, us_stack := (us_stack us)\<lparr>sk_sockets := S\<rparr>\<rparr>))"

text \<open>\<open>drive\<close>, with the milliseconds since the start.\<close>

definition us_drive ::
  "('i, 'sk) smol \<Rightarrow> (nat set \<Rightarrow> nat list) \<Rightarrow> accept_event \<Rightarrow> nat \<Rightarrow> ('i, 'sk) userspace_backend \<Rightarrow>
     ((io_error + bytes list) \<times> ('i, 'sk) userspace_backend) outcome" where
  "us_drive m iter ev now us =
     obind (next_accept ev us) (\<lambda>a.
       case a of
         Inl e \<Rightarrow> Returns (Inl e, us)
       | Inr acc \<Rightarrow>
           obind (case acc of None \<Rightarrow> Returns us | Some (dest, port) \<Rightarrow> open_outgoing m dest port us) (\<lambda>us.
             let (out, st) = stack_poll m now (us_stack us)
             in obind (us_shuttle m iter (us\<lparr>us_stack := st\<rparr>)) (\<lambda>us. Returns (Inr out, us))))"

section \<open>Lemmas\<close>

definition userspace_ok :: "nat \<Rightarrow> ('i, 'sk) userspace_backend \<Rightarrow> bool" where
  "userspace_ok mtu us \<longleftrightarrow>
     handles_ok [] (us_conns us) (sk_sockets (us_stack us)) \<and> dv_mtu (sk_device (us_stack us)) = mtu \<and>
     dv_tx (sk_device (us_stack us)) = [] \<and> 20000 \<le> us_next_port us \<and> us_next_port us \<le> 60000"

definition accept_fits :: "accept_event \<Rightarrow> ('i, 'sk) userspace_backend \<Rightarrow> bool" where
  "accept_fits ev us = (case ev of Accepted i \<Rightarrow> i < length (us_forwards us) | _ \<Rightarrow> True)"

lemma userspace_new_ok: "userspace_new m bind ip mtu fs = Inr us \<Longrightarrow> userspace_ok mtu us"
  by (auto simp: userspace_new_def userspace_ok_def stack_new_def add_default_routes_def device_new_def handles_ok_def Let_def
      split: sum.splits)

lemma us_deliver_ok: "userspace_ok mtu us \<Longrightarrow> userspace_ok mtu (us_deliver_inbound p us)"
  by (simp add: userspace_ok_def us_deliver_inbound_def)

lemma alloc_port_ok:
  assumes "userspace_ok mtu us" "alloc_port us = (p, us')"
  shows "userspace_ok mtu us' \<and> us_stack us' = us_stack us \<and> us_conns us' = us_conns us \<and> us_forwards us' = us_forwards us"
proof -
  have "20000 \<le> q + 1 \<and> q + 1 \<le> 60000" if "20000 \<le> q" "\<not> 60000 \<le> q" for q :: u16
    using that by (simp add: word_le_nat_alt unat_word_ariths)
  then show ?thesis using assms by (auto simp: alloc_port_def userspace_ok_def Let_def)
qed

lemma open_outgoing_ok:
  assumes "smol_ok m" "userspace_ok mtu us"
  shows "\<exists>us'. open_outgoing m dest port us = Returns us' \<and> userspace_ok mtu us' \<and> us_forwards us' = us_forwards us"
proof -
  obtain p us1 where a: "alloc_port us = (p, us1)" by fastforce
  have ok: "userspace_ok mtu us1" "us_forwards us1 = us_forwards us" using alloc_port_ok [OF assms(2) a] by simp_all
  let ?S = "sk_sockets (us_stack us1)" and ?h = "ss_add m (sk_sockets (us_stack us1))"
  have d: "finite (dom ?S)" "dom (us_conns us1) \<subseteq> dom ?S" using ok unfolding userspace_ok_def handles_ok_def by blast+
  then have fresh: "?h \<notin> dom ?S" by (intro smol_ok_add [OF assms(1)])
  then have undo: "?S(?h := None) = ?S" by (auto simp: fun_eq_iff)
  have new: "handles_ok [] ((us_conns us1)(?h \<mapsto> b)) (?S(?h \<mapsto> s))" for b s
    using d unfolding handles_ok_def dom_fun_upd by auto
  show ?thesis
  proof (cases "sk_connect m (sk_iface (us_stack us1)) dest port p (sk_new m US_TCP_RX US_TCP_TX)")
    case None
    then show ?thesis using a ok undo by (simp add: open_outgoing_def stack_connect_def sockets_remove_def userspace_ok_def Let_def)
  next
    case (Some s)
    then show ?thesis using a ok new by (simp add: open_outgoing_def stack_connect_def userspace_ok_def Let_def)
  qed
qed

lemma us_shuttle_ok:
  assumes "iter_ok iter" "userspace_ok mtu us"
  shows "\<exists>us'. us_shuttle m iter us = Returns us' \<and> userspace_ok mtu us' \<and> us_forwards us' = us_forwards us"
proof -
  have h: "handles_ok [] (us_conns us) (sk_sockets (us_stack us))" using assms(2) by (simp add: userspace_ok_def)
  then have "finite (dom (us_conns us))" by (auto simp: handles_ok_def intro: finite_subset)
  then have "set (iter (dom (us_conns us))) \<subseteq> dom (us_conns us)" "distinct (iter (dom (us_conns us)))"
    using assms(1) by (auto simp: iter_ok_def)
  from shuttle_handles_ok [OF h this, of m] show ?thesis using assms(2) by (auto simp: us_shuttle_def userspace_ok_def)
qed

lemma us_drive_ok:
  assumes "smol_ok m" "iter_ok iter" "userspace_ok mtu us" "accept_fits ev us"
  shows "\<exists>r us'. us_drive m iter ev now us = Returns (r, us') \<and> userspace_ok mtu us' \<and> us_forwards us' = us_forwards us
    \<and> (\<forall>out p. r = Inr out \<longrightarrow> p \<in> set out \<longrightarrow> length p \<le> mtu)"
proof -
  have polled: "\<exists>r us'. (let (out, st) = stack_poll m now (us_stack u) in obind (us_shuttle m iter (u\<lparr>us_stack := st\<rparr>)) (\<lambda>us. Returns (Inr out, us)))
      = Returns (r, us') \<and> userspace_ok mtu us' \<and> us_forwards us' = us_forwards u \<and> (\<forall>out p. r = Inr out \<longrightarrow> p \<in> set out \<longrightarrow> length p \<le> mtu)"
    if u: "userspace_ok mtu u" for u
  proof -
    obtain i d S where p: "if_poll m now (sk_iface (us_stack u)) (sk_device (us_stack u)) (sk_sockets (us_stack u)) = (i, d, S)"
      by (metis prod_cases3)
    let ?u = "u\<lparr>us_stack := \<lparr>sk_device = d\<lparr>dv_tx := []\<rparr>, sk_iface = i, sk_sockets = S\<rparr>\<rparr>"
    have law: "dom S = dom (sk_sockets (us_stack u))" "dv_mtu d = mtu" "\<forall>x \<in> set (dv_tx d). length x \<le> mtu"
      using smol_ok_poll [OF assms(1) p] u by (auto simp: userspace_ok_def)
    then have "userspace_ok mtu ?u" using u by (simp add: userspace_ok_def handles_ok_def)
    from us_shuttle_ok [OF assms(2) this, of m] law(3) show ?thesis by (auto simp: stack_poll_def p)
  qed
  show ?thesis
  proof (cases "us_forwards us = []")
    case True
    then show ?thesis using polled [OF assms(3)] by (simp add: us_drive_def next_accept_def)
  next
    case False
    then show ?thesis
    proof (cases ev)
      case (Accepted idx)
      let ?f = "us_forwards us ! idx"
      obtain u where u: "open_outgoing m (fl_dest ?f) (fl_dest_port ?f) us = Returns u" "userspace_ok mtu u" "us_forwards u = us_forwards us"
        using open_outgoing_ok [OF assms(1,3)] by blast
      then show ?thesis using polled [OF u(2)] False Accepted assms(4) by (simp add: us_drive_def next_accept_def accept_fits_def)
    qed (use polled [OF assms(3)] assms(3) in \<open>simp_all add: us_drive_def next_accept_def\<close>)
  qed
qed

end
