(* ===== verification/Netlink.thy ===== *)
theory Netlink
  imports Olm_Router Ws_Frames
begin

text \<open>
  The rtnetlink client \<open>newt/src/olm/netlink.rs\<close>, the name handling of \<open>newt/src/olm/tun.rs\<close> and the
  kernel backend \<open>newt/src/olm/kernel.rs\<close>. The kernel is a parameter: what it answers to a
  message, given those before. Integers go out in the byte order of the machine, \<open>le\<close> for little endian.
  The property reads the messages back the way the kernel's interface describes them.
\<close>

section \<open>Messages\<close>

definition RTM_NEWLINK :: u16 where "RTM_NEWLINK = 16"
definition RTM_NEWADDR :: u16 where "RTM_NEWADDR = 20"
definition RTM_NEWROUTE :: u16 where "RTM_NEWROUTE = 24"
definition NLM_F_REQUEST :: u16 where "NLM_F_REQUEST = 0x001"
definition NLM_F_ACK :: u16 where "NLM_F_ACK = 0x004"
definition NLM_F_REPLACE :: u16 where "NLM_F_REPLACE = 0x100"
definition NLM_F_CREATE :: u16 where "NLM_F_CREATE = 0x400"
definition IFLA_MTU :: u16 where "IFLA_MTU = 4"
definition IFA_ADDRESS :: u16 where "IFA_ADDRESS = 1"
definition IFA_LOCAL :: u16 where "IFA_LOCAL = 2"
definition RTA_DST :: u16 where "RTA_DST = 1"
definition RTA_OIF :: u16 where "RTA_OIF = 4"
definition RT_TABLE_MAIN :: u8 where "RT_TABLE_MAIN = 254"
definition RT_SCOPE_UNIVERSE :: u8 where "RT_SCOPE_UNIVERSE = 0"
definition RT_SCOPE_LINK :: u8 where "RT_SCOPE_LINK = 253"
definition RTPROT_BOOT :: u8 where "RTPROT_BOOT = 3"
definition RTN_UNICAST :: u8 where "RTN_UNICAST = 1"
definition IFF_UP :: u32 where "IFF_UP = 1"
definition AF_UNSPEC :: u8 where "AF_UNSPEC = 0"
definition AF_INET :: u8 where "AF_INET = 2"
definition AF_INET6 :: u8 where "AF_INET6 = 10"

text \<open>\<open>to_ne_bytes\<close> and \<open>from_ne_bytes\<close>\<close>

definition ne_bytes :: "bool \<Rightarrow> nat \<Rightarrow> 'a::len word \<Rightarrow> bytes" where
  "ne_bytes le n w = (if le then le_bytes n w else be_bytes n w)"

definition of_ne_bytes :: "bool \<Rightarrow> bytes \<Rightarrow> 'a::len word" where
  "of_ne_bytes le b = (if le then of_le_bytes b else of_be_bytes b)"

fun fam_bytes :: "ip_addr \<Rightarrow> u8 \<times> bytes" where
  "fam_bytes (V4 a) = (AF_INET, be_bytes 4 a)"
| "fam_bytes (V6 a) = (AF_INET6, be_bytes 16 a)"

definition align4 :: "nat \<Rightarrow> nat" where
  "align4 n = (n + 3) - (n + 3) mod 4"

text \<open>The padding loop of \<open>push_attr\<close>.\<close>

function pad4 :: "bytes \<Rightarrow> bytes" where
  "pad4 buf = (if length buf mod 4 \<noteq> 0 then pad4 (buf @ [0]) else buf)"
  by pat_completeness auto

termination
  by (relation "measure (\<lambda>buf. (4 - length buf mod 4) mod 4)") (auto simp: mod_Suc)

declare pad4.simps [simp del]

definition push_attr :: "bool \<Rightarrow> bytes \<Rightarrow> u16 \<Rightarrow> bytes \<Rightarrow> bytes" where
  "push_attr le buf attr_type data =
     (let len = 4 + length data
      in pad4 (buf @ ne_bytes le 2 (of_nat len :: u16) @ ne_bytes le 2 attr_type @ data))"

section \<open>The socket\<close>

text \<open>
  \<open>nl_kernel\<close> is what \<open>sendto\<close> and \<open>recv\<close> give for a message after those before: an error of
  sending, or else what is received; \<open>nl_sent\<close> is what was handed to \<open>sendto\<close>.
\<close>

record netlink =
  nl_seq :: u32
  nl_sent :: "bytes list"
  nl_kernel :: "bytes list \<Rightarrow> bytes \<Rightarrow> io_error + (io_error + bytes)"

definition NLMSG_ERROR :: u16 where "NLMSG_ERROR = 2"

definition read_ack :: "bool \<Rightarrow> io_error + bytes \<Rightarrow> io_error + unit" where
  "read_ack le answer =
     (case answer of
        Inl e \<Rightarrow> Inl e
      | Inr received \<Rightarrow>
          let buf = take 4096 received in
          if length buf < 20 then Inl (Other ''short netlink ack'')
          else if of_ne_bytes le (slice 4 6 buf) = NLMSG_ERROR then
            let err = (of_ne_bytes le (slice 16 20 buf) :: u32) in
            if err = 0 then Inr () else Inl OsError
          else Inr ())"

definition request :: "bool \<Rightarrow> u16 \<Rightarrow> u16 \<Rightarrow> bytes \<Rightarrow> netlink \<Rightarrow> (io_error + unit) \<times> netlink" where
  "request le msg_type flags payload nl =
     (let seq = nl_seq nl;
          nl = nl\<lparr>nl_seq := nl_seq nl + 1\<rparr>;
          total = 16 + length payload;
          msg = ne_bytes le 4 (of_nat total :: u32) @ ne_bytes le 2 msg_type @ ne_bytes le 2 flags
            @ ne_bytes le 4 seq @ ne_bytes le 4 (0 :: u32) @ payload
      in (case nl_kernel nl (nl_sent nl) msg of Inl e \<Rightarrow> Inl e | Inr answer \<Rightarrow> read_ack le answer,
          nl\<lparr>nl_sent := nl_sent nl @ [msg]\<rparr>))"

definition nl_set_mtu :: "bool \<Rightarrow> u32 \<Rightarrow> u32 \<Rightarrow> netlink \<Rightarrow> (io_error + unit) \<times> netlink" where
  "nl_set_mtu le ifindex mtu nl =
     (let payload = [AF_UNSPEC, 0] @ ne_bytes le 2 (0 :: u16) @ ne_bytes le 4 ifindex @ ne_bytes le 4 (0 :: u32) @ ne_bytes le 4 (0 :: u32);
          payload = push_attr le payload IFLA_MTU (ne_bytes le 4 mtu)
      in request le RTM_NEWLINK (NLM_F_REQUEST OR NLM_F_ACK) payload nl)"

definition link_up :: "bool \<Rightarrow> u32 \<Rightarrow> netlink \<Rightarrow> (io_error + unit) \<times> netlink" where
  "link_up le ifindex nl =
     (let payload = [AF_UNSPEC, 0] @ ne_bytes le 2 (0 :: u16) @ ne_bytes le 4 ifindex @ ne_bytes le 4 IFF_UP @ ne_bytes le 4 IFF_UP
      in request le RTM_NEWLINK (NLM_F_REQUEST OR NLM_F_ACK) payload nl)"

definition add_addr :: "bool \<Rightarrow> u32 \<Rightarrow> ip_addr \<Rightarrow> u8 \<Rightarrow> netlink \<Rightarrow> (io_error + unit) \<times> netlink" where
  "add_addr le ifindex ip prefix nl =
     (let (family, addr) = fam_bytes ip;
          payload = [family, prefix, 0, RT_SCOPE_UNIVERSE] @ ne_bytes le 4 ifindex;
          payload = push_attr le payload IFA_LOCAL addr;
          payload = push_attr le payload IFA_ADDRESS addr
      in request le RTM_NEWADDR (NLM_F_REQUEST OR NLM_F_ACK OR NLM_F_CREATE OR NLM_F_REPLACE) payload nl)"

definition add_route :: "bool \<Rightarrow> u32 \<Rightarrow> ip_addr \<Rightarrow> u8 \<Rightarrow> netlink \<Rightarrow> (io_error + unit) \<times> netlink" where
  "add_route le ifindex dst prefix nl =
     (let (family, addr) = fam_bytes dst;
          payload = [family, prefix, 0, 0, RT_TABLE_MAIN, RTPROT_BOOT, RT_SCOPE_LINK, RTN_UNICAST] @ ne_bytes le 4 (0 :: u32);
          payload = push_attr le payload RTA_DST addr;
          payload = push_attr le payload RTA_OIF (ne_bytes le 4 ifindex)
      in request le RTM_NEWROUTE (NLM_F_REQUEST OR NLM_F_ACK OR NLM_F_CREATE OR NLM_F_REPLACE) payload nl)"

section \<open>The kernel backend\<close>

text \<open>What opening the device and the socket needs of the operating system.\<close>

record kernel_os =
  ko_open :: "io_error + unit"
  ko_setiff :: "bytes \<Rightarrow> io_error + bytes"
  ko_nonblocking :: "io_error + unit"
  ko_async_fd :: "io_error + unit"
  ko_write :: "bytes list \<Rightarrow> bytes \<Rightarrow> io_error + unit"
  ko_nametoindex :: "string \<Rightarrow> u32"
  ko_socket :: "io_error + unit"
  ko_kernel :: "bytes list \<Rightarrow> bytes \<Rightarrow> io_error + (io_error + bytes)"

text \<open>The device: \<open>tn_write\<close> is what writing a packet gives after those written before.\<close>

record tun =
  tn_name :: string
  tn_written :: "bytes list"
  tn_write :: "bytes list \<Rightarrow> bytes \<Rightarrow> io_error + unit"

text \<open>A byte read as a \<open>char\<close>, in UTF-8.\<close>

definition byte_char :: "u8 \<Rightarrow> string" where
  "byte_char b =
     (if b < 0x80 then [char_of (unat b)]
      else [char_of (unat (0xC0 OR drop_bit 6 b)), char_of (unat (0x80 OR (b AND 0x3F)))])"

definition ifr_name :: "string \<Rightarrow> bytes" where
  "ifr_name name =
     (let bytes = str_bytes name; n = min (length bytes) 15
      in take n bytes @ replicate (16 - n) 0)"

definition tun_open :: "kernel_os \<Rightarrow> string \<Rightarrow> io_error + tun" where
  "tun_open ko name =
     (case ko_open ko of
        Inl e \<Rightarrow> Inl e
      | Inr _ \<Rightarrow>
          (case ko_setiff ko (ifr_name name) of
             Inl e \<Rightarrow> Inl e
           | Inr req \<Rightarrow>
               let real = concat (map byte_char (takeWhile (\<lambda>c. c \<noteq> 0) req)) in
               (case ko_nonblocking ko of
                  Inl e \<Rightarrow> Inl e
                | Inr _ \<Rightarrow>
                    (case ko_async_fd ko of
                       Inl e \<Rightarrow> Inl e
                     | Inr _ \<Rightarrow> Inr \<lparr>tn_name = real, tn_written = [], tn_write = ko_write ko\<rparr>))))"

definition write_packet :: "bytes \<Rightarrow> tun \<Rightarrow> (io_error + unit) \<times> tun" where
  "write_packet pkt t = (tn_write t (tn_written t) pkt, t\<lparr>tn_written := tn_written t @ [pkt]\<rparr>)"

definition netlink_open :: "kernel_os \<Rightarrow> io_error + netlink" where
  "netlink_open ko =
     (case ko_socket ko of Inl e \<Rightarrow> Inl e | Inr _ \<Rightarrow> Inr \<lparr>nl_seq = 1, nl_sent = [], nl_kernel = ko_kernel ko\<rparr>)"

definition if_index :: "kernel_os \<Rightarrow> string \<Rightarrow> io_error + u32" where
  "if_index ko name =
     (if CHR 0x00 \<in> set name then Inl (Other ''bad ifname'')
      else let idx = ko_nametoindex ko name in if idx = 0 then Inl OsError else Inr idx)"

record kernel_backend =
  kb_tun :: tun
  kb_nl :: netlink
  kb_ifindex :: u32
  kb_buf :: nat

definition host_prefix :: "ip_addr \<Rightarrow> u8" where
  "host_prefix ip = (if is_ipv4 ip then 32 else 128)"

definition kernel_new :: "bool \<Rightarrow> kernel_os \<Rightarrow> string \<Rightarrow> ip_addr \<Rightarrow> nat \<Rightarrow> io_error + kernel_backend" where
  "kernel_new le ko interface tunnel_ip mtu =
     (case tun_open ko interface of
        Inl e \<Rightarrow> Inl e
      | Inr t \<Rightarrow>
        (case if_index ko (tn_name t) of
           Inl e \<Rightarrow> Inl e
         | Inr ifindex \<Rightarrow>
           (case netlink_open ko of
              Inl e \<Rightarrow> Inl e
            | Inr nl \<Rightarrow>
              (case nl_set_mtu le ifindex (of_nat mtu) nl of
                 (Inl e, nl) \<Rightarrow> Inl e
               | (Inr _, nl) \<Rightarrow>
                 (case add_addr le ifindex tunnel_ip (host_prefix tunnel_ip) nl of
                    (Inl e, nl) \<Rightarrow> Inl e
                  | (Inr _, nl) \<Rightarrow>
                    (case link_up le ifindex nl of
                       (Inl e, nl) \<Rightarrow> Inl e
                     | (Inr _, nl) \<Rightarrow>
                       Inr \<lparr>kb_tun = t, kb_nl = nl, kb_ifindex = ifindex, kb_buf = max mtu 1500 + 64\<rparr>))))))"

definition kb_add_route :: "bool \<Rightarrow> cidr \<Rightarrow> kernel_backend \<Rightarrow> kernel_backend" where
  "kb_add_route le c kb =
     (let (n, prefix) = parts c in kb\<lparr>kb_nl := snd (add_route le (kb_ifindex kb) n prefix (kb_nl kb))\<rparr>)"

text \<open>A route that cannot be added is only warned about.\<close>

definition kb_add_routes :: "bool \<Rightarrow> cidr list \<Rightarrow> kernel_backend \<Rightarrow> (io_error + unit) \<times> kernel_backend" where
  "kb_add_routes le cidrs kb = (Inr (), fold (kb_add_route le) cidrs kb)"

text \<open>\<open>got\<close> is what reading the device gives.\<close>

definition kb_drive :: "io_error + bytes \<Rightarrow> kernel_backend \<Rightarrow> io_error + bytes list" where
  "kb_drive got kb =
     (case got of
        Inl e \<Rightarrow> Inl e
      | Inr pkt \<Rightarrow> let n = min (length pkt) (kb_buf kb) in if n = 0 then Inr [] else Inr [take n pkt])"

definition kb_deliver_inbound :: "bytes \<Rightarrow> kernel_backend \<Rightarrow> (io_error + unit) \<times> kernel_backend" where
  "kb_deliver_inbound pkt kb = (let (r, t) = write_packet pkt (kb_tun kb) in (r, kb\<lparr>kb_tun := t\<rparr>))"

section \<open>Reading messages\<close>

text \<open>
  A message as its receiver reads it: the header, whose length is that of the message, \<open>n\<close> bytes of
  a fixed part, then attributes, each at an offset that is a multiple of four.
\<close>

record nl_message =
  nm_type :: u16
  nm_flags :: u16
  nm_seq :: u32
  nm_fixed :: bytes
  nm_attrs :: "(u16 \<times> bytes) list"

function nl_attrs :: "bool \<Rightarrow> bytes \<Rightarrow> (u16 \<times> bytes) list option" where
  "nl_attrs le b =
     (if b = [] then Some []
      else let len = unat (of_ne_bytes le (slice 0 2 b) :: u16) in
        if len < 4 \<or> length b < len then None
        else map_option (Cons (of_ne_bytes le (slice 2 4 b), slice 4 len b)) (nl_attrs le (drop (align4 len) b)))"
  by pat_completeness auto

termination
  by (relation "measure (\<lambda>(_, b). length b)") (auto simp: align4_def)

declare nl_attrs.simps [simp del]

definition nl_read :: "bool \<Rightarrow> nat \<Rightarrow> bytes \<Rightarrow> nl_message option" where
  "nl_read le n msg =
     (if length msg < 16 + n \<or> unat (of_ne_bytes le (slice 0 4 msg) :: u32) \<noteq> length msg then None
      else map_option
        (\<lambda>attrs. \<lparr>nm_type = of_ne_bytes le (slice 4 6 msg), nm_flags = of_ne_bytes le (slice 6 8 msg),
           nm_seq = of_ne_bytes le (slice 8 12 msg), nm_fixed = slice 16 (16 + n) msg, nm_attrs = attrs\<rparr>)
        (nl_attrs le (drop (16 + n) msg)))"

lemma length_ne_bytes [simp]: "length (ne_bytes le n w) = n"
  by (simp add: ne_bytes_def)

lemma of_ne_bytes_ne_bytes [simp]:
  fixes w :: "'a::len word"
  shows "LENGTH('a) \<le> 8 * n \<Longrightarrow> of_ne_bytes le (ne_bytes le n w) = w"
  by (simp add: ne_bytes_def of_ne_bytes_def)

lemma pad4_eq: "pad4 buf = buf @ replicate ((4 - length buf mod 4) mod 4) 0"
proof (induction buf rule: pad4.induct)
  case (1 buf)
  show ?case
  proof (cases "length buf mod 4 = 0")
    case False
    then have "pad4 buf = (buf @ [0]) @ replicate ((4 - length (buf @ [0]) mod 4) mod 4) 0"
      using 1 by (subst pad4.simps) simp
    moreover have "(4 - length buf mod 4) mod 4 = Suc ((4 - length (buf @ [0]) mod 4) mod 4)"
      using False by (auto simp: mod_Suc)
    ultimately show ?thesis by simp
  qed (subst pad4.simps, simp)
qed

definition nl_attr :: "bool \<Rightarrow> u16 \<Rightarrow> bytes \<Rightarrow> bytes" where
  "nl_attr le t d =
     ne_bytes le 2 (of_nat (4 + length d) :: u16) @ ne_bytes le 2 t @ d @ replicate ((4 - length d mod 4) mod 4) 0"

lemma length_nl_attr: "length (nl_attr le t d) = align4 (4 + length d)" "4 dvd length (nl_attr le t d)"
proof -
  have "n + (4 - n mod 4) mod 4 = n + 3 - (n + 3) mod 4" for n :: nat
  proof -
    obtain q r where n: "n = 4 * q + r" "r < 4" by (metis mult_div_mod_eq mod_less_divisor zero_less_numeral)
    then have "r = 0 \<or> r = 1 \<or> r = 2 \<or> r = 3" by linarith
    then show ?thesis using n(1) by auto
  qed
  from this [of "4 + length d"] show l: "length (nl_attr le t d) = align4 (4 + length d)"
    by (simp add: nl_attr_def align4_def)
  show "4 dvd length (nl_attr le t d)" unfolding l align4_def by (simp add: dvd_minus_mod)
qed

lemma push_attr_eq: "4 dvd length buf \<Longrightarrow> push_attr le buf t d = buf @ nl_attr le t d"
  by (auto simp: push_attr_def pad4_eq nl_attr_def Let_def elim!: dvdE)

lemma nl_attrs_cons:
  assumes "4 + length d < 2 ^ 16"
  shows "nl_attrs le (nl_attr le t d @ rest) = map_option (Cons (t, d)) (nl_attrs le rest)"
proof -
  let ?b = "nl_attr le t d @ rest"
  have len: "unat (of_nat (4 + length d) :: u16) = 4 + length d"
    using assms by (simp add: unat_of_nat del: of_nat_add)
  have "slice 0 2 ?b = ne_bytes le 2 (of_nat (4 + length d) :: u16)" "slice 2 4 ?b = ne_bytes le 2 t"
    "slice 4 (4 + length d) ?b = d"
    by (simp_all add: nl_attr_def slice_def del: of_nat_add)
  moreover have "drop (align4 (4 + length d)) ?b = rest" using length_nl_attr(1) [of le t d] by simp
  moreover have l: "4 + length d \<le> length ?b" by (simp add: nl_attr_def del: of_nat_add)
  moreover from l have "?b \<noteq> []" by (cases ?b) simp_all
  ultimately show ?thesis by (subst nl_attrs.simps) (simp add: Let_def len del: of_nat_add append_is_Nil_conv drop_append length_append)
qed

lemma nl_attrs_nil [simp]: "nl_attrs le [] = Some []"
  by (subst nl_attrs.simps) simp

lemma request_sent:
  assumes "length fixed = n" "nl_attrs le rest = Some attrs" "16 + length (fixed @ rest) < 2 ^ 32"
  shows "\<exists>m. nl_sent (snd (request le t f (fixed @ rest) nl)) = nl_sent nl @ [m] \<and>
    nl_read le n m = Some \<lparr>nm_type = t, nm_flags = f, nm_seq = nl_seq nl, nm_fixed = fixed, nm_attrs = attrs\<rparr>"
proof -
  let ?total = "16 + length (fixed @ rest)"
  let ?m = "ne_bytes le 4 (of_nat ?total :: u32) @ ne_bytes le 2 t @ ne_bytes le 2 f @ ne_bytes le 4 (nl_seq nl)
    @ ne_bytes le 4 (0 :: u32) @ fixed @ rest"
  have "unat (of_nat ?total :: u32) = ?total" using assms(3) by (simp add: unat_of_nat del: of_nat_add length_append)
  moreover have "length ?m = ?total" by simp
  moreover have "slice 0 4 ?m = ne_bytes le 4 (of_nat ?total :: u32)" "slice 4 6 ?m = ne_bytes le 2 t" "slice 6 8 ?m = ne_bytes le 2 f"
    "slice 8 12 ?m = ne_bytes le 4 (nl_seq nl)" "slice 16 (16 + n) ?m = fixed" "drop (16 + n) ?m = rest"
    using assms(1) by (simp_all add: slice_def del: of_nat_add)
  ultimately have "nl_read le n ?m = Some \<lparr>nm_type = t, nm_flags = f, nm_seq = nl_seq nl, nm_fixed = fixed, nm_attrs = attrs\<rparr>"
    using assms(1,2) by (simp add: nl_read_def del: length_append of_nat_add) simp
  moreover have "nl_sent (snd (request le t f (fixed @ rest) nl)) = nl_sent nl @ [?m]" by (simp add: request_def Let_def)
  ultimately show ?thesis by blast
qed

lemma length_fam_bytes: "length (snd (fam_bytes ip)) \<le> 16" "snd (fam_bytes ip) = octets ip"
  by (cases ip; simp)+

lemma length_attr_small: "length d \<le> 16 \<Longrightarrow> length (nl_attr le t d) \<le> 24"
  by (simp add: length_nl_attr(1) align4_def)

lemma zero_words: "ne_bytes le 4 (0 :: u32) @ ne_bytes le 4 (0 :: u32) = replicate 8 0"
  by (simp add: ne_bytes_def le_bytes_def be_bytes_def upt_rec numeral_eq_Suc)

lemmas nl_constants =
  RTM_NEWLINK_def RTM_NEWADDR_def RTM_NEWROUTE_def NLM_F_REQUEST_def NLM_F_ACK_def NLM_F_CREATE_def NLM_F_REPLACE_def
  AF_UNSPEC_def RT_SCOPE_UNIVERSE_def RT_TABLE_MAIN_def RTPROT_BOOT_def RT_SCOPE_LINK_def RTN_UNICAST_def

lemma set_mtu_sent:
  "\<exists>m. nl_sent (snd (nl_set_mtu le i mtu nl)) = nl_sent nl @ [m] \<and> nl_read le 16 m = Some
     \<lparr>nm_type = 16, nm_flags = 5, nm_seq = nl_seq nl, nm_fixed = [0, 0] @ ne_bytes le 2 (0 :: u16) @ ne_bytes le 4 i @ replicate 8 0,
      nm_attrs = [(IFLA_MTU, ne_bytes le 4 mtu)]\<rparr>"
proof -
  let ?fixed = "[0, 0] @ ne_bytes le 2 (0 :: u16) @ ne_bytes le 4 i @ replicate 8 0"
  let ?rest = "nl_attr le IFLA_MTU (ne_bytes le 4 mtu)"
  have "nl_attrs le ?rest = Some [(IFLA_MTU, ne_bytes le 4 mtu)]"
    using nl_attrs_cons [of "ne_bytes le 4 mtu" le IFLA_MTU "[]"] by simp
  moreover have "nl_set_mtu le i mtu nl = request le 16 5 (?fixed @ ?rest) nl"
    by (simp add: nl_set_mtu_def Let_def push_attr_eq zero_words nl_constants)
  ultimately show ?thesis
    using request_sent [of ?fixed 16 le ?rest _ 16 5 nl] length_attr_small [of "ne_bytes le 4 mtu" le IFLA_MTU] by simp
qed

lemma link_up_sent:
  "\<exists>m. nl_sent (snd (link_up le i nl)) = nl_sent nl @ [m] \<and> nl_read le 16 m = Some
     \<lparr>nm_type = 16, nm_flags = 5, nm_seq = nl_seq nl,
      nm_fixed = [0, 0] @ ne_bytes le 2 (0 :: u16) @ ne_bytes le 4 i @ ne_bytes le 4 IFF_UP @ ne_bytes le 4 IFF_UP, nm_attrs = []\<rparr>"
  using request_sent [of "[0, 0] @ ne_bytes le 2 (0 :: u16) @ ne_bytes le 4 i @ ne_bytes le 4 IFF_UP @ ne_bytes le 4 IFF_UP" 16 le "[]" "[]" 16 5 nl]
  by (simp add: link_up_def Let_def nl_constants)

lemma add_addr_sent:
  "\<exists>m. nl_sent (snd (add_addr le i ip p nl)) = nl_sent nl @ [m] \<and> nl_read le 8 m = Some
     \<lparr>nm_type = 20, nm_flags = 0x505, nm_seq = nl_seq nl, nm_fixed = [fst (fam_bytes ip), p, 0, 0] @ ne_bytes le 4 i,
      nm_attrs = [(IFA_LOCAL, octets ip), (IFA_ADDRESS, octets ip)]\<rparr>"
proof -
  let ?fixed = "[fst (fam_bytes ip), p, 0, 0] @ ne_bytes le 4 i" and ?a = "octets ip"
  let ?rest = "nl_attr le IFA_LOCAL ?a @ nl_attr le IFA_ADDRESS ?a"
  have l: "length ?a \<le> 16" using length_fam_bytes [of ip] by simp
  then have "nl_attrs le ?rest = Some [(IFA_LOCAL, ?a), (IFA_ADDRESS, ?a)]"
    using nl_attrs_cons [of ?a le IFA_LOCAL "nl_attr le IFA_ADDRESS ?a"] nl_attrs_cons [of ?a le IFA_ADDRESS "[]"] by simp
  moreover have "add_addr le i ip p nl = request le 20 0x505 (?fixed @ ?rest) nl"
    using length_fam_bytes(2) [of ip] length_nl_attr(2) [of le IFA_LOCAL ?a]
    by (simp add: add_addr_def Let_def case_prod_beta push_attr_eq nl_constants)
  ultimately show ?thesis
    using request_sent [of ?fixed 8 le ?rest _ 20 1285 nl] length_attr_small [of ?a le IFA_LOCAL]
      length_attr_small [of ?a le IFA_ADDRESS] l by simp
qed

lemma add_route_sent:
  "\<exists>m. nl_sent (snd (add_route le i dst p nl)) = nl_sent nl @ [m] \<and> nl_read le 12 m = Some
     \<lparr>nm_type = 24, nm_flags = 0x505, nm_seq = nl_seq nl,
      nm_fixed = [fst (fam_bytes dst), p, 0, 0, 254, 3, 253, 1] @ ne_bytes le 4 (0 :: u32),
      nm_attrs = [(RTA_DST, octets dst), (RTA_OIF, ne_bytes le 4 i)]\<rparr>"
proof -
  let ?fixed = "[fst (fam_bytes dst), p, 0, 0, 254, 3, 253, 1] @ ne_bytes le 4 (0 :: u32)" and ?a = "octets dst" and ?i = "ne_bytes le 4 i"
  let ?rest = "nl_attr le RTA_DST ?a @ nl_attr le RTA_OIF ?i"
  have l: "length ?a \<le> 16" using length_fam_bytes [of dst] by simp
  then have "nl_attrs le ?rest = Some [(RTA_DST, ?a), (RTA_OIF, ?i)]"
    using nl_attrs_cons [of ?a le RTA_DST "nl_attr le RTA_OIF ?i"] nl_attrs_cons [of ?i le RTA_OIF "[]"] by simp
  moreover have "add_route le i dst p nl = request le 24 0x505 (?fixed @ ?rest) nl"
    using length_fam_bytes(2) [of dst] length_nl_attr(2) [of le RTA_DST ?a]
    by (simp add: add_route_def Let_def case_prod_beta push_attr_eq nl_constants)
  ultimately show ?thesis
    using request_sent [of ?fixed 12 le ?rest _ 24 1285 nl] length_attr_small [of ?a le RTA_DST]
      length_attr_small [of ?i le RTA_OIF] l by simp
qed

section \<open>Properties\<close>

text \<open>
  C22: On machines of either byte order, every request the client makes is one message that its receiver reads as meant: the length
  in the header is that of the message, the sequence number is the socket's, and the attributes, found
  at aligned offsets, are exactly the MTU, the address twice, or the destination and the interface of the route.
\<close>

theorem netlink_requests_read_back:
  "\<exists>m1 m2 m3 m4.
     nl_sent (snd (nl_set_mtu le i mtu nl)) = nl_sent nl @ [m1] \<and> nl_read le 16 m1 = Some
       \<lparr>nm_type = 16, nm_flags = 5, nm_seq = nl_seq nl, nm_fixed = [0, 0] @ ne_bytes le 2 (0 :: u16) @ ne_bytes le 4 i @ replicate 8 0,
        nm_attrs = [(IFLA_MTU, ne_bytes le 4 mtu)]\<rparr> \<and>
     nl_sent (snd (link_up le i nl)) = nl_sent nl @ [m2] \<and> nl_read le 16 m2 = Some
       \<lparr>nm_type = 16, nm_flags = 5, nm_seq = nl_seq nl,
        nm_fixed = [0, 0] @ ne_bytes le 2 (0 :: u16) @ ne_bytes le 4 i @ ne_bytes le 4 IFF_UP @ ne_bytes le 4 IFF_UP, nm_attrs = []\<rparr> \<and>
     nl_sent (snd (add_addr le i ip p nl)) = nl_sent nl @ [m3] \<and> nl_read le 8 m3 = Some
       \<lparr>nm_type = 20, nm_flags = 0x505, nm_seq = nl_seq nl, nm_fixed = [fst (fam_bytes ip), p, 0, 0] @ ne_bytes le 4 i,
        nm_attrs = [(IFA_LOCAL, octets ip), (IFA_ADDRESS, octets ip)]\<rparr> \<and>
     nl_sent (snd (add_route le i dst p nl)) = nl_sent nl @ [m4] \<and> nl_read le 12 m4 = Some
       \<lparr>nm_type = 24, nm_flags = 0x505, nm_seq = nl_seq nl,
        nm_fixed = [fst (fam_bytes dst), p, 0, 0, 254, 3, 253, 1] @ ne_bytes le 4 (0 :: u32),
        nm_attrs = [(RTA_DST, octets dst), (RTA_OIF, ne_bytes le 4 i)]\<rparr>"
  using set_mtu_sent [of le i mtu nl] link_up_sent [of le i nl] add_addr_sent [of le i ip p nl] add_route_sent [of le i dst p nl] by blast

end
