(* ===== verification/Olm_Control.thy ===== *)
theory Olm_Control
  imports Olm_Router_Safety Userspace Netlink Transport Config
begin

text \<open>
  The client role: \<open>newt/src/olm/mod.rs\<close> with its messages (\<open>olm/proto.rs\<close>), its hole punching
  (\<open>olm/holepunch.rs\<close>) and the choice of backend (\<open>olm/backend.rs\<close>), over the router, the two backends and the
  WebSocket. Serde at the payload types, name resolution, sockets and the kernel are parameters, collected in
  \<open>olm_env\<close>; an input of the loop says which branch of the select completes.
\<close>

section \<open>Messages\<close>

definition OLM_REGISTER :: string where "OLM_REGISTER = ''olm/wg/register''"
definition OLM_PING :: string where "OLM_PING = ''olm/ping''"
definition OLM_CONNECT :: string where "OLM_CONNECT = ''olm/wg/connect''"
definition OLM_ERROR :: string where "OLM_ERROR = ''olm/error''"
definition OLM_TERMINATE :: string where "OLM_TERMINATE = ''olm/terminate''"
definition PEER_ADD :: string where "PEER_ADD = ''olm/wg/peer/add''"
definition PEER_REMOVE :: string where "PEER_REMOVE = ''olm/wg/peer/remove''"
definition PEER_UPDATE :: string where "PEER_UPDATE = ''olm/wg/peer/update''"
definition PEER_RELAY :: string where "PEER_RELAY = ''olm/wg/peer/relay''"
definition PEER_UNRELAY :: string where "PEER_UNRELAY = ''olm/wg/peer/unrelay''"
definition PEER_DATA_ADD :: string where "PEER_DATA_ADD = ''olm/wg/peer/data/add''"
definition PEER_DATA_REMOVE :: string where "PEER_DATA_REMOVE = ''olm/wg/peer/data/remove''"
definition OLM_SYNC :: string where "OLM_SYNC = ''olm/sync''"

lemmas olm_topics =
  OLM_REGISTER_def OLM_PING_def OLM_CONNECT_def OLM_ERROR_def OLM_TERMINATE_def PEER_ADD_def PEER_REMOVE_def PEER_UPDATE_def
  PEER_RELAY_def PEER_UNRELAY_def PEER_DATA_ADD_def PEER_DATA_REMOVE_def OLM_SYNC_def

record site_config =
  sc_site_id :: int
  sc_name :: string
  sc_endpoint :: string
  sc_relay_endpoint :: string
  sc_public_key :: string
  sc_server_ip :: string
  sc_server_port :: u16
  sc_remote_subnets :: "string list"
  sc_allowed_ips :: "string list"

definition wg_endpoint :: "site_config \<Rightarrow> string" where
  "wg_endpoint s = (if sc_relay_endpoint s \<noteq> [] then sc_relay_endpoint s else sc_endpoint s)"

definition routed_cidrs :: "site_config \<Rightarrow> string list" where
  "routed_cidrs s = sc_remote_subnets s @ sc_allowed_ips s"

record olm_wg_data =
  ow_sites :: "site_config list"
  ow_tunnel_ip :: string
  ow_utility_subnet :: string

definition olm_wg_default :: olm_wg_data where
  "olm_wg_default = \<lparr>ow_sites = [], ow_tunnel_ip = [], ow_utility_subnet = []\<rparr>"

text \<open>The payloads that name a site with an endpoint, or with subnets.\<close>

record peer_endpoint =
  pe_site_id :: int
  pe_endpoint :: string

record peer_data =
  pd_site_id :: int
  pd_remote_subnets :: "string list"

section \<open>Hole punching\<close>

record hp_node =
  hn_addr :: sock_addr
  hn_server_pub :: string

record hole_punch =
  hp_olm_id :: string
  hp_token :: string
  hp_olm_pub :: string
  hp_nodes :: "hp_node list"

definition hole_punch_new :: "string \<Rightarrow> string \<Rightarrow> string \<Rightarrow> hole_punch" where
  "hole_punch_new olm_id olm_pub token = \<lparr>hp_olm_id = olm_id, hp_token = token, hp_olm_pub = olm_pub, hp_nodes = []\<rparr>"

definition set_nodes :: "hp_node list \<Rightarrow> hole_punch \<Rightarrow> hole_punch" where
  "set_nodes nodes hp = hp\<lparr>hp_nodes := nodes\<rparr>"

section \<open>Backends\<close>

datatype ('i, 'sk) backend = UserspaceB "('i, 'sk) userspace_backend" | KernelB kernel_backend

record ('i, 'sk) olm_plane =
  op_router :: router
  op_backend :: "('i, 'sk) backend"

record ('i, 'sk) olm_env =
  o_crypto :: crypto
  o_smol :: "('i, 'sk) smol"
  o_iter :: "nat set \<Rightarrow> nat list"
  o_os :: os
  o_resolve :: "string \<Rightarrow> io_error + sock_addr list"
  o_tcp_bind :: "u16 \<Rightarrow> io_error + unit"
  o_kernel_os :: kernel_os
  o_le :: bool
  o_de_json :: "string \<Rightarrow> string + json"
  o_de_msg :: "bytes \<Rightarrow> string + ws_message"
  o_de_wg :: "json \<Rightarrow> olm_wg_data option"
  o_de_site :: "json \<Rightarrow> site_config option"
  o_de_peer :: "json \<Rightarrow> int option"
  o_de_relay :: "json \<Rightarrow> peer_endpoint option"
  o_de_unrelay :: "json \<Rightarrow> peer_endpoint option"
  o_de_data :: "json \<Rightarrow> peer_data option"
  o_de_sync :: "json \<Rightarrow> site_config list option"
  o_b64_decode :: "string \<Rightarrow> string + bytes"
  o_b64_encode :: "bytes \<Rightarrow> string"
  o_ser_json :: "json \<Rightarrow> string"
  o_ser_msg :: "ws_message \<Rightarrow> string + string"
  o_cfg :: client_run
  o_keys :: keys

definition backend_new :: "('i, 'sk) olm_env \<Rightarrow> ip_addr \<Rightarrow> io_error + ('i, 'sk) backend" where
  "backend_new e tunnel_ip =
     (let cfg = o_cfg e in
      case cr_access cfg of
        Userspace \<Rightarrow>
          (if cr_socks_port cfg \<noteq> None then Inl (Other ''OLM_SOCKS_PORT is reserved and not yet implemented; use OLM_FORWARDS'')
           else case userspace_new (o_smol e) (o_tcp_bind e) tunnel_ip (cr_mtu cfg) (cr_forwards cfg) of
             Inl err \<Rightarrow> Inl err
           | Inr b \<Rightarrow> Inr (UserspaceB b))
      | Kernel \<Rightarrow>
          (case kernel_new (o_le e) (o_kernel_os e) (cr_interface cfg) tunnel_ip (cr_mtu cfg) of
             Inl err \<Rightarrow> Inl err
           | Inr b \<Rightarrow> Inr (KernelB b)))"

fun backend_add_routes :: "bool \<Rightarrow> cidr list \<Rightarrow> ('i, 'sk) backend \<Rightarrow> (io_error + unit) \<times> ('i, 'sk) backend" where
  "backend_add_routes le cidrs (UserspaceB b) = (Inr (), UserspaceB b)"
| "backend_add_routes le cidrs (KernelB b) = (let (r, b) = kb_add_routes le cidrs b in (r, KernelB b))"

fun backend_deliver :: "bytes \<Rightarrow> ('i, 'sk) backend \<Rightarrow> (io_error + unit) \<times> ('i, 'sk) backend" where
  "backend_deliver pkt (UserspaceB b) = (Inr (), UserspaceB (us_deliver_inbound pkt b))"
| "backend_deliver pkt (KernelB b) = (let (r, b) = kb_deliver_inbound pkt b in (r, KernelB b))"

text \<open>What a backend waits for: the userspace one for its listeners, the kernel one for its device.\<close>

record backend_event =
  be_accept :: accept_event
  be_now :: nat
  be_read :: "io_error + bytes"

fun backend_drive ::
  "('i, 'sk) smol \<Rightarrow> (nat set \<Rightarrow> nat list) \<Rightarrow> backend_event \<Rightarrow> ('i, 'sk) backend \<Rightarrow> ((io_error + bytes list) \<times> ('i, 'sk) backend) outcome" where
  "backend_drive m iter ev (UserspaceB b) =
     obind (us_drive m iter (be_accept ev) (be_now ev) b) (\<lambda>(r, b). Returns (r, UserspaceB b))"
| "backend_drive m iter ev (KernelB b) = Returns (kb_drive (be_read ev) b, KernelB b)"

section \<open>Sending\<close>

fun send_all :: "(bytes \<times> sock_addr) list \<Rightarrow> udp \<Rightarrow> (io_error + unit) \<times> udp" where
  "send_all [] u = (Inr (), u)"
| "send_all ((b, a) # xs) u = (case send_to b a u of (Inl err, u) \<Rightarrow> (Inl err, u) | (Inr _, u) \<Rightarrow> send_all xs u)"

fun node_datagrams :: "('i, 'sk) olm_env \<Rightarrow> hole_punch \<Rightarrow> hp_node list \<Rightarrow> world \<Rightarrow> (bytes \<times> sock_addr) list \<times> world" where
  "node_datagrams e hp [] w = ([], w)"
| "node_datagrams e hp (n # ns) w =
     (let (pkt, w) = holepunch_build (o_crypto e) (o_b64_decode e) (o_b64_encode e) (o_ser_json e) ''olmId''
            (hp_olm_id hp) (hp_token hp) (hp_olm_pub hp) (hn_server_pub n) w;
          (rest, w) = node_datagrams e hp ns w
      in (case pkt of None \<Rightarrow> rest | Some b \<Rightarrow> (b, hn_addr n) # rest, w))"

definition datagrams :: "('i, 'sk) olm_env \<Rightarrow> hole_punch \<Rightarrow> world \<Rightarrow> (bytes \<times> sock_addr) list \<times> world" where
  "datagrams e hp w = node_datagrams e hp (hp_nodes hp) w"

definition resolve :: "('i, 'sk) olm_env \<Rightarrow> string \<Rightarrow> io_error + sock_addr" where
  "resolve e hostport =
     (case o_resolve e hostport of
        Inl err \<Rightarrow> Inl err
      | Inr [] \<Rightarrow> Inl (Other (''resolve '' @ hostport))
      | Inr (a # _) \<Rightarrow> Inr a)"

fun as_u64 :: "json \<Rightarrow> nat option" where
  "as_u64 (JInt i) = (if 0 \<le> i \<and> i < 2 ^ 64 then Some (nat i) else None)"
| "as_u64 _ = None"

definition exit_node_of :: "('i, 'sk) olm_env \<Rightarrow> json \<Rightarrow> hp_node option" where
  "exit_node_of e n =
     (let endpoint = (case as_str (index_json n ''endpoint'') of Some s \<Rightarrow> s | None \<Rightarrow> []);
          server_pub = (case as_str (index_json n ''publicKey'') of Some s \<Rightarrow> s | None \<Rightarrow> []);
          relay_port = (of_nat (case as_u64 (index_json n ''relayPort'') of Some p \<Rightarrow> p | None \<Rightarrow> 0) :: u16);
          relay_port = (if relay_port = 0 then 21820 else relay_port);
          h = (case rsplit_once (CHR '':'') endpoint of Some (h, _) \<Rightarrow> h | None \<Rightarrow> endpoint)
      in if h = [] \<or> server_pub = [] then None
         else case lookup_host (o_os e) h relay_port of
           Inr (addr # _) \<Rightarrow> Some \<lparr>hn_addr = addr, hn_server_pub = server_pub\<rparr>
         | _ \<Rightarrow> None)"

definition parse_exit_nodes :: "('i, 'sk) olm_env \<Rightarrow> json \<Rightarrow> hp_node list" where
  "parse_exit_nodes e data =
     (case index_json data ''exitNodes'' of JArray arr \<Rightarrow> List.map_filter (exit_node_of e) arr | _ \<Rightarrow> [])"

definition olm_register_msg :: "client_run \<Rightarrow> string \<Rightarrow> ws_message" where
  "olm_register_msg cfg pk_b64 =
     \<lparr>msg_typ = OLM_REGISTER,
      msg_data = JObject
        [(''publicKey'', JString pk_b64), (''relay'', JBool True), (''olmVersion'', JString ''rust-0.2.2''),
         (''olmAgent'', JString ''newt-rust''), (''orgId'', JString (cr_org_id cfg)), (''userToken'', JString (cr_user_token cfg)),
         (''fingerprint'', JObject []), (''postures'', JObject [])],
      config_version = None\<rparr>"

definition ping_msg :: "client_run \<Rightarrow> ws_message" where
  "ping_msg cfg =
     \<lparr>msg_typ = OLM_PING,
      msg_data = JObject [(''userToken'', JString (cr_user_token cfg)), (''fingerprint'', JObject []), (''postures'', JObject [])],
      config_version = None\<rparr>"

definition parse_cidrs :: "string list \<Rightarrow> cidr list" where
  "parse_cidrs specs = List.map_filter cidr_parse specs"

section \<open>Control messages\<close>

text \<open>The loop of \<open>build_dataplane\<close> over the sites, with the initiations and the ranges collected.\<close>

fun add_sites ::
  "('i, 'sk) olm_env \<Rightarrow> site_config list \<Rightarrow> router \<Rightarrow> world \<Rightarrow> (bytes \<times> sock_addr) list \<times> cidr list \<times> router \<times> world" where
  "add_sites e [] r w = ([], [], r, w)"
| "add_sites e (site # sites) r w =
     (if sc_public_key site = [] then add_sites e sites r w
      else case resolve e (wg_endpoint site) of
        Inl _ \<Rightarrow> add_sites e sites r w
      | Inr ep \<Rightarrow>
          let cidrs = List.map_filter cidr_parse (routed_cidrs site);
              (init, r, w) = upsert_peer (o_crypto e) (o_b64_decode e) r (sc_site_id site) (sc_public_key site) ep cidrs w;
              (inits, all, r, w) = add_sites e sites r w
          in ((case init of Some i \<Rightarrow> i # inits | None \<Rightarrow> inits), cidrs @ all, r, w))"

definition build_dataplane ::
  "('i, 'sk) olm_env \<Rightarrow> olm_wg_data \<Rightarrow> world \<Rightarrow> (io_error + ('i, 'sk) olm_plane \<times> (bytes \<times> sock_addr) list) \<times> world" where
  "build_dataplane e wg w =
     (case parse_ip_addr (hd (split_char (CHR ''/'') (ow_tunnel_ip wg))) of
        None \<Rightarrow> (Inl (Other ''bad olm tunnelIP''), w)
      | Some tunnel_ip \<Rightarrow>
          let r = router_new (k_secret (o_keys e)) (cr_mtu (o_cfg e)) in
          (case backend_new e tunnel_ip of
             Inl err \<Rightarrow> (Inl err, w)
           | Inr b \<Rightarrow>
               let (inits, cidrs, r, w) = add_sites e (ow_sites wg) r w in
               (case backend_add_routes (o_le e) cidrs b of
                  (Inl err, b) \<Rightarrow> (Inl err, w)
                | (Inr _, b) \<Rightarrow> (Inr (\<lparr>op_router = r, op_backend = b\<rparr>, inits), w))))"

definition upsert_site ::
  "('i, 'sk) olm_env \<Rightarrow> site_config \<Rightarrow> ('i, 'sk) olm_plane \<Rightarrow> world \<Rightarrow> (bytes \<times> sock_addr) option \<times> ('i, 'sk) olm_plane \<times> world" where
  "upsert_site e site dp w =
     (if sc_public_key site = [] then (None, dp, w)
      else case resolve e (wg_endpoint site) of
        Inl _ \<Rightarrow> (None, dp, w)
      | Inr ep \<Rightarrow>
          let cidrs = List.map_filter cidr_parse (routed_cidrs site);
              (init, r, w) = upsert_peer (o_crypto e) (o_b64_decode e) (op_router dp) (sc_site_id site) (sc_public_key site) ep cidrs w;
              b = snd (backend_add_routes (o_le e) cidrs (op_backend dp))
          in (init, \<lparr>op_router = r, op_backend = b\<rparr>, w))"

record ('i, 'sk) olm_session =
  ol_socket :: stream
  ol_udp :: udp
  ol_hp :: hole_punch
  ol_dp :: "('i, 'sk) olm_plane option"
  ol_ping_ticks :: u32

definition ol_send :: "(bytes \<times> sock_addr) list \<Rightarrow> ('i, 'sk) olm_session \<Rightarrow> (io_error + unit) \<times> ('i, 'sk) olm_session" where
  "ol_send xs s = (let (r, u) = send_all xs (ol_udp s) in (r, s\<lparr>ol_udp := u\<rparr>))"

text \<open>The loop over the sites of a synchronisation.\<close>

fun upsert_sites ::
  "('i, 'sk) olm_env \<Rightarrow> site_config list \<Rightarrow> ('i, 'sk) olm_plane \<Rightarrow> ('i, 'sk) olm_session \<Rightarrow> world \<Rightarrow>
     (io_error + unit) \<times> ('i, 'sk) olm_session \<times> world" where
  "upsert_sites e [] dp s w = (Inr (), s\<lparr>ol_dp := Some dp\<rparr>, w)"
| "upsert_sites e (site # sites) dp s w =
     (let (init, dp, w) = upsert_site e site dp w in
      case ol_send (case init of Some i \<Rightarrow> [i] | None \<Rightarrow> []) s of
        (Inl err, s) \<Rightarrow> (Inl err, s\<lparr>ol_dp := Some dp\<rparr>, w)
      | (Inr _, s) \<Rightarrow> upsert_sites e sites dp s w)"

text \<open>A change of the router of the data plane, if there is one and the payload is read.\<close>

definition on_router :: "'a option \<Rightarrow> ('a \<Rightarrow> router \<Rightarrow> router) \<Rightarrow> ('i, 'sk) olm_session \<Rightarrow> ('i, 'sk) olm_session" where
  "on_router payload f s =
     (case (ol_dp s, payload) of
        (Some dp, Some x) \<Rightarrow> s\<lparr>ol_dp := Some (dp\<lparr>op_router := f x (op_router dp)\<rparr>)\<rparr>
      | _ \<Rightarrow> s)"

definition set_resolved :: "('i, 'sk) olm_env \<Rightarrow> peer_endpoint \<Rightarrow> router \<Rightarrow> router" where
  "set_resolved e p r =
     (case resolve e (pe_endpoint p) of Inr ep \<Rightarrow> set_endpoint (pe_site_id p) ep r | Inl _ \<Rightarrow> r)"

text \<open>The result is whether the session should end.\<close>

definition handle_message ::
  "('i, 'sk) olm_env \<Rightarrow> ws_message \<Rightarrow> ('i, 'sk) olm_session \<Rightarrow> world \<Rightarrow> (io_error + bool) \<times> ('i, 'sk) olm_session \<times> world" where
  "handle_message e msg s w =
     (let ok = (\<lambda>rsw. case rsw of (Inl err, s, w) \<Rightarrow> (Inl err, s, w) | (Inr _, s, w) \<Rightarrow> (Inr False, s, w));
          data = msg_data msg in
      if msg_typ msg = OLM_CONNECT then
        (case build_dataplane e (case o_de_wg e data of Some wg \<Rightarrow> wg | None \<Rightarrow> olm_wg_default) w of
           (Inl err, w) \<Rightarrow> (Inl err, s, w)
         | (Inr (d, inits), w) \<Rightarrow>
             (case ol_send inits s of
                (Inl err, s) \<Rightarrow> (Inl err, s, w)
              | (Inr _, s) \<Rightarrow> (Inr False, s\<lparr>ol_dp := Some d\<rparr>, w)))
      else if msg_typ msg = PEER_ADD \<or> msg_typ msg = PEER_UPDATE then
        (case (ol_dp s, o_de_site e data) of
           (Some d, Some site) \<Rightarrow> ok (upsert_sites e [site] d s w)
         | _ \<Rightarrow> (Inr False, s, w))
      else if msg_typ msg = PEER_REMOVE then (Inr False, on_router (o_de_peer e data) remove_peer s, w)
      else if msg_typ msg = PEER_RELAY then (Inr False, on_router (o_de_relay e data) (set_resolved e) s, w)
      else if msg_typ msg = PEER_UNRELAY then (Inr False, on_router (o_de_unrelay e data) (set_resolved e) s, w)
      else if msg_typ msg = PEER_DATA_ADD then
        (case (ol_dp s, o_de_data e data) of
           (Some d, Some p) \<Rightarrow>
             let cidrs = parse_cidrs (pd_remote_subnets p);
                 (r, b) = backend_add_routes (o_le e) cidrs (op_backend d)
             in ok (r, s\<lparr>ol_dp := Some \<lparr>op_router = add_cidrs (pd_site_id p) cidrs (op_router d), op_backend = b\<rparr>\<rparr>, w)
         | _ \<Rightarrow> (Inr False, s, w))
      else if msg_typ msg = PEER_DATA_REMOVE then
        (Inr False, on_router (o_de_data e data) (\<lambda>p. remove_cidrs (pd_site_id p) (parse_cidrs (pd_remote_subnets p))) s, w)
      else if msg_typ msg = OLM_SYNC then
        (case (ol_dp s, o_de_sync e data) of
           (Some d, Some sites) \<Rightarrow> ok (upsert_sites e sites d s w)
         | _ \<Rightarrow> (Inr False, s, w))
      else if msg_typ msg = OLM_ERROR then (Inr False, s, w)
      else if msg_typ msg = OLM_TERMINATE then (Inr True, s, w)
      else (Inr False, s, w))"

section \<open>The session\<close>

definition ol_ws_send ::
  "('i, 'sk) olm_env \<Rightarrow> ws_message \<Rightarrow> ('i, 'sk) olm_session \<Rightarrow> world \<Rightarrow> (io_error + unit) \<times> ('i, 'sk) olm_session \<times> world" where
  "ol_ws_send e m s w = (case ws_send (o_ser_msg e) m (ol_socket s) w of (r, sock, w) \<Rightarrow> (r, s\<lparr>ol_socket := sock\<rparr>, w))"

text \<open>\<open>OlmInterrupted k\<close>: a receive that has read \<open>k\<close> bytes is dropped, because the branch that comes next completes first.\<close>

datatype olm_event = OlmIncoming | OlmInterrupted nat | OlmSecond | OlmUdp udp_event | OlmDrive backend_event

text \<open>The branches of the loop; the result is whether the session goes on.\<close>

definition olm_on_incoming ::
  "('i, 'sk) olm_env \<Rightarrow> ('i, 'sk) olm_session \<Rightarrow> world \<Rightarrow> (io_error + bool) \<times> ('i, 'sk) olm_session \<times> world" where
  "olm_on_incoming e s w =
     (case recv (o_de_msg e) (ol_socket s) w of
        (Inl err, sock, w) \<Rightarrow> (Inl err, s\<lparr>ol_socket := sock\<rparr>, w)
      | (Inr None, sock, w) \<Rightarrow> (Inr False, s\<lparr>ol_socket := sock\<rparr>, w)
      | (Inr (Some msg), sock, w) \<Rightarrow>
          (case handle_message e msg (s\<lparr>ol_socket := sock\<rparr>) w of
             (Inl err, s, w) \<Rightarrow> (Inl err, s, w)
           | (Inr stop, s, w) \<Rightarrow> (Inr (\<not> stop), s, w)))"

definition olm_heartbeat ::
  "('i, 'sk) olm_env \<Rightarrow> ('i, 'sk) olm_session \<Rightarrow> world \<Rightarrow> (io_error + bool) \<times> ('i, 'sk) olm_session \<times> world" where
  "olm_heartbeat e s w =
     (let s = s\<lparr>ol_ping_ticks := ol_ping_ticks s + 1\<rparr> in
      if ol_ping_ticks s \<ge> 10 then
        (case ol_ws_send e (ping_msg (o_cfg e)) (s\<lparr>ol_ping_ticks := 0\<rparr>) w of
           (Inl err, s, w) \<Rightarrow> (Inl err, s, w)
         | (Inr _, s, w) \<Rightarrow> (Inr True, s, w))
      else (Inr True, s, w))"

definition olm_tick_router ::
  "('i, 'sk) olm_env \<Rightarrow> ('i, 'sk) olm_session \<Rightarrow> world \<Rightarrow> ((io_error + unit) \<times> ('i, 'sk) olm_session \<times> world) outcome" where
  "olm_tick_router e s w =
     (case ol_dp s of
        None \<Rightarrow> Returns (Inr (), s, w)
      | Some d \<Rightarrow>
          obind (tick (o_crypto e) (op_router d) w) (\<lambda>(bs, r, w).
            let (x, s) = ol_send bs (s\<lparr>ol_dp := Some (d\<lparr>op_router := r\<rparr>)\<rparr>) in Returns (x, s, w)))"

definition olm_on_tick ::
  "('i, 'sk) olm_env \<Rightarrow> ('i, 'sk) olm_session \<Rightarrow> world \<Rightarrow> ((io_error + bool) \<times> ('i, 'sk) olm_session \<times> world) outcome" where
  "olm_on_tick e s w =
     (case (if ol_dp s = None then ol_ws_send e (olm_register_msg (o_cfg e) (k_public_b64 (o_keys e))) s w else (Inr (), s, w)) of
        (Inl err, s, w) \<Rightarrow> Returns (Inl err, s, w)
      | (Inr _, s, w) \<Rightarrow>
          let (dgs, w) = datagrams e (ol_hp s) w in
          (case ol_send dgs s of
             (Inl err, s) \<Rightarrow> Returns (Inl err, s, w)
           | (Inr _, s) \<Rightarrow>
               obind (olm_tick_router e s w) (\<lambda>(x, s, w).
                 case x of
                   Inl err \<Rightarrow> Returns (Inl err, s, w)
                 | Inr _ \<Rightarrow> Returns (olm_heartbeat e s w))))"

fun deliver_outs :: "out list \<Rightarrow> ('i, 'sk) backend \<Rightarrow> udp \<Rightarrow> (io_error + unit) \<times> ('i, 'sk) backend \<times> udp" where
  "deliver_outs [] b u = (Inr (), b, u)"
| "deliver_outs (ToHost p # os) b u =
     (case backend_deliver p b of (Inl err, b) \<Rightarrow> (Inl err, b, u) | (Inr _, b) \<Rightarrow> deliver_outs os b u)"
| "deliver_outs (ToNet dg a # os) b u =
     (case send_to dg a u of (Inl err, u) \<Rightarrow> (Inl err, b, u) | (Inr _, u) \<Rightarrow> deliver_outs os b u)"

definition olm_on_datagram ::
  "('i, 'sk) olm_env \<Rightarrow> bytes \<Rightarrow> ('i, 'sk) olm_session \<Rightarrow> world \<Rightarrow> ((io_error + bool) \<times> ('i, 'sk) olm_session \<times> world) outcome option" where
  "olm_on_datagram e dg s w =
     (let dg = take (max (cr_mtu (o_cfg e)) 1500 + 64) dg in
      case ol_dp s of
        None \<Rightarrow> Some (Returns (Inr True, s, w))
      | Some d \<Rightarrow>
          map_option (\<lambda>r. obind r (\<lambda>(os, r, w).
            let (x, b, u) = deliver_outs os (op_backend d) (ol_udp s)
            in Returns ((case x of Inl err \<Rightarrow> Inl err | Inr _ \<Rightarrow> Inr True),
                 s\<lparr>ol_dp := Some \<lparr>op_router = r, op_backend = b\<rparr>, ol_udp := u\<rparr>, w)))
            (handle_inbound (o_crypto e) (op_router d) dg w))"

fun route_packets ::
  "crypto \<Rightarrow> bytes list \<Rightarrow> router \<Rightarrow> udp \<Rightarrow> world \<Rightarrow> ((io_error + unit) \<times> router \<times> udp \<times> world) outcome" where
  "route_packets c [] r u w = Returns (Inr (), r, u, w)"
| "route_packets c (pkt # pkts) r u w =
     obind (route_outbound c r pkt w) (\<lambda>(b, r, w).
       case send_all (case b of Some x \<Rightarrow> [x] | None \<Rightarrow> []) u of
         (Inl err, u) \<Rightarrow> Returns (Inl err, r, u, w)
       | (Inr _, u) \<Rightarrow> route_packets c pkts r u w)"

definition olm_on_drive ::
  "('i, 'sk) olm_env \<Rightarrow> backend_event \<Rightarrow> ('i, 'sk) olm_session \<Rightarrow> world \<Rightarrow> ((io_error + bool) \<times> ('i, 'sk) olm_session \<times> world) outcome" where
  "olm_on_drive e ev s w =
     (case ol_dp s of
        None \<Rightarrow> Returns (Inr True, s, w)
      | Some d \<Rightarrow>
          obind (backend_drive (o_smol e) (o_iter e) ev (op_backend d)) (\<lambda>(x, b).
            case x of
              Inl err \<Rightarrow> Returns (Inl err, s\<lparr>ol_dp := Some (d\<lparr>op_backend := b\<rparr>)\<rparr>, w)
            | Inr pkts \<Rightarrow>
                obind (route_packets (o_crypto e) pkts (op_router d) (ol_udp s) w) (\<lambda>(x, r, u, w).
                  Returns ((case x of Inl err \<Rightarrow> Inl err | Inr _ \<Rightarrow> Inr True),
                    s\<lparr>ol_dp := Some \<lparr>op_router = r, op_backend = b\<rparr>, ol_udp := u\<rparr>, w))))"

fun olm_step ::
  "('i, 'sk) olm_env \<Rightarrow> olm_event \<Rightarrow> ('i, 'sk) olm_session \<Rightarrow> world \<Rightarrow> ((io_error + bool) \<times> ('i, 'sk) olm_session \<times> world) outcome option" where
  "olm_step e OlmIncoming s w = Some (Returns (olm_on_incoming e s w))"
| "olm_step e (OlmInterrupted k) s w =
     (case recv_dropped (o_de_msg e) k (ol_socket s) w of (sock, w) \<Rightarrow> Some (Returns (Inr True, s\<lparr>ol_socket := sock\<rparr>, w)))"
| "olm_step e OlmSecond s w = Some (olm_on_tick e s w)"
| "olm_step e (OlmUdp (Datagram dg)) s w = olm_on_datagram e dg s w"
| "olm_step e (OlmUdp (RecvError err)) s w = Some (Returns (Inl err, s, w))"
| "olm_step e (OlmUdp Timeout) s w = Some (Returns (Inr True, s, w))"
| "olm_step e (OlmDrive ev) s w = Some (olm_on_drive e ev s w)"

fun olm_loop ::
  "('i, 'sk) olm_env \<Rightarrow> olm_event list \<Rightarrow> ('i, 'sk) olm_session \<Rightarrow> world \<Rightarrow> ((io_error + bool) \<times> ('i, 'sk) olm_session \<times> world) outcome option" where
  "olm_loop e [] s w = Some (Returns (Inr True, s, w))"
| "olm_loop e (x # xs) s w =
     (case olm_step e x s w of
        None \<Rightarrow> None
      | Some Panics \<Rightarrow> Some Panics
      | Some (Returns (Inl err, s, w)) \<Rightarrow> Some (Returns (Inl err, s, w))
      | Some (Returns (Inr False, s, w)) \<Rightarrow> Some (Returns (Inr False, s, w))
      | Some (Returns (Inr True, s, w)) \<Rightarrow> olm_loop e xs s w)"

text \<open>A session up to its loop: the token, the exit nodes, the socket and the first registration.\<close>

definition olm_open ::
  "('i, 'sk) olm_env \<Rightarrow> dialer \<Rightarrow> dialer \<Rightarrow> world \<Rightarrow> (io_error + ('i, 'sk) olm_session) \<times> world" where
  "olm_open e dt dw w =
     (let cfg = o_cfg e in
      case fst (get_token_data dt (o_de_json e) (o_ser_json e) (cr_endpoint cfg) ''olm''
                 (JObject [(''olmId'', JString (cr_id cfg)), (''secret'', JString (cr_secret cfg)),
                           (''userToken'', JString (cr_user_token cfg)), (''orgId'', JString (cr_org_id cfg))])) of
        Inl err \<Rightarrow> (Inl err, w)
      | Inr data \<Rightarrow>
          (case as_str (index_json data ''token'') of
             None \<Rightarrow> (Inl (Other ''no token in olm get-token response''), w)
           | Some tok \<Rightarrow>
               let nodes = parse_exit_nodes e data in
               (case connect dw (o_b64_encode e) (cr_endpoint cfg) tok ''olm'' w of
                  (Inl err, w) \<Rightarrow> (Inl err, w)
                | (Inr sock, w) \<Rightarrow>
                    (case udp_bind (o_os e) of
                       Inl err \<Rightarrow> (Inl err, w)
                     | Inr u \<Rightarrow>
                         let hp = set_nodes nodes (hole_punch_new (cr_id cfg) (k_public_b64 (o_keys e)) tok);
                             s = \<lparr>ol_socket = sock, ol_udp = u, ol_hp = hp, ol_dp = None, ol_ping_ticks = 0\<rparr>
                         in (case ol_ws_send e (olm_register_msg cfg (k_public_b64 (o_keys e))) s w of
                               (Inl err, s, w) \<Rightarrow> (Inl err, w)
                             | (Inr _, s, w) \<Rightarrow> (Inr s, w))))))"

definition olm_session_run ::
  "('i, 'sk) olm_env \<Rightarrow> dialer \<Rightarrow> dialer \<Rightarrow> olm_event list \<Rightarrow> world \<Rightarrow>
     ((io_error + bool) \<times> ('i, 'sk) olm_session option \<times> world) outcome option" where
  "olm_session_run e dt dw evs w =
     (case olm_open e dt dw w of
        (Inl err, w) \<Rightarrow> Some (Returns (Inl err, None, w))
      | (Inr s, w) \<Rightarrow> map_option (\<lambda>r. obind r (\<lambda>(r, s, w). Returns (r, Some s, w))) (olm_loop e evs s w))"

fun olm_sessions ::
  "('i, 'sk) olm_env \<Rightarrow> (dialer \<times> dialer \<times> olm_event list) list \<Rightarrow> world \<Rightarrow> world outcome option" where
  "olm_sessions e [] w = Some (Returns w)"
| "olm_sessions e ((dt, dw, evs) # rest) w =
     (case olm_session_run e dt dw evs w of
        None \<Rightarrow> None
      | Some Panics \<Rightarrow> Some Panics
      | Some (Returns (r, s, w)) \<Rightarrow> olm_sessions e rest w)"

definition olm_run ::
  "('i, 'sk) olm_env \<Rightarrow> (dialer \<times> dialer \<times> olm_event list) list \<Rightarrow> world \<Rightarrow> world outcome option" where
  "olm_run e ss w =
     (let (keys, w) = generate_keys (o_crypto e) (o_b64_encode e) w in olm_sessions (e\<lparr>o_keys := keys\<rparr>) ss w)"

end
