(* ===== verification/Olm_Safety.thy ===== *)
theory Olm_Safety
  imports Olm_Control Session_Base
begin

text \<open>
  What the client role keeps: no input makes it panic, its router and backend stay in order, and with the kernel
  backend every range its router would encapsulate for has been asked of the kernel as a route.
\<close>

section \<open>The invariant\<close>

definition olm_env_ok :: "('i, 'sk) olm_env \<Rightarrow> bool" where
  "olm_env_ok e \<longleftrightarrow> crypto_ok (o_crypto e) \<and> smol_ok (o_smol e) \<and> iter_ok (o_iter e)"

definition ranges :: "router \<Rightarrow> cidr set" where
  "ranges r = (\<Union>p \<in> set (peers r). set (pr_cidrs p))"

text \<open>A message that asks for the route of a range into an interface.\<close>

definition route_message :: "bool \<Rightarrow> u32 \<Rightarrow> cidr \<Rightarrow> bytes \<Rightarrow> bool" where
  "route_message le i c m \<longleftrightarrow>
     (case nl_read le 12 m of
        None \<Rightarrow> False
      | Some x \<Rightarrow> nm_type x = RTM_NEWROUTE \<and> nm_attrs x = [(RTA_DST, octets (net c)), (RTA_OIF, ne_bytes le 4 i)]
          \<and> take 2 (nm_fixed x) = [fst (fam_bytes (net c)), cd_prefix c])"

fun routed :: "bool \<Rightarrow> ('i, 'sk) backend \<Rightarrow> cidr \<Rightarrow> bool" where
  "routed le (UserspaceB b) c = True"
| "routed le (KernelB b) c = (\<exists>m \<in> set (nl_sent (kb_nl b)). route_message le (kb_ifindex b) c m)"

fun backend_ok :: "client_run \<Rightarrow> ('i, 'sk) backend \<Rightarrow> bool" where
  "backend_ok cfg (UserspaceB b) \<longleftrightarrow> userspace_ok (cr_mtu cfg) b \<and> length (us_forwards b) = length (cr_forwards cfg)"
| "backend_ok cfg (KernelB b) \<longleftrightarrow> True"

definition olm_plane_ok :: "('i, 'sk) olm_env \<Rightarrow> ('i, 'sk) olm_plane \<Rightarrow> world \<Rightarrow> bool" where
  "olm_plane_ok e d w \<longleftrightarrow> router_ok (op_router d) w \<and> rt_mtu (op_router d) = cr_mtu (o_cfg e)
     \<and> backend_ok (o_cfg e) (op_backend d) \<and> (\<forall>c \<in> ranges (op_router d). routed (o_le e) (op_backend d) c)"

definition olm_ok :: "('i, 'sk) olm_env \<Rightarrow> ('i, 'sk) olm_session \<Rightarrow> world \<Rightarrow> bool" where
  "olm_ok e s w \<longleftrightarrow> (\<exists>T. clock_from T w) \<and> unat (ol_ping_ticks s) < 10
     \<and> (case ol_dp s of None \<Rightarrow> True | Some d \<Rightarrow> olm_plane_ok e d w)"

section \<open>Routes\<close>

lemma add_route_fields:
  "kb_ifindex (kb_add_route le c kb) = kb_ifindex kb"
  "\<exists>m. nl_sent (kb_nl (kb_add_route le c kb)) = nl_sent (kb_nl kb) @ [m] \<and> route_message le (kb_ifindex kb) c m"
  using add_route_sent [of le "kb_ifindex kb" "net c" "cd_prefix c" "kb_nl kb"]
  by (auto simp: kb_add_route_def parts_def route_message_def RTM_NEWROUTE_def)

lemma fold_routes:
  "kb_ifindex (fold (kb_add_route le) cs kb) = kb_ifindex kb
   \<and> set (nl_sent (kb_nl kb)) \<subseteq> set (nl_sent (kb_nl (fold (kb_add_route le) cs kb)))
   \<and> (\<forall>c \<in> set cs. \<exists>m \<in> set (nl_sent (kb_nl (fold (kb_add_route le) cs kb))). route_message le (kb_ifindex kb) c m)"
proof (induction cs arbitrary: kb)
  case (Cons c cs)
  obtain m where m: "nl_sent (kb_nl (kb_add_route le c kb)) = nl_sent (kb_nl kb) @ [m]" "route_message le (kb_ifindex kb) c m"
    using add_route_fields(2) by blast
  show ?case using Cons.IH [of "kb_add_route le c kb"] add_route_fields(1) [of le c kb] m by auto
qed simp

lemma backend_routes:
  assumes "backend_add_routes le cs b = (r, b')"
  shows "r = Inr () \<and> backend_ok cfg b' = backend_ok cfg b
    \<and> (\<forall>c. routed le b c \<or> c \<in> set cs \<longrightarrow> routed le b' c)"
proof (cases b)
  case (KernelB kb)
  then show ?thesis using assms fold_routes [of le cs kb] by (auto simp: kb_add_routes_def) blast
qed (use assms in auto)

lemma routed_deliver: "backend_deliver p b = (r, b') \<Longrightarrow> backend_ok cfg b \<Longrightarrow> backend_ok cfg b' \<and> routed le b' = routed le b"
  by (cases b) (auto simp: kb_deliver_inbound_def write_packet_def us_deliver_ok us_deliver_inbound_def userspace_ok_def fun_eq_iff)

section \<open>Ranges of the router\<close>

lemma ranges_new [simp]: "ranges (router_new sk mtu) = {}"
  by (simp add: ranges_def router_new_def)

lemma ranges_upsert:
  "upsert_peer c dec r k key ep cs w = (b, r', w') \<Longrightarrow> ranges r' \<subseteq> ranges r \<union> set cs"
  by (auto simp: ranges_def upsert_peer_def remove_peer_def Let_def split: sum.splits prod.splits)

lemma ranges_update: "(\<And>p. set (pr_cidrs (f p)) \<subseteq> set (pr_cidrs p) \<union> A) \<Longrightarrow> ranges (r\<lparr>peers := update_first P f (peers r)\<rparr>) \<subseteq> ranges r \<union> A"
  by (fastforce simp: ranges_def dest!: set_update_first)

lemma ranges_ops:
  "ranges (remove_peer k r) \<subseteq> ranges r" "ranges (set_endpoint k ep r) \<subseteq> ranges r"
  "ranges (add_cidrs k cs r) \<subseteq> ranges r \<union> set cs" "ranges (remove_cidrs k cs r) \<subseteq> ranges r"
  using ranges_update [where A = "{}" and r = r] ranges_update [where A = "set cs" and r = r]
  by (auto simp: set_endpoint_def add_cidrs_def remove_cidrs_def) (auto simp: ranges_def remove_peer_def)

lemma ranges_faces: "map face (peers r') = map face (peers r) \<Longrightarrow> ranges r' = ranges r"
proof -
  have "ranges q = (\<Union>f \<in> set (map face (peers q)). set (snd (snd (snd f))))" for q by (simp add: ranges_def face_def)
  then show "map face (peers r') = map face (peers r) \<Longrightarrow> ranges r' = ranges r" by metis
qed

section \<open>Control messages\<close>

lemma olm_ok_fields [simp]:
  "olm_ok e (s\<lparr>ol_socket := x\<rparr>) w = olm_ok e s w" "olm_ok e (s\<lparr>ol_udp := u\<rparr>) w = olm_ok e s w"
  by (simp_all add: olm_ok_def)

lemma olm_ok_dp: "olm_ok e s w \<Longrightarrow> ol_dp s = Some d \<Longrightarrow> olm_plane_ok e d w"
  by (simp add: olm_ok_def)

lemma olm_ok_set:
  assumes "unat (ol_ping_ticks s) < 10" "olm_plane_ok e d w"
  shows "olm_ok e (s\<lparr>ol_dp := Some d\<rparr>) w"
  using assms by (auto simp: olm_ok_def olm_plane_ok_def router_ok_def)

lemma router_ok_later: "router_ok r w \<Longrightarrow> later w w' \<Longrightarrow> router_ok r w'"
  by (auto simp: router_ok_def intro: peer_ok_later later_clock)

lemma olm_ok_later: "olm_ok e s w \<Longrightarrow> later w w' \<Longrightarrow> olm_ok e s w'"
  by (auto simp: olm_ok_def olm_plane_ok_def split: option.splits intro: router_ok_later later_clock)

lemma parsed_wf: "\<forall>c \<in> set (List.map_filter cidr_parse xs). wf_cidr c"
  using cidr_parse_wf by (auto simp: List.map_filter_def)

lemma upsert_site_ok:
  assumes "olm_plane_ok e d w" "upsert_site e site d w = (i, d', w')"
  shows "olm_plane_ok e d' w'"
proof (cases "sc_public_key site = [] \<or> (\<exists>x. resolve e (wg_endpoint site) = Inl x)")
  case True
  then have "upsert_site e site d w = (None, d, w)" by (auto simp: upsert_site_def)
  then show ?thesis using assms by simp
next
  case False
  then obtain ep where ep: "sc_public_key site \<noteq> []" "resolve e (wg_endpoint site) = Inr ep"
    by (cases "resolve e (wg_endpoint site)") auto
  let ?cs = "List.map_filter cidr_parse (routed_cidrs site)"
  obtain b r' w1 where u: "upsert_peer (o_crypto e) (o_b64_decode e) (op_router d) (sc_site_id site) (sc_public_key site) ep ?cs w = (b, r', w1)"
    by (metis prod_cases3)
  obtain x b' where b: "backend_add_routes (o_le e) ?cs (op_backend d) = (x, b')" by fastforce
  have "router_ok r' w1 \<and> rt_mtu r' = rt_mtu (op_router d)" "ranges r' \<subseteq> ranges (op_router d) \<union> set ?cs"
    using upsert_ok [OF _ parsed_wf u] ranges_upsert [OF u] assms(1) by (simp_all add: olm_plane_ok_def)
  moreover have "d' = \<lparr>op_router = r', op_backend = b'\<rparr>" "w' = w1" using assms(2) ep u b by (simp_all add: upsert_site_def Let_def)
  ultimately show ?thesis using assms(1) backend_routes [OF b, of "o_cfg e"] by (auto simp: olm_plane_ok_def)
qed

lemma add_sites_ok:
  "router_ok r w \<Longrightarrow> add_sites e sites r w = (inits, cs, r', w') \<Longrightarrow>
     router_ok r' w' \<and> rt_mtu r' = rt_mtu r \<and> ranges r' \<subseteq> ranges r \<union> set cs"
proof (induction sites arbitrary: r w inits cs)
  case (Cons site sites)
  show ?case
  proof (cases "sc_public_key site = [] \<or> (\<exists>x. resolve e (wg_endpoint site) = Inl x)")
    case True
    then have "add_sites e (site # sites) r w = add_sites e sites r w" by auto
    then show ?thesis using Cons.IH [OF Cons.prems(1)] Cons.prems(2) by simp
  next
    case False
    then obtain ep where ep: "sc_public_key site \<noteq> []" "resolve e (wg_endpoint site) = Inr ep"
      by (cases "resolve e (wg_endpoint site)") auto
    let ?cs = "List.map_filter cidr_parse (routed_cidrs site)"
    obtain b r1 w1 where u: "upsert_peer (o_crypto e) (o_b64_decode e) r (sc_site_id site) (sc_public_key site) ep ?cs w = (b, r1, w1)"
      by (metis prod_cases3)
    obtain is' cs' r2 w2 where a: "add_sites e sites r1 w1 = (is', cs', r2, w2)" by (metis prod_cases4)
    have "router_ok r1 w1 \<and> rt_mtu r1 = rt_mtu r" "ranges r1 \<subseteq> ranges r \<union> set ?cs"
      using upsert_ok [OF Cons.prems(1) parsed_wf u] ranges_upsert [OF u] by simp_all
    moreover have "cs = ?cs @ cs'" "r' = r2" "w' = w2" using Cons.prems(2) ep u a by (simp_all add: Let_def)
    ultimately show ?thesis using Cons.IH [of r1 w1 is' cs'] a by auto
  qed
qed simp

lemma bind_forwards_length: "bind_forwards bind fs = Inr fl \<Longrightarrow> length fl = length fs"
  by (induction fs arbitrary: fl) (auto split: option.splits sum.splits)

lemma userspace_new_forwards: "userspace_new m bind ip mtu fs = Inr us \<Longrightarrow> length (us_forwards us) = length fs"
  by (auto simp: userspace_new_def Let_def split: sum.splits dest: bind_forwards_length)

lemma backend_new_ok: "backend_new e ip = Inr b \<Longrightarrow> backend_ok (o_cfg e) b"
  by (auto simp: backend_new_def Let_def split: access_mode.splits if_splits sum.splits dest: userspace_new_ok userspace_new_forwards)

lemma build_dataplane_ok:
  assumes "clock_from T w" "build_dataplane e wg w = (x, w')"
  shows "(\<exists>T. clock_from T w') \<and> (\<forall>d inits. x = Inr (d, inits) \<longrightarrow> olm_plane_ok e d w')"
proof -
  let ?r = "router_new (k_secret (o_keys e)) (cr_mtu (o_cfg e))"
  obtain inits cs r1 w1 where a: "add_sites e (ow_sites wg) ?r w = (inits, cs, r1, w1)" by (metis prod_cases4)
  have r1: "router_ok r1 w1" "rt_mtu r1 = cr_mtu (o_cfg e)" "ranges r1 \<subseteq> set cs"
    using add_sites_ok [OF router_ok_new [OF assms(1)] a] by (simp_all, simp add: router_new_def)
  then have T: "\<exists>T. clock_from T w1" by (simp add: router_ok_def)
  have plane: "olm_plane_ok e \<lparr>op_router = r1, op_backend = b'\<rparr> w1"
    if "backend_new e ip = Inr b" "backend_add_routes (o_le e) cs b = (y, b')" for ip b y b'
    using backend_new_ok [OF that(1)] backend_routes [OF that(2), of "o_cfg e"] r1 by (auto simp: olm_plane_ok_def)
  show ?thesis using assms T a plane unfolding build_dataplane_def Let_def
    by (auto split: option.splits sum.splits prod.splits)
qed

lemma upsert_sites_ok:
  "unat (ol_ping_ticks s) < 10 \<Longrightarrow> olm_plane_ok e d w \<Longrightarrow> upsert_sites e sites d s w = (r, s', w') \<Longrightarrow> olm_ok e s' w'"
proof (induction sites arbitrary: d s w)
  case Nil
  then show ?case using olm_ok_set by auto
next
  case (Cons site sites)
  obtain i d1 w1 where u: "upsert_site e site d w = (i, d1, w1)" by (metis prod_cases3)
  obtain x u1 where o: "send_all (case i of Some i \<Rightarrow> [i] | None \<Rightarrow> []) (ol_udp s) = (x, u1)" by fastforce
  note ok = upsert_site_ok [OF Cons.prems(2) u]
  show ?case
    using Cons.prems u o ok Cons.IH [of "s\<lparr>ol_udp := u1\<rparr>" d1 w1] olm_ok_set [of "s\<lparr>ol_udp := u1\<rparr>" e d1 w1]
    by (cases x) (auto simp: ol_send_def)
qed

lemma on_router_ok:
  assumes "olm_ok e s w"
    and "\<And>x q. router_ok q w \<Longrightarrow> router_ok (f x q) w \<and> rt_mtu (f x q) = rt_mtu q \<and> ranges (f x q) \<subseteq> ranges q"
  shows "olm_ok e (on_router p f s) w"
proof (cases "ol_dp s")
  case (Some d)
  show ?thesis
  proof (cases p)
    case (Some x)
    have "olm_plane_ok e (d\<lparr>op_router := f x (op_router d)\<rparr>) w"
      using olm_ok_dp [OF assms(1) \<open>ol_dp s = Some d\<close>] assms(2) [of "op_router d" x] by (auto simp: olm_plane_ok_def)
    then have "olm_ok e (s\<lparr>ol_dp := Some (d\<lparr>op_router := f x (op_router d)\<rparr>)\<rparr>) w"
      using assms(1) by (intro olm_ok_set) (simp_all add: olm_ok_def)
    then show ?thesis using \<open>ol_dp s = Some d\<close> Some by (simp add: on_router_def)
  qed (use assms(1) in \<open>simp add: on_router_def split: option.split\<close>)
qed (use assms(1) in \<open>simp add: on_router_def\<close>)

lemma router_edits_ok:
  assumes "router_ok q w"
  shows "router_ok (remove_peer k q) w \<and> rt_mtu (remove_peer k q) = rt_mtu q \<and> ranges (remove_peer k q) \<subseteq> ranges q"
    and "router_ok (set_resolved e p q) w \<and> rt_mtu (set_resolved e p q) = rt_mtu q \<and> ranges (set_resolved e p q) \<subseteq> ranges q"
    and "router_ok (remove_cidrs k cs q) w \<and> rt_mtu (remove_cidrs k cs q) = rt_mtu q \<and> ranges (remove_cidrs k cs q) \<subseteq> ranges q"
    and "\<forall>c \<in> set cs. wf_cidr c \<Longrightarrow> router_ok (add_cidrs k cs q) w \<and> rt_mtu (add_cidrs k cs q) = rt_mtu q"
proof -
  have wf: "\<And>p. p \<in> set (peers q) \<Longrightarrow> \<forall>c \<in> set (pr_cidrs p). wf_cidr c"
    using router_ok_wf [OF assms] by (auto simp: wf_peers_def)
  have ep: "router_ok (set_endpoint k ep q) w \<and> rt_mtu (set_endpoint k ep q) = rt_mtu q" for k ep
    using wf by (auto simp: set_endpoint_def intro!: router_ok_update [OF assms])
  show "router_ok (remove_peer k q) w \<and> rt_mtu (remove_peer k q) = rt_mtu q \<and> ranges (remove_peer k q) \<subseteq> ranges q"
    using router_ok_remove [OF assms] ranges_ops(1) by (auto simp: remove_peer_def)
  show "router_ok (set_resolved e p q) w \<and> rt_mtu (set_resolved e p q) = rt_mtu q \<and> ranges (set_resolved e p q) \<subseteq> ranges q"
    using ep ranges_ops(2) assms by (auto simp: set_resolved_def split: sum.splits)
  show "router_ok (remove_cidrs k cs q) w \<and> rt_mtu (remove_cidrs k cs q) = rt_mtu q \<and> ranges (remove_cidrs k cs q) \<subseteq> ranges q"
    using wf ranges_ops(4) [of k cs q] by (auto simp: remove_cidrs_def intro!: router_ok_update [OF assms])
  show "\<forall>c \<in> set cs. wf_cidr c \<Longrightarrow> router_ok (add_cidrs k cs q) w \<and> rt_mtu (add_cidrs k cs q) = rt_mtu q"
    using wf by (auto simp: add_cidrs_def intro!: router_ok_update [OF assms])
qed

lemma add_data_ok:
  assumes "olm_ok e s w" "ol_dp s = Some d" "backend_add_routes (o_le e) (parse_cidrs xs) (op_backend d) = (r, b)"
  shows "olm_ok e (s\<lparr>ol_dp := Some \<lparr>op_router = add_cidrs k (parse_cidrs xs) (op_router d), op_backend = b\<rparr>\<rparr>) w"
proof (rule olm_ok_set)
  note d = olm_ok_dp [OF assms(1,2)]
  show "olm_plane_ok e \<lparr>op_router = add_cidrs k (parse_cidrs xs) (op_router d), op_backend = b\<rparr> w"
    using d router_edits_ok(4) [of "op_router d" w "parse_cidrs xs" k] parsed_wf [of xs] ranges_ops(3) [of k "parse_cidrs xs" "op_router d"]
      backend_routes [OF assms(3), of "o_cfg e"]
    by (auto simp: olm_plane_ok_def parse_cidrs_def)
  show "unat (ol_ping_ticks s) < 10" using assms(1) by (simp add: olm_ok_def)
qed

text \<open>After an error the session is gone, and only the clock is left.\<close>

definition olm_result_ok :: "('i, 'sk) olm_env \<Rightarrow> (io_error + 'a) \<times> ('i, 'sk) olm_session \<times> world \<Rightarrow> bool" where
  "olm_result_ok e x = (case x of (r, s, w) \<Rightarrow> (\<exists>T. clock_from T w) \<and> (case r of Inl _ \<Rightarrow> True | Inr _ \<Rightarrow> olm_ok e s w))"

lemma olm_result_ok_all: "olm_ok e s w \<Longrightarrow> olm_result_ok e (r, s, w)"
  by (simp add: olm_result_ok_def olm_ok_def split: sum.split)

lemma result_ok_if: "olm_result_ok e a \<Longrightarrow> olm_result_ok e b \<Longrightarrow> olm_result_ok e (if c then a else b)"
  by simp

lemma result_ok_payload:
  "olm_ok e s w \<Longrightarrow> (\<And>d x. ol_dp s = Some d \<Longrightarrow> olm_result_ok e (f d x)) \<Longrightarrow>
     olm_result_ok e (case (ol_dp s, p) of (Some d, Some x) \<Rightarrow> f d x | _ \<Rightarrow> (Inr False, s, w))"
  using olm_result_ok_all [of e s w] by (cases "ol_dp s"; cases p) auto

lemma connect_ok:
  assumes "olm_ok e s w"
  shows "olm_result_ok e (case build_dataplane e wg w of
      (Inl err, w) \<Rightarrow> (Inl err, s, w)
    | (Inr (d, inits), w) \<Rightarrow>
        (case ol_send inits s of (Inl err, s) \<Rightarrow> (Inl err, s, w) | (Inr _, s) \<Rightarrow> (Inr False, s\<lparr>ol_dp := Some d\<rparr>, w)))"
proof -
  obtain T where T: "clock_from T w" using assms by (auto simp: olm_ok_def)
  obtain x w1 where b: "build_dataplane e wg w = (x, w1)" by fastforce
  note ok = build_dataplane_ok [OF T b]
  show ?thesis
  proof (cases x)
    case (Inr p)
    obtain d inits where p: "p = (d, inits)" by (cases p)
    obtain y u where y: "send_all inits (ol_udp s) = (y, u)" by fastforce
    have "olm_ok e (s\<lparr>ol_udp := u, ol_dp := Some d\<rparr>) w1"
      using olm_ok_set [of "s\<lparr>ol_udp := u\<rparr>" e d w1] ok assms Inr p by (simp add: olm_ok_def)
    then show ?thesis using b Inr p y ok by (cases y) (auto simp: ol_send_def olm_result_ok_def)
  qed (use b ok in \<open>simp add: olm_result_ok_def\<close>)
qed

lemma handle_message_ok:
  assumes "olm_ok e s w"
  shows "olm_result_ok e (handle_message e msg s w)"
proof -
  have "olm_ok e (on_router (o_de_peer e (msg_data msg)) remove_peer s) w"
    "olm_ok e (on_router (o_de_relay e (msg_data msg)) (set_resolved e) s) w"
    "olm_ok e (on_router (o_de_unrelay e (msg_data msg)) (set_resolved e) s) w"
    "olm_ok e (on_router (o_de_data e (msg_data msg)) (\<lambda>p. remove_cidrs (pd_site_id p) (parse_cidrs (pd_remote_subnets p))) s) w"
    by (intro on_router_ok [OF assms] router_edits_ok; assumption)+
  note edits = this [THEN olm_result_ok_all] olm_result_ok_all [OF assms] connect_ok [OF assms]
  have sites: "olm_result_ok e (case upsert_sites e xs d s w of (Inl err, s, w) \<Rightarrow> (Inl err, s, w) | (Inr _, s, w) \<Rightarrow> (Inr False, s, w))"
    if d: "ol_dp s = Some d" for d xs
  proof -
    obtain r s1 w1 where u: "upsert_sites e xs d s w = (r, s1, w1)" by (metis prod_cases3)
    have "olm_ok e s1 w1" using upsert_sites_ok [OF _ olm_ok_dp [OF assms d] u] assms by (simp add: olm_ok_def)
    then show ?thesis using u olm_result_ok_all by (cases r) auto
  qed
  have data: "olm_result_ok e (let (r, b) = backend_add_routes (o_le e) (parse_cidrs xs) (op_backend d) in
      case (r, s\<lparr>ol_dp := Some \<lparr>op_router = add_cidrs k (parse_cidrs xs) (op_router d), op_backend = b\<rparr>\<rparr>, w) of
        (Inl err, s, w) \<Rightarrow> (Inl err, s, w) | (Inr _, s, w) \<Rightarrow> (Inr False, s, w))"
    if d: "ol_dp s = Some d" for d k xs
  proof -
    obtain r b where b: "backend_add_routes (o_le e) (parse_cidrs xs) (op_backend d) = (r, b)" by fastforce
    show ?thesis using add_data_ok [OF assms d b, of k] olm_result_ok_all b by (cases r) auto
  qed
  show ?thesis unfolding handle_message_def Let_def
    by (intro result_ok_if edits) (rule result_ok_payload [OF assms], rule sites data [unfolded Let_def], assumption)+
qed

section \<open>The loop\<close>

lemma later_datagrams: "node_datagrams e hp ns w = (xs, w') \<Longrightarrow> later w w'"
proof (induction ns arbitrary: xs w)
  case (Cons n ns)
  obtain p w1 where p: "holepunch_build (o_crypto e) (o_b64_decode e) (o_b64_encode e) (o_ser_json e) ''olmId''
      (hp_olm_id hp) (hp_token hp) (hp_olm_pub hp) (hn_server_pub n) w = (p, w1)" by fastforce
  obtain ys w2 where r: "node_datagrams e hp ns w1 = (ys, w2)" by fastforce
  have "later w w1"
    using p later_trans [OF later_fill later_fill]
    by (auto simp: holepunch_build_def Let_def case_prod_beta split: sum.splits if_splits)
  then show ?case using Cons.IH [of w1 ys] Cons.prems p r later_trans by auto
qed simp

lemma olm_heartbeat_ok:
  assumes "olm_ok e s w"
  shows "olm_result_ok e (olm_heartbeat e s w)"
proof -
  have t: "unat (ol_ping_ticks s + 1) = unat (ol_ping_ticks s) + 1"
    using assms by (simp add: olm_ok_def unat_word_ariths)
  obtain x sock w1 where x: "ws_send (o_ser_msg e) (ping_msg (o_cfg e)) (ol_socket s) w = (x, sock, w1)" by (metis prod_cases3)
  have "olm_ok e (s\<lparr>ol_ping_ticks := 0\<rparr>) w" using assms by (simp add: olm_ok_def)
  from olm_ok_later [OF this later_ws_send [OF x]] have "olm_ok e (s\<lparr>ol_ping_ticks := 0, ol_socket := sock\<rparr>) w1" by simp
  moreover have "olm_ok e (s\<lparr>ol_ping_ticks := ol_ping_ticks s + 1\<rparr>) w" if "\<not> 10 \<le> ol_ping_ticks s + 1"
    using assms t that by (simp add: olm_ok_def word_le_nat_alt)
  ultimately show ?thesis using x olm_result_ok_all
    by (cases x) (auto simp: olm_heartbeat_def Let_def ol_ws_send_def)
qed

lemma traffic_ranges:
  "tick c r w = Returns (bs, r', w') \<Longrightarrow> ranges r' = ranges r"
  "handle_inbound c r dg w = Some (Returns (os, r', w')) \<Longrightarrow> ranges r' = ranges r"
  "route_outbound c r p w = Returns (b, r', w') \<Longrightarrow> ranges r' = ranges r"
  using traffic_faces [of c undefined router_op.Tick r w _ r' w'] traffic_faces [of c undefined "Inbound dg" r w os r' w']
    traffic_faces [of c undefined "Outbound p" r w _ r' w']
  by (auto intro!: ranges_faces)

lemma olm_tick_router_ok:
  assumes "olm_env_ok e" "olm_ok e s w"
  shows "\<exists>r s' w'. olm_tick_router e s w = Returns (r, s', w') \<and> olm_ok e s' w'"
proof (cases "ol_dp s")
  case (Some d)
  note ok = olm_ok_dp [OF assms(2) Some]
  obtain bs r w1 where t: "tick (o_crypto e) (op_router d) w = Returns (bs, r, w1)" "router_ok r w1" "rt_mtu r = rt_mtu (op_router d)"
    using tick_ok [of "o_crypto e" "op_router d" w] ok assms(1) by (auto simp: olm_env_ok_def olm_plane_ok_def)
  then have "olm_plane_ok e (d\<lparr>op_router := r\<rparr>) w1" using ok traffic_ranges(1) [OF t(1)] by (simp add: olm_plane_ok_def)
  from olm_ok_set [OF _ this, of s] have "olm_ok e (s\<lparr>ol_dp := Some (d\<lparr>op_router := r\<rparr>)\<rparr>) w1" using assms(2) by (simp add: olm_ok_def)
  then show ?thesis using Some t(1) by (auto simp: olm_tick_router_def ol_send_def Let_def case_prod_beta)
qed (use assms(2) in \<open>simp add: olm_tick_router_def\<close>)

lemma olm_on_tick_ok:
  assumes "olm_env_ok e" "olm_ok e s w"
  shows "\<exists>x. olm_on_tick e s w = Returns x \<and> olm_result_ok e x"
proof -
  obtain r s1 w1 where 1: "(if ol_dp s = None then ol_ws_send e (olm_register_msg (o_cfg e) (k_public_b64 (o_keys e))) s w
      else (Inr (), s, w)) = (r, s1, w1)" by (metis prod_cases3)
  then have "olm_ok e s1 w1"
    using assms(2) olm_ok_later [OF assms(2)] later_ws_send by (fastforce simp: ol_ws_send_def split: if_splits prod.splits)
  obtain dgs w2 where 2: "datagrams e (ol_hp s1) w1 = (dgs, w2)" by fastforce
  then have "olm_ok e s1 w2" using olm_ok_later [OF \<open>olm_ok e s1 w1\<close> later_datagrams] by (simp add: datagrams_def)
  obtain y u where 3: "send_all dgs (ol_udp s1) = (y, u)" by fastforce
  have "olm_ok e (s1\<lparr>ol_udp := u\<rparr>) w2" using \<open>olm_ok e s1 w2\<close> by simp
  from olm_tick_router_ok [OF assms(1) this] obtain z s3 w3 where
    4: "olm_tick_router e (s1\<lparr>ol_udp := u\<rparr>) w2 = Returns (z, s3, w3)" "olm_ok e s3 w3" by blast
  show ?thesis
    using 1 2 3 4 \<open>olm_ok e s1 w1\<close> \<open>olm_ok e (s1\<lparr>ol_udp := u\<rparr>) w2\<close> olm_heartbeat_ok [OF 4(2)]
    unfolding olm_on_tick_def by (cases r; cases y; cases z) (simp_all add: ol_send_def olm_result_ok_all)
qed

lemma olm_on_incoming_ok:
  assumes "olm_ok e s w"
  shows "olm_result_ok e (olm_on_incoming e s w)"
proof -
  obtain r sock w1 where r: "recv (o_de_msg e) (ol_socket s) w = (r, sock, w1)" by (metis prod_cases3)
  then have "later w w1" using later_recv_loop by (auto simp: recv_def)
  then have ok: "olm_ok e (s\<lparr>ol_socket := sock\<rparr>) w1" using olm_ok_later [OF assms] by simp
  show ?thesis
  proof (cases "\<exists>msg. r = Inr (Some msg)")
    case True
    then obtain msg where m: "r = Inr (Some msg)" by blast
    obtain x s2 w2 where h: "handle_message e msg (s\<lparr>ol_socket := sock\<rparr>) w1 = (x, s2, w2)" by (metis prod_cases3)
    show ?thesis using handle_message_ok [OF ok, of msg] r m h by (cases x) (simp_all add: olm_on_incoming_def olm_result_ok_def)
  next
    case False
    then show ?thesis using r ok by (cases r) (auto simp: olm_on_incoming_def olm_result_ok_all split: option.splits)
  qed
qed

lemma deliver_outs_ok:
  "backend_ok cfg b \<Longrightarrow> deliver_outs os b u = (r, b', u') \<Longrightarrow> backend_ok cfg b' \<and> routed le b' = routed le b"
proof (induction os b u rule: deliver_outs.induct)
  case (2 p os b u)
  obtain x b1 where d: "backend_deliver p b = (x, b1)" by fastforce
  note ok = routed_deliver [OF d "2.prems"(1), of le]
  show ?case
  proof (cases x)
    case (Inr y)
    have "deliver_outs os b1 u = (r, b', u')" using "2.prems"(2) d Inr by simp
    then show ?thesis using "2.IH" [OF d [symmetric] Inr] ok by simp
  qed (use "2.prems" d ok in auto)
next
  case (3 dg a os b u)
  then show ?case by (auto split: prod.splits sum.splits)
qed simp

definition olm_fits :: "('i, 'sk) olm_env \<Rightarrow> olm_event \<Rightarrow> bool" where
  "olm_fits e x =
     (case x of
        OlmUdp (Datagram dg) \<Rightarrow> length dg \<le> max (cr_mtu (o_cfg e)) 1500 + 48
      | OlmDrive ev \<Rightarrow>
          (case be_accept ev of Accepted i \<Rightarrow> i < length (cr_forwards (o_cfg e)) | _ \<Rightarrow> True) \<and>
          (case be_read ev of Inr p \<Rightarrow> length p \<le> max (cr_mtu (o_cfg e)) 1500 | Inl _ \<Rightarrow> True)
      | _ \<Rightarrow> True)"

lemma olm_on_datagram_ok:
  assumes "olm_env_ok e" "olm_ok e s w" "length dg \<le> max (cr_mtu (o_cfg e)) 1500 + 48"
  shows "\<exists>x. olm_on_datagram e dg s w = Some (Returns x) \<and> olm_result_ok e x"
proof (cases "ol_dp s")
  case (Some d)
  note ok = olm_ok_dp [OF assms(2) Some]
  obtain os r w1 where h: "handle_inbound (o_crypto e) (op_router d) dg w = Some (Returns (os, r, w1))" "router_ok r w1"
    "rt_mtu r = rt_mtu (op_router d)"
    using inbound_ok [of "o_crypto e" "op_router d" w dg] ok assms(1,3) by (auto simp: olm_env_ok_def olm_plane_ok_def)
  obtain x b u where o: "deliver_outs os (op_backend d) (ol_udp s) = (x, b, u)" by (metis prod_cases3)
  have "olm_plane_ok e \<lparr>op_router = r, op_backend = b\<rparr> w1"
    using ok h(2,3) traffic_ranges(2) [OF h(1)] deliver_outs_ok [OF _ o, of "o_cfg e" "o_le e"] by (simp add: olm_plane_ok_def)
  from olm_ok_set [OF _ this, of s] have
    "olm_ok e (s\<lparr>ol_dp := Some \<lparr>op_router = r, op_backend = b\<rparr>\<rparr>) w1" using assms(2) by (simp add: olm_ok_def)
  moreover have "take (max (cr_mtu (o_cfg e)) 1500 + 64) dg = dg" using assms(3) by simp
  ultimately show ?thesis using Some h(1) o by (simp add: olm_on_datagram_def olm_result_ok_all)
qed (use assms(2) in \<open>simp add: olm_on_datagram_def olm_result_ok_all\<close>)

lemma route_packets_ok:
  assumes "crypto_ok c"
  shows "router_ok r w \<Longrightarrow> \<forall>p \<in> set pkts. length p \<le> max (rt_mtu r) 1500 \<Longrightarrow>
    \<exists>x r' u' w'. route_packets c pkts r u w = Returns (x, r', u', w') \<and> router_ok r' w' \<and> rt_mtu r' = rt_mtu r \<and> ranges r' = ranges r"
proof (induction pkts arbitrary: r u w)
  case (Cons p pkts)
  obtain b r1 w1 where o: "route_outbound c r p w = Returns (b, r1, w1)" "router_ok r1 w1" "rt_mtu r1 = rt_mtu r"
    using outbound_ok [OF assms Cons.prems(1), of p] Cons.prems(2) by auto
  note eq = traffic_ranges(3) [OF o(1)]
  obtain x u1 where s: "send_all (case b of Some x \<Rightarrow> [x] | None \<Rightarrow> []) u = (x, u1)" by fastforce
  show ?case
  proof (cases x)
    case (Inr y)
    then show ?thesis using o s eq Cons.IH [of r1 w1 u1] Cons.prems(2) by simp
  qed (use o s eq in simp)
qed simp

lemma backend_drive_ok:
  assumes "olm_env_ok e" "backend_ok (o_cfg e) b" "olm_fits e (OlmDrive ev)"
  shows "\<exists>r b'. backend_drive (o_smol e) (o_iter e) ev b = Returns (r, b') \<and> backend_ok (o_cfg e) b' \<and> routed le b' = routed le b
    \<and> (\<forall>out p. r = Inr out \<longrightarrow> p \<in> set out \<longrightarrow> length p \<le> max (cr_mtu (o_cfg e)) 1500)"
proof (cases b)
  case (UserspaceB us)
  have "accept_fits (be_accept ev) us" using assms(2,3) UserspaceB by (auto simp: olm_fits_def accept_fits_def split: accept_event.splits)
  from us_drive_ok [OF _ _ _ this, of "o_smol e" "o_iter e" "cr_mtu (o_cfg e)" "be_now ev"] assms(1,2) UserspaceB
  obtain r us' where "us_drive (o_smol e) (o_iter e) (be_accept ev) (be_now ev) us = Returns (r, us')"
    "userspace_ok (cr_mtu (o_cfg e)) us'" "us_forwards us' = us_forwards us"
    "\<forall>out p. r = Inr out \<longrightarrow> p \<in> set out \<longrightarrow> length p \<le> cr_mtu (o_cfg e)"
    by (auto simp: olm_env_ok_def)
  then show ?thesis using UserspaceB assms(2) by (auto simp: fun_eq_iff le_max_iff_disj)
next
  case (KernelB kb)
  then show ?thesis using assms(3) by (cases "be_read ev") (auto simp: kb_drive_def olm_fits_def Let_def)
qed

lemma olm_on_drive_ok:
  assumes "olm_env_ok e" "olm_ok e s w" "olm_fits e (OlmDrive ev)"
  shows "\<exists>x. olm_on_drive e ev s w = Returns x \<and> olm_result_ok e x"
proof (cases "ol_dp s")
  case (Some d)
  note ok = olm_ok_dp [OF assms(2) Some]
  obtain x b where b: "backend_drive (o_smol e) (o_iter e) ev (op_backend d) = Returns (x, b)" "backend_ok (o_cfg e) b"
    "routed (o_le e) b = routed (o_le e) (op_backend d)" "\<forall>out p. x = Inr out \<longrightarrow> p \<in> set out \<longrightarrow> length p \<le> max (cr_mtu (o_cfg e)) 1500"
    using backend_drive_ok [OF assms(1) _ assms(3), of "op_backend d" "o_le e"] ok by (auto simp: olm_plane_ok_def)
  have T: "\<exists>T. clock_from T w" using assms(2) by (simp add: olm_ok_def)
  show ?thesis
  proof (cases x)
    case (Inl err)
    then show ?thesis using Some b(1) T by (simp add: olm_on_drive_def olm_result_ok_def)
  next
    case (Inr pkts)
    have "crypto_ok (o_crypto e)" "router_ok (op_router d) w" "\<forall>p \<in> set pkts. length p \<le> max (rt_mtu (op_router d)) 1500"
      using assms(1) ok b(4) Inr by (auto simp: olm_env_ok_def olm_plane_ok_def)
    from route_packets_ok [OF this, of "ol_udp s"] obtain y r u w1 where
      r: "route_packets (o_crypto e) pkts (op_router d) (ol_udp s) w = Returns (y, r, u, w1)" "router_ok r w1"
      "rt_mtu r = rt_mtu (op_router d)" "ranges r = ranges (op_router d)" by blast
    have "olm_plane_ok e \<lparr>op_router = r, op_backend = b\<rparr> w1" using ok r b(2,3) by (simp add: olm_plane_ok_def)
    from olm_ok_set [OF _ this, of s] have
      "olm_ok e (s\<lparr>ol_dp := Some \<lparr>op_router = r, op_backend = b\<rparr>\<rparr>) w1" using assms(2) by (simp add: olm_ok_def)
    then show ?thesis using Some b(1) Inr r(1) by (simp add: olm_on_drive_def olm_result_ok_all)
  qed
qed (use assms(2) in \<open>simp add: olm_on_drive_def olm_result_ok_all\<close>)

section \<open>Sessions\<close>

interpretation olm_loop: event_loop "olm_step e" "olm_loop e" "olm_fits e" "\<lambda>s w. olm_env_ok e \<and> olm_ok e s w"
    "\<lambda>s w. \<exists>T. clock_from T w" for e :: "('i, 'sk) olm_env"
proof unfold_locales
  fix x xs s w r s' w'
  show "olm_step e x s w = Some (Returns (r, s', w')) \<Longrightarrow> r \<noteq> Inr True \<Longrightarrow> olm_loop e (x # xs) s w = Some (Returns (r, s', w'))"
    by (cases r) auto
  assume a: "olm_env_ok e \<and> olm_ok e s w" "olm_fits e x"
  have "\<exists>y. olm_step e x s w = Some (Returns y) \<and> olm_result_ok e y"
  proof (cases x)
    case (OlmUdp ev)
    then show ?thesis using a olm_on_datagram_ok [of e s w] by (cases ev) (auto simp: olm_fits_def olm_result_ok_all)
  next
    case (OlmInterrupted k)
    obtain sock w1 where r: "recv_dropped (o_de_msg e) k (ol_socket s) w = (sock, w1)" by fastforce
    have "olm_ok e (s\<lparr>ol_socket := sock\<rparr>) w1" using a olm_ok_later [of e s w w1] later_recv_dropped [OF r] by simp
    then show ?thesis using OlmInterrupted r by (simp add: olm_result_ok_all)
  qed (use a olm_on_incoming_ok olm_on_tick_ok olm_on_drive_ok in auto)
  then show "\<exists>r s' w'. olm_step e x s w = Some (Returns (r, s', w')) \<and> (\<exists>T. clock_from T w')
    \<and> (r = Inr True \<longrightarrow> olm_env_ok e \<and> olm_ok e s' w')"
    using a by (auto simp: olm_result_ok_def)
qed (auto simp: olm_ok_def)

lemma olm_open_ok:
  assumes "clock_from T w" "olm_open e dt dw w = (x, w')"
  shows "clock_from T w' \<and> (\<forall>s. x = Inr s \<longrightarrow> olm_ok e s w')"
proof -
  have c: "connect dw enc ep t ct w = (r, w1) \<Longrightarrow> clock_from T w1" for enc ep t ct r w1
    using later_clock [OF assms(1) later_connect] .
  have s: "ol_ws_send e m s w1 = (r, s', w2) \<Longrightarrow> clock_from T w1 \<Longrightarrow> clock_from T w2 \<and> ol_dp s' = ol_dp s \<and> ol_ping_ticks s' = ol_ping_ticks s"
    for m s w1 r s' w2
    by (auto simp: ol_ws_send_def split: prod.splits intro: later_clock dest: later_ws_send)
  show ?thesis using assms unfolding olm_open_def Let_def
    by (auto split: sum.splits option.splits prod.splits simp: olm_ok_def dest!: c s)
qed

lemma olm_session_ok:
  assumes "olm_env_ok e" "clock_from T w" "\<forall>x \<in> set evs. olm_fits e x"
  shows "\<exists>r s' w'. olm_session_run e dt dw evs w = Some (Returns (r, s', w')) \<and> (\<exists>T. clock_from T w')
    \<and> (\<forall>s. s' = Some s \<longrightarrow> r = Inr True \<longrightarrow> olm_ok e s w')"
proof -
  obtain x w1 where o: "olm_open e dt dw w = (x, w1)" by fastforce
  note ok = olm_open_ok [OF assms(2) o]
  show ?thesis
  proof (cases x)
    case (Inr s)
    then show ?thesis using olm_loop.loop_keeps [of e s w1, OF _ assms(3)] ok assms(1) o by (auto simp: olm_session_run_def)
  qed (use o ok in \<open>auto simp: olm_session_run_def\<close>)
qed

lemma olm_sessions_ok:
  assumes "olm_env_ok e"
  shows "clock_from T w \<Longrightarrow> \<forall>(dt, dw, evs) \<in> set ss. \<forall>x \<in> set evs. olm_fits e x \<Longrightarrow> \<exists>w'. olm_sessions e ss w = Some (Returns w')"
proof (induction ss arbitrary: T w)
  case (Cons p ss)
  obtain dt dw evs where p: "p = (dt, dw, evs)" by (cases p)
  obtain r s' w' T' where "olm_session_run e dt dw evs w = Some (Returns (r, s', w'))" "clock_from T' w'"
    using olm_session_ok [OF assms Cons.prems(1), of evs dt dw] Cons.prems(2) p by auto
  then show ?case using Cons.IH [of T' w'] Cons.prems(2) p by simp
qed simp

section \<open>Properties\<close>

text \<open>
  C5: A client's process never panics and always comes back to its loop: however many sessions the
  connections it makes give, whatever the server sends on each, and however messages, ticks, datagrams, accepted
  connections and packets of the device interleave (datagrams that fit the scratch buffer, packets of at most
  the larger of the MTU and 1500 bytes), with either backend.
\<close>

theorem client_process_never_panics:
  assumes "olm_env_ok e" "clock_from T w" "\<forall>(dt, dw, evs) \<in> set ss. \<forall>x \<in> set evs. olm_fits e x"
  shows "\<exists>w'. olm_run e ss w = Some (Returns w')"
proof -
  obtain k w1 where g: "generate_keys (o_crypto e) (o_b64_encode e) w = (k, w1)" by fastforce
  then have "clock_from T w1"
    using later_clock [OF assms(2) later_fill, of 32] by (auto simp: generate_keys_def Let_def case_prod_beta)
  moreover have "olm_env_ok (e\<lparr>o_keys := k\<rparr>)" "olm_fits (e\<lparr>o_keys := k\<rparr>) = olm_fits e"
    using assms(1) by (simp_all add: olm_env_ok_def olm_fits_def fun_eq_iff split: olm_event.splits udp_event.splits accept_event.splits sum.splits)
  ultimately show ?thesis using olm_sessions_ok [of "e\<lparr>o_keys := k\<rparr>" T w1 ss] assms(3) g by (simp add: olm_run_def)
qed

text \<open>
  C16: While a session of the client with the kernel backend goes on, every range its router encapsulates packets for,
  whether it came with the connection, a peer, an update, a synchronisation or added data, has been asked of the
  kernel as a route into the client's interface.
\<close>

theorem client_ranges_are_routed:
  assumes "olm_env_ok e" "clock_from T w" "\<forall>x \<in> set evs. olm_fits e x"
    and "olm_session_run e dt dw evs w = Some (Returns (Inr True, Some s, w'))"
    and "ol_dp s = Some d" "op_backend d = KernelB kb" "(k, c) \<in> set (all_cidrs (op_router d))"
  shows "\<exists>m \<in> set (nl_sent (kb_nl kb)). route_message (o_le e) (kb_ifindex kb) c m"
proof -
  have "olm_plane_ok e d w'" using olm_session_ok [OF assms(1-3), of dt dw] assms(4,5) by (auto intro: olm_ok_dp)
  moreover have "c \<in> ranges (op_router d)" using assms(7) by (auto simp: all_cidrs_def ranges_def)
  ultimately show ?thesis using assms(6) by (auto simp: olm_plane_ok_def)
qed

text \<open>A kernel that acknowledges everything and a server that sends one site.\<close>

definition demo_kernel_os :: kernel_os where
  "demo_kernel_os = \<lparr>ko_open = Inr (), ko_setiff = Inr, ko_nonblocking = Inr (), ko_async_fd = Inr (), ko_write = (\<lambda>_ _. Inr ()),
     ko_nametoindex = (\<lambda>_. 5), ko_socket = Inr (), ko_kernel = (\<lambda>_ _. Inr (Inr (replicate 20 0)))\<rparr>"

definition demo_site_config :: site_config where
  "demo_site_config = \<lparr>sc_site_id = 7, sc_name = ''hq'', sc_endpoint = ''e'', sc_relay_endpoint = [], sc_public_key = ''k'', sc_server_ip = [],
     sc_server_port = 0, sc_remote_subnets = [''10.0.0.0/24''], sc_allowed_ips = []\<rparr>"

definition demo_client :: client_run where
  "demo_client = \<lparr>cr_endpoint = ''https://a'', cr_id = ''i'', cr_secret = ''s'', cr_user_token = [], cr_org_id = ''o'', cr_mtu = 1280,
     cr_skip_tls_verify = False, cr_access = Kernel, cr_interface = ''olm'', cr_forwards = [], cr_socks_port = None\<rparr>"

definition demo_olm :: "(unit, demo_sock) olm_env" where
  "demo_olm = \<lparr>o_crypto = demo_crypto, o_smol = demo_smol, o_iter = sorted_list_of_set, o_os = demo_os,
     o_resolve = (\<lambda>_. Inr [(V4 0x01020304, 51820)]), o_tcp_bind = (\<lambda>_. Inr ()), o_kernel_os = demo_kernel_os, o_le = True,
     o_de_json = (\<lambda>_. Inr (JObject [(''data'', JObject [(''token'', JString ''t'')])])),
     o_de_msg = (\<lambda>_. Inr \<lparr>msg_typ = OLM_CONNECT, msg_data = JNull, config_version = None\<rparr>),
     o_de_wg = (\<lambda>_. Some \<lparr>ow_sites = [demo_site_config], ow_tunnel_ip = ''100.89.0.2/24'', ow_utility_subnet = []\<rparr>),
     o_de_site = (\<lambda>_. None), o_de_peer = (\<lambda>_. None), o_de_relay = (\<lambda>_. None), o_de_unrelay = (\<lambda>_. None), o_de_data = (\<lambda>_. None),
     o_de_sync = (\<lambda>_. None), o_b64_decode = (\<lambda>_. Inr (replicate 32 5)), o_b64_encode = (\<lambda>_. ''k''), o_ser_json = (\<lambda>_. ''j''),
     o_ser_msg = (\<lambda>_. Inr ''m''), o_cfg = demo_client, o_keys = demo_keys\<rparr>"

lemma demo_olm_ok: "olm_env_ok demo_olm"
  by (simp add: olm_env_ok_def demo_olm_def demo_crypto_ok demo_smol_ok demo_iter)

lemma demo_request:
  assumes "nl_kernel nl = ko_kernel demo_kernel_os"
  shows "\<exists>nl'. request True t f p nl = (Inr (), nl') \<and> nl_kernel nl' = ko_kernel demo_kernel_os"
proof -
  have "slice 4 6 (replicate 20 0 :: bytes) = replicate 2 0" by (simp add: slice_def)
  then have "read_ack True (Inr (replicate 20 0)) = Inr ()"
    by (simp add: read_ack_def of_ne_bytes_def NLMSG_ERROR_def numeral_2_eq_2 Let_def)
  then show ?thesis using assms by (simp add: request_def demo_kernel_os_def Let_def)
qed

lemma demo_kernel_new: "\<exists>kb. kernel_new True demo_kernel_os ''olm'' ip mtu = Inr kb"
proof -
  have "concat (map byte_char (takeWhile (\<lambda>c. c \<noteq> 0) (ifr_name ''olm''))) = ''olm''" by code_simp
  then obtain t where t: "tun_open demo_kernel_os ''olm'' = Inr t" "tn_name t = ''olm''"
    by (simp add: tun_open_def demo_kernel_os_def Let_def)
  have i: "if_index demo_kernel_os ''olm'' = Inr 5" by (simp add: if_index_def demo_kernel_os_def)
  obtain nl where n: "netlink_open demo_kernel_os = Inr nl" "nl_kernel nl = ko_kernel demo_kernel_os"
    by (simp add: netlink_open_def demo_kernel_os_def)
  obtain nl1 where 1: "nl_set_mtu True 5 (of_nat mtu) nl = (Inr (), nl1)" "nl_kernel nl1 = ko_kernel demo_kernel_os"
    using demo_request [OF n(2)] unfolding nl_set_mtu_def Let_def by blast
  obtain nl2 where 2: "add_addr True 5 ip (host_prefix ip) nl1 = (Inr (), nl2)" "nl_kernel nl2 = ko_kernel demo_kernel_os"
    using demo_request [OF 1(2)] unfolding add_addr_def Let_def case_prod_beta by blast
  obtain nl3 where 3: "link_up True 5 nl2 = (Inr (), nl3)"
    using demo_request [OF 2(2)] unfolding link_up_def Let_def by blast
  show ?thesis using t i n 1 2 3 by (simp add: kernel_new_def)
qed

lemma demo_plane:
  "\<exists>d inits kb w'. build_dataplane demo_olm \<lparr>ow_sites = [demo_site_config], ow_tunnel_ip = ''100.89.0.2/24'', ow_utility_subnet = []\<rparr> w
     = (Inr (d, inits), w') \<and> op_backend d = KernelB kb \<and> all_cidrs (op_router d) = [(7, \<lparr>net = V4 0x0A000000, cd_prefix = 24\<rparr>)]
     \<and> length inits \<le> 1"
proof -
  let ?c = "\<lparr>net = V4 0x0A000000, cd_prefix = 24\<rparr> :: cidr"
  let ?r = "router_new (k_secret demo_keys) 1280"
  have parse: "parse_ip_addr (hd (split_char (CHR ''/'') ''100.89.0.2/24'')) \<noteq> None" "cidr_parse ''10.0.0.0/24'' = Some ?c" by code_simp+
  obtain b r1 w1 where u: "upsert_peer demo_crypto (\<lambda>_. Inr (replicate 32 5)) ?r 7 ''k'' (V4 0x01020304, 51820) [?c] w = (b, r1, w1)"
    by (metis prod_cases3)
  have r1: "all_cidrs r1 = [(7, ?c)]"
    using u by (auto simp: upsert_peer_def public_from_b64_def router_new_def remove_peer_def all_cidrs_def Let_def case_prod_beta)
  have sites: "add_sites demo_olm [demo_site_config] ?r w = (case b of Some i \<Rightarrow> [i] | None \<Rightarrow> [], [?c], r1, w1)"
    using u parse(2) by (simp add: demo_olm_def demo_site_config_def resolve_def wg_endpoint_def routed_cidrs_def List.map_filter_simps)
  obtain ip where ip: "parse_ip_addr (hd (split_char (CHR ''/'') ''100.89.0.2/24'')) = Some ip" using parse(1) by blast
  obtain kb where kb: "kernel_new True demo_kernel_os ''olm'' ip 1280 = Inr kb" using demo_kernel_new by blast
  have "backend_new demo_olm ip = Inr (KernelB kb)" using kb by (simp add: backend_new_def demo_olm_def demo_client_def)
  then show ?thesis
    using ip sites r1
    by (simp add: build_dataplane_def kb_add_routes_def demo_olm_def demo_client_def Let_def split: option.split)
qed

lemma demo_olm_up:
  "\<exists>s w' d kb. olm_session_run demo_olm (demo_reach []) (demo_reach (demo_head @ server_frame True 0x1 [7])) [OlmIncoming] w
     = Some (Returns (Inr True, Some s, w')) \<and> ol_dp s = Some d \<and> op_backend d = KernelB kb
     \<and> all_cidrs (op_router d) = [(7, \<lparr>net = V4 0x0A000000, cd_prefix = 24\<rparr>)]"
proof -
  let ?b = "server_frame True 0x1 [7]" and ?msg = "\<lparr>msg_typ = OLM_CONNECT, msg_data = JNull, config_version = None\<rparr>"
  have cfg: "o_cfg demo_olm = demo_client" "cr_endpoint demo_client = ''https://a''" by (simp_all add: demo_olm_def demo_client_def)
  obtain out w1 where c: "connect (demo_reach (demo_head @ ?b)) (o_b64_encode demo_olm) ''https://a'' ''t'' ''olm'' w
      = (Inr (demo_stream\<lparr>st_in := ?b, st_out := out\<rparr>), w1)"
    using demo_upgrade by blast
  obtain out' w2 where f: "write_frame 1 (str_bytes ''m'') (demo_stream\<lparr>st_in := ?b, st_out := out\<rparr>) w1
      = (Inr (), demo_stream\<lparr>st_in := ?b, st_out := out'\<rparr>, w2)"
    using demo_write by blast
  obtain hp where open': "olm_open demo_olm (demo_reach []) (demo_reach (demo_head @ ?b)) w
      = (Inr \<lparr>ol_socket = demo_stream\<lparr>st_in := ?b, st_out := out'\<rparr>, ol_udp = \<lparr>u_sent = [], u_ok = \<lambda>_. True\<rparr>, ol_hp = hp, ol_dp = None,
          ol_ping_ticks = 0\<rparr>, w2)"
    using c f demo_token_data [of "JObject [(''data'', JObject [(''token'', JString ''t'')])]"]
    by (simp add: olm_open_def cfg ol_ws_send_def ws_send_def demo_olm_def demo_os_def Let_def)
  obtain d inits kb w3 where p: "build_dataplane demo_olm
      \<lparr>ow_sites = [demo_site_config], ow_tunnel_ip = ''100.89.0.2/24'', ow_utility_subnet = []\<rparr> w2 = (Inr (d, inits), w3)"
    "op_backend d = KernelB kb" "all_cidrs (op_router d) = [(7, \<lparr>net = V4 0x0A000000, cd_prefix = 24\<rparr>)]"
    using demo_plane by blast
  have "\<exists>u'. send_all xs \<lparr>u_sent = ys, u_ok = \<lambda>_. True\<rparr> = (Inr (), u')" for xs ys
    by (induction xs arbitrary: ys) (auto simp: send_to_def)
  then obtain u' where u: "send_all inits \<lparr>u_sent = [], u_ok = \<lambda>_. True\<rparr> = (Inr (), u')" by blast
  show ?thesis
    using open' p u demo_recv [of ?msg out' w2]
    by (simp add: olm_session_run_def olm_on_incoming_def handle_message_def ol_send_def demo_olm_def Let_def)
qed

theorem client_process_never_panics_witness:
  "\<exists>w'. olm_run demo_olm
     [(demo_reach [], demo_reach (demo_head @ server_frame True 0x1 [7]),
       [OlmIncoming, OlmInterrupted 1, OlmSecond, OlmUdp (Datagram [4, 0, 0, 0]), OlmDrive \<lparr>be_accept = NoneAccepted, be_now = 20, be_read = Inr [0x45]\<rparr>]),
      (demo_reach [], demo_reach [], [OlmSecond])] demo_world = Some (Returns w')"
  using client_process_never_panics [OF demo_olm_ok clock_demo] by (simp add: olm_fits_def)

theorem client_ranges_are_routed_witness:
  "\<exists>s w' d kb m. olm_session_run demo_olm (demo_reach []) (demo_reach (demo_head @ server_frame True 0x1 [7])) [OlmIncoming] demo_world
     = Some (Returns (Inr True, Some s, w')) \<and> ol_dp s = Some d \<and> op_backend d = KernelB kb
     \<and> m \<in> set (nl_sent (kb_nl kb)) \<and> route_message True (kb_ifindex kb) \<lparr>net = V4 0x0A000000, cd_prefix = 24\<rparr> m"
proof -
  obtain s w' d kb where s: "olm_session_run demo_olm (demo_reach []) (demo_reach (demo_head @ server_frame True 0x1 [7])) [OlmIncoming] demo_world
      = Some (Returns (Inr True, Some s, w'))" "ol_dp s = Some d" "op_backend d = KernelB kb"
    "all_cidrs (op_router d) = [(7, \<lparr>net = V4 0x0A000000, cd_prefix = 24\<rparr>)]"
    using demo_olm_up by blast
  have f: "\<forall>x \<in> set [OlmIncoming]. olm_fits demo_olm x" by (simp add: olm_fits_def)
  have "(7, \<lparr>net = V4 0x0A000000, cd_prefix = 24\<rparr>) \<in> set (all_cidrs (op_router d))" using s(4) by simp
  from client_ranges_are_routed [OF demo_olm_ok clock_demo f s(1-3) this] show ?thesis using s by (auto simp: demo_olm_def)
qed

end
