(* ===== verification/Spec2Isabelle.thy ===== *)
theory Spec2Isabelle
  imports Target Tunn_Stats Tunn_Delivery Config Key_Bytes Site_Session Olm_Safety
begin

text \<open>
  A verification library of newt-rust: the tunnel agent \<open>newt\<close>, which runs as a site (it exposes TCP
  services of its network through a WireGuard tunnel), as a client (\<open>olm\<close>, it reaches the sites), or
  as both; the protocol library \<open>newt-core\<close>; and the WireGuard implementation \<open>boringtun\<close> it carries.
  File names below are relative to \<open>src/crates/\<close>.

  \<^bold>\<open>How the parts interact.\<close> A role asks the server for a token over HTTP, opens a WebSocket with it
  and exchanges JSON messages there. The site's state machine turns messages and timer ticks into
  actions; one of them brings up the data plane: a UDP socket, a WireGuard pump, a user-space TCP
  stack and one listener per target. Datagrams are decapsulated into the stack; a connection it
  accepts is bridged by a task to the target. The client keeps a pump per site in a router, which
  demultiplexes datagrams by session index and packets by longest prefix, and exchanges packets with
  the host through a TUN device configured over netlink, or through a stack of its own.

  \<^bold>\<open>Theories and the code they model.\<close> Definitions keep the order of the sources and, where the name
  is free, their names; a prefix or suffix tells apart what Rust tells apart by type.

  \<^item> \<open>Prelude\<close>: integers, byte codecs (locale \<open>fixed_codec\<close>), the outcome of a call that may panic,
    systems with an invariant (locale \<open>invariant_system\<close>), lists searched by a key. \<open>Rust_Strings\<close>,
    \<open>Ip_Addr\<close>, \<open>Float32\<close>: what the sources use of \<open>str\<close>, \<open>core::net\<close> and \<open>f32\<close> (locale \<open>rounding\<close>).
  \<^item> \<open>Target\<close>, \<open>Site_Sm\<close>: \<open>newt-core/src/target.rs\<close>, \<open>proto.rs\<close> and \<open>sm.rs\<close>.
  \<^item> \<open>Clock\<close>, \<open>Packets\<close>, \<open>Crypto\<close>, \<open>Replay_Window\<close>, \<open>Noise_Session\<close>, \<open>Handshake\<close>, \<open>Rate_Limiter\<close>, \<open>Tunn\<close>:
    \<open>boringtun/src/sleepyinstant\<close> and \<open>noise/{mod,errors,session,handshake,rate_limiter,timers}.rs\<close>.
    \<open>Tunn_Invariant\<close>, \<open>Tunn_Safety\<close>, \<open>Tunn_Stats\<close>: what holds of a tunnel, and its statistics.
    \<open>Key_Bytes\<close>: \<open>serialization.rs\<close>.
  \<^item> \<open>Wg_Pump\<close>, \<open>Tunn_Delivery\<close>: \<open>newt/src/wg.rs\<close>, and two pumps over a network.
  \<^item> \<open>Ws_Frames\<close>, \<open>Transport\<close>: \<open>newt/src/transport/{ws,token}.rs\<close>. \<open>Config\<close>: \<open>config.rs\<close> and \<open>log.rs\<close>.
  \<^item> \<open>Icmp\<close>, \<open>Bridge\<close>, \<open>Site_Plane\<close>, \<open>Site_Safety\<close>, \<open>Site_Session\<close>: \<open>newt/src/netstack.rs\<close>, \<open>proxy.rs\<close>,
    \<open>holepunch.rs\<close> and \<open>tunnel.rs\<close>. \<open>Session_Base\<close>: what the loops of the two roles share (locale
    \<open>event_loop\<close>, interpreted on the loop of each).
  \<^item> \<open>Olm_Router\<close>, \<open>Olm_Router_Safety\<close>, \<open>Netlink\<close>, \<open>Userspace\<close>, \<open>Olm_Control\<close>, \<open>Olm_Safety\<close>:
    \<open>newt/src/olm\<close>, the whole directory.

  \<^bold>\<open>State and effects.\<close> A struct is a record, a \<open>&mut self\<close> method a function that returns the changed
  record, a \<open>Result\<close> a sum with the error left, a panic the outcome \<open>Panics\<close>. The clock readings and
  random bytes still to come are the \<open>world\<close>, passed along. An output buffer is its length, since only
  that decides between writing and panicking. \<open>select!\<close> becomes the list of inputs in the order in
  which the branches win, and theorems hold for every such list. Code outside \<open>src/\<close> is a parameter
  with its documented laws as hypotheses, each met by a concrete instance in a witness: the
  cryptographic crates (\<open>crypto\<close>, \<open>crypto_ok\<close>: decryption inverts encryption, Diffie-Hellman agrees,
  lengths), smoltcp (\<open>smol\<close>, \<open>smol_ok\<close>), the connections (\<open>dialer\<close>, \<open>stream\<close>), the sockets and the
  kernel (\<open>os\<close>, \<open>udp\<close>), serde, base64, and the order of a hash map's keys (\<open>iter_ok\<close>).

  \<^bold>\<open>What the lemmas show.\<close>

  \<^item> Messages and text: parsers accept exactly what they should and invert the printers (targets,
    packets, frames, netlink requests, keys); a later flag overrides an earlier one.
  \<^item> WireGuard: the replay window refines a set of counters, so that no packet is delivered twice
    over a network that reorders, drops and replays; a handshake ends in crossed sessions; an old
    initiation is refused; the cookie of a loaded responder lets its sender through; every operation
    keeps the tunnel's invariant, so none panics; sessions expire; the queue of a tunnel reaches the
    other end once the handshake is through; the loss estimate is a share.
  \<^item> The site: the tunnel exists exactly while the state machine is connected; its listeners refine a
    table of ports; bridged bytes arrive in order and complete in every interleaving; over any input
    that fits the buffers the process never panics and its loops end.
  \<^item> The client: lookups follow the longest prefix, the router refines a table of sites, datagrams
    reach their peer, every range it encapsulates for has a kernel route, and the process never panics.
  \<^item> Limits of the code, proved as theorems: the largest counter reopens the window, a datagram longer
    than the scratch buffer aborts the program, a dropped receive loses its session, an index from \<open>2 ^ 24\<close> on is never demultiplexed.

  \<^bold>\<open>Bounds and loops.\<close> There is no fuel. Loops are structural or have a \<open>termination\<close> proof; the clearing
  loops of the replay window are \<open>while\<close>, shown to stop in \<open>skipped_loops\<close>; the drain loop of a pump is
  a \<open>partial_function\<close> with \<open>None\<close> for a run that never ends, shown not to occur. A session is observed
  over a finite list of inputs of any length; the endless reconnect loops are a list of sessions.
  \<open>f32\<close> is exact on the finite values the code reaches; overflow to infinity is not represented, and
  the values of the estimate stay far below it.

  \<^bold>\<open>Not modelled.\<close> \<open>transport/tls.rs\<close> only configures rustls, and \<open>main.rs\<close> the runtime, signals and
  exit codes. Log output, \<open>Debug\<close> instances and the Windows clock have no effect on the rest. The poll
  methods of a WebSocket's stream delegate to TCP or TLS and are the stream itself. System calls,
  readiness of descriptors, sleeping and the scheduling inside tokio are the environment. A receive
  that \<open>select!\<close> drops in the middle of a frame is an input of the loops; the other branches either wait
  or run to their end here, a send that would be dropped halfway is not represented. The two roles of one process share no state and are treated one by one.
\<close>

end
